(* ===== verification/Prelude.thy ===== *)
theory Prelude
  imports Main "HOL-Library.Word" "HOL-Library.Char_ord" "HOL-Library.List_Lexorder"
begin

text \<open>
  Shared vocabulary of the development.

  \<^item> the error codes of \<^verbatim>\<open>src/common/common.proto\<close> and the exceptions the C++ code throws,
    with the result type \<open>outcome\<close>: a value, an exception that a \<^verbatim>\<open>catch\<close> block sees, or a
    failed \<^verbatim>\<open>assert\<close>, which no \<^verbatim>\<open>catch\<close> block sees;
  \<^item> the parts of the C++ string library that the sources use: \<^verbatim>\<open>std::getline\<close> with a
    delimiter, \<^verbatim>\<open>std::to_string\<close>, \<^verbatim>\<open>std::stoi\<close>, splitting and joining on a separator;
  \<^item> two interfaces that several components implement: \<open>codec\<close> (a printer and a parser that
    reads back what was printed) and \<open>kv_table\<close> (a table that refines a finite map).
\<close>

named_theorems outcome_simps \<open>inversion of successful computations\<close>
named_theorems string_simps \<open>facts on separators and characters of printed values\<close>

section \<open>Types\<close>

type_synonym u64 = "64 word"
type_synonym path = string

datatype ERROR_CODE =
    COMMON_EXCEPTION
  | PATH_EXISTS_EXCEPTION
  | PATH_NOT_EXISTS_EXCEPTION
  | EXPECTED_FILE_EXCEPTION
  | EXPECTED_DIR_EXCEPTION
  | EXPECTED_LOCK_CONFLICT
  | REDIRECT_TO_MASTER
  | OUT_OF_RANGE_EXCEPTION

text \<open>The C++ exception classes. All of them derive from \<^verbatim>\<open>std::exception\<close>; the string is
  what \<^verbatim>\<open>what()\<close> returns (for \<open>MessageException\<close>, the message of the \<^verbatim>\<open>ErrorMessage\<close>).\<close>

datatype exn =
    MessageException ERROR_CODE string
  | RuntimeError string
  | InvalidArgument string
  | OutOfRange string
  | OverflowError string
  | JsonException string

datatype 'a outcome = Ok 'a | Throw exn | Abort string

fun bindO :: "'a outcome \<Rightarrow> ('a \<Rightarrow> 'b outcome) \<Rightarrow> 'b outcome" where
  "bindO (Ok x) f = f x"
| "bindO (Throw e) f = Throw e"
| "bindO (Abort s) f = Abort s"

definition guardO :: "bool \<Rightarrow> exn \<Rightarrow> unit outcome" where
  "guardO c e = (if c then Ok () else Throw e)"

fun mapO :: "('a \<Rightarrow> 'b outcome) \<Rightarrow> 'a list \<Rightarrow> 'b list outcome" where
  "mapO f [] = Ok []"
| "mapO f (x # xs) = bindO (f x) (\<lambda>y. bindO (mapO f xs) (\<lambda>ys. Ok (y # ys)))"

fun is_Ok :: "'a outcome \<Rightarrow> bool" where
  "is_Ok (Ok _) = True"
| "is_Ok (Throw _) = False"
| "is_Ok (Abort _) = False"

section \<open>Strings\<close>

text \<open>The tokens of \<^verbatim>\<open>while (getline(ss, tok, d))\<close>: a trailing delimiter gives no empty token
  and the empty string gives none.\<close>

function getlines :: "char \<Rightarrow> string \<Rightarrow> string list" where
  "getlines d [] = []"
| "getlines d (c # cs) =
     takeWhile (\<lambda>x. x \<noteq> d) (c # cs) # getlines d (tl (dropWhile (\<lambda>x. x \<noteq> d) (c # cs)))"
  by pat_completeness auto
termination
  by (relation "measure (\<lambda>(d, s). length s)")
    (auto simp: less_Suc_eq_le intro: le_trans [OF diff_le_self length_dropWhile_le])

text \<open>One call of \<^verbatim>\<open>getline\<close>: the token and what is left in the stream.\<close>

definition getline1 :: "char \<Rightarrow> string \<Rightarrow> string \<times> string" where
  "getline1 d s = (takeWhile (\<lambda>x. x \<noteq> d) s, tl (dropWhile (\<lambda>x. x \<noteq> d) s))"

fun split_on :: "char \<Rightarrow> string \<Rightarrow> string list" where
  "split_on d [] = [[]]"
| "split_on d (c # cs) =
     (if c = d then [] # split_on d cs
      else (c # hd (split_on d cs)) # tl (split_on d cs))"

fun join :: "char \<Rightarrow> string list \<Rightarrow> string" where
  "join d [] = []"
| "join d [x] = x"
| "join d (x # y # ys) = x @ d # join d (y # ys)"

definition digit_char :: "nat \<Rightarrow> char" where
  "digit_char n = char_of (48 + n)"

definition is_digit :: "char \<Rightarrow> bool" where
  "is_digit c \<longleftrightarrow> 48 \<le> (of_char c :: nat) \<and> (of_char c :: nat) \<le> 57"

definition digit_val :: "char \<Rightarrow> nat" where
  "digit_val c = of_char c - 48"

fun nat_to_string :: "nat \<Rightarrow> string" where
  "nat_to_string n =
     (if n < 10 then [digit_char n] else nat_to_string (n div 10) @ [digit_char (n mod 10)])"

declare nat_to_string.simps [simp del]

text \<open>\<^verbatim>\<open>std::to_string\<close> on a signed integer.\<close>

definition int_to_string :: "int \<Rightarrow> string" where
  "int_to_string i =
     (if i < 0 then CHR ''-'' # nat_to_string (nat (- i)) else nat_to_string (nat i))"

definition digits_val :: "string \<Rightarrow> nat" where
  "digits_val s = foldl (\<lambda>a c. 10 * a + digit_val c) 0 s"

definition is_space :: "char \<Rightarrow> bool" where
  "is_space c \<longleftrightarrow> c = CHR '' '' \<or> (9 \<le> (of_char c :: nat) \<and> (of_char c :: nat) \<le> 13)"

definition INT_MAX :: int where "INT_MAX = 2 ^ 31 - 1"
definition INT_MIN :: int where "INT_MIN = - (2 ^ 31)"

definition in_int :: "int \<Rightarrow> bool" where
  "in_int i \<longleftrightarrow> INT_MIN \<le> i \<and> i \<le> INT_MAX"

text \<open>Storing a value into a 32-bit \<^verbatim>\<open>int\<close> (two's complement).\<close>

definition to_int32 :: "int \<Rightarrow> int" where
  "to_int32 i = (i + 2 ^ 31) mod 2 ^ 32 - 2 ^ 31"

definition strip_sign :: "string \<Rightarrow> bool \<times> string" where
  "strip_sign s = (case s of
       [] \<Rightarrow> (False, [])
     | c # cs \<Rightarrow> if c = CHR ''-'' then (True, cs) else if c = CHR ''+'' then (False, cs) else (False, s))"

text \<open>\<^verbatim>\<open>std::stoi\<close>: leading white space, an optional sign, then the longest run of digits;
  what follows is ignored.\<close>

definition stoi :: "string \<Rightarrow> int outcome" where
  "stoi s =
     (let (neg, t) = strip_sign (dropWhile is_space s);
          ds = takeWhile is_digit t;
          v = (if neg then - int (digits_val ds) else int (digits_val ds))
      in if ds = [] then Throw (InvalidArgument ''stoi'')
         else if \<not> in_int v then Throw (OutOfRange ''stoi'')
         else Ok v)"

text \<open>Seven-bit strings: the ones every layer (JSON included) carries unchanged.\<close>

definition ascii :: "string \<Rightarrow> bool" where
  "ascii s \<longleftrightarrow> (\<forall>c\<in>set s. (of_char c :: nat) < 128)"

section \<open>Interfaces\<close>

text \<open>A printer and a parser: on the values in \<open>ok\<close> the parser reads back what was printed.\<close>

locale codec =
  fixes enc :: "'a \<Rightarrow> 's"
    and dec :: "'s \<Rightarrow> 'a outcome"
    and ok :: "'a \<Rightarrow> bool"
  assumes dec_enc: "ok x \<Longrightarrow> dec (enc x) = Ok x"
begin

lemma enc_inject: "ok x \<Longrightarrow> ok y \<Longrightarrow> enc x = enc y \<longleftrightarrow> x = y"
  by (metis dec_enc outcome.inject(1))

lemma mapO_dec_enc: "(\<And>x. x \<in> set xs \<Longrightarrow> ok x) \<Longrightarrow> mapO dec (map enc xs) = Ok xs"
  by (induction xs) (simp_all add: dec_enc)

end

text \<open>A finite map with operations that may fail: what a lookup returns, and what insertion and removal make of the map.
  Runs of operations are compared with the map itself.\<close>

datatype ('k, 'v) table_op = OpPut 'k 'v | OpDel 'k

fun apply_op :: "('k \<Rightarrow> 'v option) \<Rightarrow> ('k, 'v) table_op \<Rightarrow> 'k \<Rightarrow> 'v option" where
  "apply_op m (OpPut k v) = m(k \<mapsto> v)"
| "apply_op m (OpDel k) = m(k := None)"

fun op_keys :: "('k, 'v) table_op list \<Rightarrow> 'k set" where
  "op_keys [] = {}"
| "op_keys (OpPut k v # ops) = insert k (op_keys ops)"
| "op_keys (OpDel k # ops) = op_keys ops"

fun table_run :: "('s \<Rightarrow> 'k \<Rightarrow> 'v \<Rightarrow> 's outcome option) \<Rightarrow> ('s \<Rightarrow> 'k \<Rightarrow> (bool \<times> 's) outcome)
    \<Rightarrow> 's \<Rightarrow> ('k, 'v) table_op list \<Rightarrow> 's outcome option" where
  "table_run ins rem s [] = Some (Ok s)"
| "table_run ins rem s (OpPut k v # ops) =
     (case ins s k v of Some (Ok s') \<Rightarrow> table_run ins rem s' ops | r \<Rightarrow> r)"
| "table_run ins rem s (OpDel k # ops) =
     (case rem s k of Ok (r, s') \<Rightarrow> table_run ins rem s' ops | Throw e \<Rightarrow> Some (Throw e) | Abort m \<Rightarrow> Some (Abort m))"

lemma finite_op_keys [simp]: "finite (op_keys ops)"
  by (induction ops rule: op_keys.induct) simp_all

locale kv_table =
  fixes inv :: "'s \<Rightarrow> bool"
    and view :: "'s \<Rightarrow> 'k \<Rightarrow> 'v option"
    and find :: "'s \<Rightarrow> 'k \<Rightarrow> 'v option outcome"
    and ins :: "'s \<Rightarrow> 'k \<Rightarrow> 'v \<Rightarrow> 's outcome option"
    and rem :: "'s \<Rightarrow> 'k \<Rightarrow> (bool \<times> 's) outcome"
  assumes find_view: "inv s \<Longrightarrow> find s k = Ok (view s k)"
    and ins_view: "inv s \<Longrightarrow> ins s k v = Some (Ok s') \<Longrightarrow> inv s' \<and> view s' = (view s)(k \<mapsto> v)"
    and rem_view: "inv s \<Longrightarrow> rem s k = Ok (r, s') \<Longrightarrow> inv s' \<and> view s' = (view s)(k := None) \<and> r = (k \<in> dom (view s))"
begin

lemma run_view:
  "inv s \<Longrightarrow> table_run ins rem s ops = Some (Ok s') \<Longrightarrow> inv s' \<and> view s' = foldl apply_op (view s) ops"
proof (induction ops arbitrary: s)
  case (Cons p ops)
  show ?case
  proof (cases p)
    case (OpPut k v)
    then obtain s1 where s1: "ins s k v = Some (Ok s1)" "table_run ins rem s1 ops = Some (Ok s')"
      using Cons.prems(2) by (auto split: option.splits outcome.splits)
    note iv = ins_view [OF Cons.prems(1) s1(1)]
    show ?thesis using Cons.IH [OF conjunct1 [OF iv] s1(2)] unfolding conjunct2 [OF iv] by (simp only: OpPut foldl.simps apply_op.simps simp_thms)
  next
    case (OpDel k)
    then obtain r s1 where s1: "rem s k = Ok (r, s1)" "table_run ins rem s1 ops = Some (Ok s')"
      using Cons.prems(2) by (auto split: outcome.splits)
    then have rv: "inv s1" "view s1 = (view s)(k := None)" using rem_view [OF Cons.prems(1)] by blast+
    show ?thesis using Cons.IH [OF rv(1) s1(2)] unfolding rv(2) by (simp only: OpDel foldl.simps apply_op.simps simp_thms)
  qed
qed simp

lemma run_find:
  "inv s \<Longrightarrow> table_run ins rem s ops = Some (Ok s') \<Longrightarrow> find s' k = Ok (foldl apply_op (view s) ops k)"
  using run_view [of s ops s'] find_view [of s' k] by simp

end

section \<open>Generic lemmas\<close>

lemma bindO_eq_Ok [outcome_simps]: "bindO m f = Ok y \<longleftrightarrow> (\<exists>x. m = Ok x \<and> f x = Ok y)"
  by (cases m) auto

lemma bindO_eq_Abort [outcome_simps]:
  "bindO m f = Abort s \<longleftrightarrow> m = Abort s \<or> (\<exists>x. m = Ok x \<and> f x = Abort s)"
  by (cases m) auto

lemma guardO_eq_Ok [outcome_simps]: "guardO c e = Ok u \<longleftrightarrow> c"
  by (simp add: guardO_def)

lemma guardO_simps [simp]: "c \<Longrightarrow> guardO c e = Ok ()" "\<not> c \<Longrightarrow> guardO c e = Throw e"
  by (simp_all add: guardO_def)

lemma bindO_assoc: "bindO (bindO m f) g = bindO m (\<lambda>x. bindO (f x) g)"
  by (cases m) auto

lemma mapO_length: "mapO f xs = Ok ys \<Longrightarrow> length ys = length xs"
  by (induction xs arbitrary: ys) (auto simp: outcome_simps)

lemma mapO_all:
  assumes "mapO f xs = Ok ys" and "\<And>x y. x \<in> set xs \<Longrightarrow> f x = Ok y \<Longrightarrow> P y" and "y \<in> set ys"
  shows "P y"
proof -
  have "\<exists>x\<in>set xs. f x = Ok y"
    using assms(1,3) by (induction xs arbitrary: ys) (auto simp: outcome_simps)
  with assms(2) show ?thesis by blast
qed

subsection \<open>Splitting and joining\<close>

lemma split_on_nonempty [simp]: "split_on d s \<noteq> []"
  by (cases s) simp_all

lemma split_on_no_sep: "p \<in> set (split_on d s) \<Longrightarrow> d \<notin> set p"
proof (induction s arbitrary: p)
  case (Cons c cs)
  have "hd (split_on d cs) \<in> set (split_on d cs)" by simp
  with Cons show ?case
    by (auto split: if_splits dest: list.set_sel(2) [OF split_on_nonempty])
qed simp

lemma split_on_chars: "p \<in> set (split_on d s) \<Longrightarrow> set p \<subseteq> set s"
proof (induction s arbitrary: p)
  case (Cons c cs)
  have hd: "set (hd (split_on d cs)) \<subseteq> set cs" by (rule Cons.IH) simp
  have tl: "q \<in> set (tl (split_on d cs)) \<Longrightarrow> set q \<subseteq> set cs" for q
    by (rule Cons.IH) (rule list.set_sel(2) [OF split_on_nonempty])
  consider "p = []" | "p = c # hd (split_on d cs)" | "p \<in> set (tl (split_on d cs))"
    | "p \<in> set (split_on d cs)"
    using Cons.prems by (auto split: if_splits)
  then show ?case
  proof cases
    case 2
    with hd show ?thesis by auto
  next
    case 3
    with tl [of p] show ?thesis by auto
  next
    case 4
    with Cons.IH [of p] show ?thesis by auto
  qed simp
qed simp

lemma split_on_free [simp]: "d \<notin> set s \<Longrightarrow> split_on d s = [s]"
  by (induction s) auto

lemma split_on_append [simp]: "d \<notin> set p \<Longrightarrow> split_on d (p @ d # s) = p # split_on d s"
  by (induction p) auto

lemma split_on_join [simp]:
  "ps \<noteq> [] \<Longrightarrow> (\<And>p. p \<in> set ps \<Longrightarrow> d \<notin> set p) \<Longrightarrow> split_on d (join d ps) = ps"
  by (induction d ps rule: join.induct) auto

lemma join_Cons: "join d (x # xs) = (if xs = [] then x else x @ d # join d xs)"
  by (cases xs) simp_all

lemma join_snoc: "join d (xs @ [x]) = (if xs = [] then x else join d xs @ d # x)"
  by (induction xs) (auto simp: join_Cons)

lemma join_eq_Nil: "join d xs = [] \<longleftrightarrow> xs = [] \<or> xs = [[]]"
  by (cases xs) (auto simp: join_Cons)

lemma set_join: "set (join d xs) \<subseteq> insert d (\<Union>x\<in>set xs. set x)"
  by (induction xs) (auto simp: join_Cons)

lemma hd_join: "xs \<noteq> [] \<Longrightarrow> hd xs \<noteq> [] \<Longrightarrow> hd (join d xs) = hd (hd xs)"
  by (cases xs) (simp_all add: join_Cons)

lemma join_inject:
  assumes "xs \<noteq> []" "ys \<noteq> []" "\<And>x. x \<in> set xs \<Longrightarrow> d \<notin> set x" "\<And>y. y \<in> set ys \<Longrightarrow> d \<notin> set y"
  shows "join d xs = join d ys \<longleftrightarrow> xs = ys"
  by (metis assms split_on_join)

lemma takeWhile_sep [simp]:
  "d \<notin> set p \<Longrightarrow> takeWhile (\<lambda>x. x \<noteq> d) (p @ d # s) = p"
  "d \<notin> set p \<Longrightarrow> takeWhile (\<lambda>x. x \<noteq> d) p = p"
  by (induction p) auto

lemma dropWhile_sep [simp]:
  "d \<notin> set p \<Longrightarrow> dropWhile (\<lambda>x. x \<noteq> d) (p @ d # s) = d # s"
  "d \<notin> set p \<Longrightarrow> dropWhile (\<lambda>x. x \<noteq> d) p = []"
  by (induction p) auto

lemma getlines_no_sep: "t \<in> set (getlines d s) \<Longrightarrow> d \<notin> set t"
  by (induction d s rule: getlines.induct) (auto split: if_splits dest: set_takeWhileD)

lemma getlines_append:
  "p \<noteq> [] \<Longrightarrow> d \<notin> set p \<Longrightarrow> getlines d (p @ d # s) = p # getlines d s"
  by (cases p) auto

lemma getlines_single: "p \<noteq> [] \<Longrightarrow> d \<notin> set p \<Longrightarrow> getlines d p = [p]"
  by (cases p) auto

text \<open>Non-empty tokens without the delimiter are read back from their join, with or without a
  trailing delimiter.\<close>

lemma getlines_join:
  "(\<And>p. p \<in> set ps \<Longrightarrow> p \<noteq> [] \<and> d \<notin> set p) \<Longrightarrow> getlines d (join d ps) = ps"
proof (induction ps)
  case (Cons p ps)
  then show ?case by (auto simp: join_Cons getlines_append getlines_single)
qed simp

lemma getline1_append [simp]: "d \<notin> set p \<Longrightarrow> getline1 d (p @ d # s) = (p, s)"
  by (simp add: getline1_def)

lemma getline1_free [simp]: "d \<notin> set p \<Longrightarrow> getline1 d p = (p, [])"
  by (simp add: getline1_def)

subsection \<open>Numbers\<close>

lemma is_digit_digit_char: "n < 10 \<Longrightarrow> is_digit (digit_char n)"
  by (simp add: is_digit_def digit_char_def)

lemma digit_val_digit_char: "n < 10 \<Longrightarrow> digit_val (digit_char n) = n"
  by (simp add: digit_val_def digit_char_def)

lemma nat_to_string_digits: "c \<in> set (nat_to_string n) \<Longrightarrow> is_digit c"
proof (induction n rule: nat_to_string.induct)
  case (1 n)
  then show ?case
    by (subst (asm) (2) nat_to_string.simps) (auto split: if_splits simp: is_digit_digit_char)
qed

lemma nat_to_string_nonempty [simp]: "nat_to_string n \<noteq> []"
  by (subst nat_to_string.simps) simp

lemma digits_val_snoc: "digits_val (s @ [c]) = 10 * digits_val s + digit_val c"
  by (simp add: digits_val_def)

lemma digits_val_nat_to_string [simp]: "digits_val (nat_to_string n) = n"
proof (induction n rule: nat_to_string.induct)
  case (1 n)
  then show ?case
    by (subst nat_to_string.simps)
      (simp add: digits_val_snoc digit_val_digit_char digits_val_def [of "[_]"])
qed

lemma nat_to_string_inject: "nat_to_string m = nat_to_string n \<longleftrightarrow> m = n"
  by (metis digits_val_nat_to_string)

lemma digit_not_space: "is_digit c \<Longrightarrow> \<not> is_space c"
  by (auto simp: is_digit_def is_space_def)

lemma not_digit_simps [string_simps]:
  "\<not> is_digit (CHR '','')" "\<not> is_digit (CHR ''|'')" "\<not> is_digit (CHR '':'')"
  "\<not> is_digit (CHR ''-'')" "\<not> is_digit (CHR ''+'')" "\<not> is_digit (CHR ''>'')"
  "\<not> is_digit (CHR ''<'')" "\<not> is_digit (CHR ''/'')"
  by (simp_all add: is_digit_def)

lemma sep_notin_nat_to_string [string_simps]:
  "\<not> is_digit c \<Longrightarrow> c \<notin> set (nat_to_string n)"
  using nat_to_string_digits by blast

lemma sep_notin_int_to_string [string_simps]:
  "\<not> is_digit c \<Longrightarrow> c \<noteq> CHR ''-'' \<Longrightarrow> c \<notin> set (int_to_string i)"
  by (auto simp: int_to_string_def sep_notin_nat_to_string)

lemma int_to_string_nonempty [simp]: "int_to_string i \<noteq> []"
  by (simp add: int_to_string_def)

lemma takeWhile_nat_to_string:
  "(r = [] \<or> \<not> is_digit (hd r)) \<Longrightarrow> takeWhile is_digit (nat_to_string n @ r) = nat_to_string n"
  by (cases r) (auto simp: takeWhile_append takeWhile_eq_all_conv dest: nat_to_string_digits)

lemma hd_nat_to_string: "\<exists>c cs. nat_to_string n = c # cs \<and> is_digit c"
  by (metis list.exhaust list.set_intros(1) nat_to_string_digits nat_to_string_nonempty)

text \<open>\<^verbatim>\<open>stoi\<close> reads what \<^verbatim>\<open>to_string\<close> wrote, whatever non-digit follows.\<close>

lemma stoi_int_to_string:
  assumes "in_int i" and r: "r = [] \<or> \<not> is_digit (hd r)"
  shows "stoi (int_to_string i @ r) = Ok i"
proof (cases "i < 0")
  case True
  have "\<not> is_space (CHR ''-'')" by (simp add: is_space_def)
  with True assms show ?thesis
    by (simp add: stoi_def int_to_string_def strip_sign_def takeWhile_nat_to_string)
next
  case False
  obtain c cs where n: "nat_to_string (nat i) = c # cs" and c: "is_digit c"
    using hd_nat_to_string by blast
  then have "strip_sign (dropWhile is_space (nat_to_string (nat i) @ r)) = (False, nat_to_string (nat i) @ r)"
    by (auto simp: digit_not_space strip_sign_def is_digit_def)
  with False assms show ?thesis
    by (simp add: stoi_def int_to_string_def takeWhile_nat_to_string)
qed

lemma stoi_int_to_string_all [simp]: "in_int i \<Longrightarrow> stoi (int_to_string i) = Ok i"
  using stoi_int_to_string [of i "[]"] by simp

lemma stoi_in_int: "stoi s = Ok i \<Longrightarrow> in_int i"
  by (auto simp: stoi_def Let_def split: prod.splits if_splits)

lemma to_int32_id: "in_int i \<Longrightarrow> to_int32 i = i"
  by (simp add: in_int_def to_int32_def INT_MIN_def INT_MAX_def)

lemma to_int32_in_int: "in_int (to_int32 i)"
proof -
  have "0 \<le> (i + 2 ^ 31) mod 2 ^ 32" "(i + 2 ^ 31) mod 2 ^ 32 < (2 ^ 32 :: int)" by simp_all
  then show ?thesis by (simp add: in_int_def to_int32_def INT_MIN_def INT_MAX_def)
qed

subsection \<open>Seven-bit strings\<close>

lemma ascii_Nil [simp]: "ascii []"
  by (simp add: ascii_def)

lemma ascii_Cons: "ascii (c # s) \<longleftrightarrow> (of_char c :: nat) < 128 \<and> ascii s"
  by (simp add: ascii_def)

lemma ascii_append [simp]: "ascii (s @ t) \<longleftrightarrow> ascii s \<and> ascii t"
  by (auto simp: ascii_def)

lemma ascii_mono: "set s \<subseteq> set t \<Longrightarrow> ascii t \<Longrightarrow> ascii s"
  by (auto simp: ascii_def)

lemma ascii_join: "(of_char d :: nat) < 128 \<Longrightarrow> (\<And>x. x \<in> set xs \<Longrightarrow> ascii x) \<Longrightarrow> ascii (join d xs)"
  by (induction xs) (auto simp: join_Cons ascii_Cons)

lemma ascii_nat_to_string [simp]: "ascii (nat_to_string n)"
  by (auto simp: ascii_def is_digit_def dest: nat_to_string_digits)

lemma ascii_int_to_string [simp]: "ascii (int_to_string i)"
  by (simp add: int_to_string_def ascii_Cons)

end
