(* ===== verification/Paths.thy ===== *)
theory Paths
  imports Prelude
begin

text \<open>
  Path handling of \<^verbatim>\<open>src/common/utils.cpp\<close>: \<open>simplify_path\<close>, \<open>get_parent_path\<close> and
  \<open>parent_dir_path\<close>, over the POSIX behaviour of \<^verbatim>\<open>std::filesystem::path\<close> that they call
  (\<open>lexically_normal\<close>, \<open>parent_path\<close>, \<open>filename\<close>), and the block-index arithmetic of
  \<^verbatim>\<open>include/common/utils.h\<close>.

  A path is split at every slash. \<open>lexically_normal\<close> drops empty and dot components, lets a
  dot-dot component cancel the name before it, drops a dot-dot at the root, and keeps a trailing
  slash when the last component was empty, a dot or a cancelled dot-dot. The lemmas give the
  closed form of \<open>simplify_path\<close>, its idempotence, and how parent and file name take a
  simplified path apart and put it together again.
\<close>

section \<open>std::filesystem::path\<close>

definition is_rooted :: "path \<Rightarrow> bool" where
  "is_rooted p \<longleftrightarrow> p \<noteq> [] \<and> hd p = CHR ''/''"

text \<open>One component pushed on the normalised names (innermost first).\<close>

fun norm_push :: "bool \<Rightarrow> string list \<Rightarrow> string \<Rightarrow> string list" where
  "norm_push rooted st n =
     (if n = [] \<or> n = ''.'' then st
      else if n = ''..'' then
        (case st of
           [] \<Rightarrow> if rooted then [] else [n]
         | m # st' \<Rightarrow> if m = ''..'' then n # st else st')
      else n # st)"

declare norm_push.simps [simp del]

definition norm_names :: "bool \<Rightarrow> string list \<Rightarrow> string list" where
  "norm_names rooted ns = rev (foldl (norm_push rooted) [] ns)"

definition path_names :: "path \<Rightarrow> string list" where
  "path_names p = norm_names (is_rooted p) (split_on (CHR ''/'') p)"

definition lexically_normal :: "path \<Rightarrow> path" where
  "lexically_normal p =
     (if p = [] then []
      else
        let parts = split_on (CHR ''/'') p;
            names = path_names p;
            body = join (CHR ''/'') names;
            trail = (if names \<noteq> [] \<and> last names \<noteq> ''..'' \<and> last parts \<in> {[], ''.'', ''..''}
                     then ''/'' else [])
        in if is_rooted p then CHR ''/'' # body @ trail
           else if names = [] then ''.'' else body @ trail)"

definition filename_of :: "path \<Rightarrow> string" where
  "filename_of p = rev (takeWhile (\<lambda>c. c \<noteq> CHR ''/'') (rev p))"

text \<open>A path with no relative part (empty, or only slashes) is its own parent.\<close>

definition parent_path_of :: "path \<Rightarrow> path" where
  "parent_path_of p =
     (if set p \<subseteq> {CHR ''/''} then p
      else
        let stem = rev (dropWhile (\<lambda>c. c \<noteq> CHR ''/'') (rev p));
            par = rev (dropWhile (\<lambda>c. c = CHR ''/'') (rev stem))
        in if par = [] \<and> stem \<noteq> [] then ''/'' else par)"

section \<open>utils.cpp\<close>

definition simplify_path :: "path \<Rightarrow> path" where
  "simplify_path p =
     (let res = lexically_normal p
      in if length res > 1 \<and> last res = CHR ''/'' then butlast res else res)"

definition get_parent_path :: "path \<Rightarrow> path" where
  "get_parent_path p = parent_path_of p"

definition parent_dir_path :: "path \<Rightarrow> path" where
  "parent_dir_path p = parent_path_of p"

text \<open>\<^verbatim>\<open>int\<close> division truncates; the arguments are converted to \<^verbatim>\<open>int\<close> at the call.\<close>

definition c_div :: "int \<Rightarrow> int \<Rightarrow> int" where
  "c_div a b = sgn a * sgn b * (\<bar>a\<bar> div \<bar>b\<bar>)"

definition align_index_up :: "int \<Rightarrow> int \<Rightarrow> int" where
  "align_index_up n alignment = c_div n alignment + 1"

definition align_index_down :: "int \<Rightarrow> int \<Rightarrow> int" where
  "align_index_down n alignment = c_div n alignment"

definition align_up :: "int \<Rightarrow> int \<Rightarrow> int" where
  "align_up n alignment = c_div (n + alignment - 1) alignment"

definition align_down :: "int \<Rightarrow> int \<Rightarrow> int" where
  "align_down n alignment = align_index_down n alignment"

section \<open>Well-formed names\<close>

definition plain_name :: "string \<Rightarrow> bool" where
  "plain_name n \<longleftrightarrow> n \<noteq> [] \<and> n \<noteq> ''.'' \<and> n \<noteq> ''..'' \<and> CHR ''/'' \<notin> set n"

text \<open>Normalised names: plain, after a run of dot-dot components where there is no root.\<close>

definition norm_ok :: "bool \<Rightarrow> string list \<Rightarrow> bool" where
  "norm_ok rooted ns \<longleftrightarrow>
     (\<exists>k ms. ns = replicate k ''..'' @ ms \<and> (\<forall>m\<in>set ms. plain_name m) \<and> (rooted \<longrightarrow> k = 0))"

text \<open>The simplified absolute paths: a slash and plain names.\<close>

definition abs_path :: "string list \<Rightarrow> path" where
  "abs_path ns = CHR ''/'' # join (CHR ''/'') ns"

definition abs_names :: "string list \<Rightarrow> bool" where
  "abs_names ns \<longleftrightarrow> (\<forall>n\<in>set ns. plain_name n)"

lemma norm_push_plain: "plain_name n \<Longrightarrow> norm_push r st n = n # st"
  by (simp add: norm_push.simps plain_name_def)

lemma norm_push_ok:
  assumes "norm_ok r (rev st)" "CHR ''/'' \<notin> set n"
  shows "norm_ok r (rev (norm_push r st n))"
proof -
  obtain k ms where st: "rev st = replicate k ''..'' @ ms" "\<forall>m\<in>set ms. plain_name m" "r \<longrightarrow> k = 0"
    using assms(1) by (auto simp: norm_ok_def)
  then have st': "st = rev ms @ replicate k ''..''" by (metis rev_append rev_replicate rev_rev_ident)
  consider "n = [] \<or> n = ''.''" | "n = ''..''" | "plain_name n"
    using assms(2) by (auto simp: plain_name_def)
  then show ?thesis
  proof cases
    case 1
    then show ?thesis using assms(1) by (simp add: norm_push.simps)
  next
    case 2
    show ?thesis
    proof (cases ms rule: rev_cases)
      case Nil
      then have "norm_push r st n = replicate (if r then 0 else Suc k) ''..''"
        using 2 st' st(3) by (cases k) (auto simp: norm_push.simps)
      then have "rev (norm_push r st n) = replicate (if r then 0 else Suc k) ''..'' @ []" by simp
      then show ?thesis unfolding norm_ok_def by (metis empty_iff list.set(1))
    next
      case (snoc ms' m)
      then have "norm_push r st n = rev ms' @ replicate k ''..''"
        using 2 st' st(2) by (simp add: norm_push.simps plain_name_def)
      then have "rev (norm_push r st n) = replicate k ''..'' @ ms'" by simp
      moreover have "\<forall>m\<in>set ms'. plain_name m" using st(2) snoc by simp
      ultimately show ?thesis using st(3) unfolding norm_ok_def by blast
    qed
  next
    case 3
    then have "rev (norm_push r st n) = replicate k ''..'' @ ms @ [n]"
      using st' by (simp add: norm_push_plain)
    moreover have "\<forall>m\<in>set (ms @ [n]). plain_name m" using st(2) 3 by simp
    ultimately show ?thesis using st(3) unfolding norm_ok_def by blast
  qed
qed

lemma norm_names_ok:
  assumes "\<And>n. n \<in> set ns \<Longrightarrow> CHR ''/'' \<notin> set n"
  shows "norm_ok r (norm_names r ns)"
proof -
  have "norm_ok r (rev (foldl (norm_push r) st ns))" if "norm_ok r (rev st)" for st
    using that assms by (induction ns arbitrary: st) (auto simp: norm_push_ok)
  moreover have "norm_ok r (rev [])" by (auto simp: norm_ok_def)
  ultimately show ?thesis by (auto simp: norm_names_def)
qed

lemma norm_names_plain:
  assumes "\<forall>m\<in>set ms. plain_name m"
  shows "foldl (norm_push r) st ms = rev ms @ st"
  using assms by (induction ms arbitrary: st) (auto simp: norm_push_plain)

lemma foldl_norm_push_dotdot:
  "foldl (norm_push False) (replicate j ''..'') (replicate k ''..'') = replicate (j + k) ''..''"
proof (induction k arbitrary: j)
  case (Suc k)
  have "norm_push False (replicate j ''..'') ''..'' = replicate (Suc j) ''..''"
    by (cases j) (simp_all add: norm_push.simps)
  then show ?case using Suc.IH [of "Suc j"] by simp
qed simp

lemma norm_names_id:
  assumes "norm_ok r ns"
  shows "norm_names r ns = ns"
proof -
  obtain k ms where ns: "ns = replicate k ''..'' @ ms" "\<forall>m\<in>set ms. plain_name m" "r \<longrightarrow> k = 0"
    using assms by (auto simp: norm_ok_def)
  show ?thesis
  proof (cases r)
    case True
    then show ?thesis using ns by (simp add: norm_names_def norm_names_plain)
  next
    case False
    then show ?thesis
      using ns foldl_norm_push_dotdot [of 0 k] by (simp add: norm_names_def norm_names_plain)
  qed
qed

lemma norm_ok_props:
  assumes "norm_ok r ns" "n \<in> set ns"
  shows "n \<noteq> []" "n \<noteq> ''.''" "CHR ''/'' \<notin> set n"
proof -
  from assms(1) obtain k ms where "ns = replicate k ''..'' @ ms" "\<forall>m\<in>set ms. plain_name m"
    unfolding norm_ok_def by blast
  with assms(2) have "n = ''..'' \<or> plain_name n" by auto
  then show "n \<noteq> []" "n \<noteq> ''.''" "CHR ''/'' \<notin> set n"
    by (auto simp: plain_name_def)
qed

lemma norm_names_skip_empty: "norm_names r ([] # ns) = norm_names r ns"
  by (simp add: norm_names_def norm_push.simps)

lemma norm_ok_abs: "abs_names ns \<Longrightarrow> norm_ok r ns"
  unfolding norm_ok_def abs_names_def by (rule exI [of _ 0]) simp

lemma norm_ok_rooted: "norm_ok True ns \<longleftrightarrow> abs_names ns"
  by (auto simp: norm_ok_def abs_names_def)

section \<open>The closed form of simplify_path\<close>

lemma path_names_ok: "norm_ok (is_rooted p) (path_names p)"
  unfolding path_names_def by (rule norm_names_ok) (rule split_on_no_sep)

lemma last_join:
  "xs \<noteq> [] \<Longrightarrow> last xs \<noteq> [] \<Longrightarrow> last (join d xs) = last (last xs)"
  by (cases xs rule: rev_cases) (auto simp: join_snoc)

lemma join_last_not_sep:
  assumes "norm_ok r ns" "ns \<noteq> []"
  shows "join (CHR ''/'') ns \<noteq> []" "last (join (CHR ''/'') ns) \<noteq> CHR ''/''"
proof -
  have l: "last ns \<noteq> []" "CHR ''/'' \<notin> set (last ns)"
    using norm_ok_props [OF assms(1) last_in_set [OF assms(2)]] by auto
  then have "last (last ns) \<noteq> CHR ''/''" by (metis last_in_set)
  with l show "last (join (CHR ''/'') ns) \<noteq> CHR ''/''"
    using assms(2) by (simp add: last_join)
  show "join (CHR ''/'') ns \<noteq> []"
    using assms(2) l(1) by (auto simp: join_eq_Nil)
qed

lemma strip_slash:
  assumes "b \<noteq> []" "last b \<noteq> c" "t = [] \<or> t = [c]"
  shows "(if length (b @ t) > 1 \<and> last (b @ t) = c then butlast (b @ t) else b @ t) = b"
  using assms by (auto simp: butlast_append)

lemma simplify_path_eq:
  "simplify_path p =
     (if p = [] then []
      else if is_rooted p then CHR ''/'' # join (CHR ''/'') (path_names p)
      else if path_names p = [] then ''.''
      else join (CHR ''/'') (path_names p))"
proof (cases "p = []")
  case False
  note ok = join_last_not_sep [OF path_names_ok [of p]]
  show ?thesis
  proof (cases "path_names p = []")
    case True
    with False show ?thesis
      by (simp add: simplify_path_def lexically_normal_def)
  next
    case ne: False
    let ?b = "if is_rooted p then CHR ''/'' # join (CHR ''/'') (path_names p)
              else join (CHR ''/'') (path_names p)"
    let ?t = "if path_names p \<noteq> [] \<and> last (path_names p) \<noteq> ''..''
                 \<and> last (split_on (CHR ''/'') p) \<in> {[], ''.'', ''..''} then ''/'' else []"
    have t: "?t = [] \<or> ?t = ''/''" by simp
    have n: "lexically_normal p = ?b @ ?t"
      using False ne by (simp add: lexically_normal_def Let_def)
    have "?b \<noteq> []" "last ?b \<noteq> CHR ''/''" using ok [OF ne] by simp_all
    from strip_slash [OF this t] have "simplify_path p = ?b"
      unfolding simplify_path_def n Let_def .
    with False ne show ?thesis by simp
  qed
qed (simp add: simplify_path_def lexically_normal_def)

lemma simplify_path_rooted:
  "is_rooted p \<Longrightarrow> \<exists>ns. simplify_path p = abs_path ns \<and> abs_names ns"
  using path_names_ok [of p]
  by (auto simp: simplify_path_eq abs_path_def is_rooted_def norm_ok_rooted)

lemma split_abs_path:
  assumes "abs_names ns" "ns \<noteq> []"
  shows "split_on (CHR ''/'') (abs_path ns) = [] # ns"
  using assms by (auto simp: abs_path_def abs_names_def plain_name_def)

lemma simplify_abs_path [simp]: "abs_names ns \<Longrightarrow> simplify_path (abs_path ns) = abs_path ns"
proof (cases "ns = []")
  case True
  then show ?thesis
    by (simp add: simplify_path_eq abs_path_def is_rooted_def path_names_def norm_names_def
        norm_push.simps)
next
  case False
  assume "abs_names ns"
  then have "path_names (abs_path ns) = ns"
    using False split_abs_path norm_names_id [OF norm_ok_abs]
    by (simp add: path_names_def norm_names_skip_empty)
  then show ?thesis by (simp add: simplify_path_eq) (simp add: abs_path_def is_rooted_def)
qed

lemma simplify_path_simplify [simp]: "simplify_path (simplify_path p) = simplify_path p"
proof (cases "p = [] \<or> is_rooted p")
  case True
  then show ?thesis
    using simplify_path_rooted [of p] by (auto simp: simplify_path_eq [of "[]"])
next
  case False
  let ?q = "join (CHR ''/'') (path_names p)"
  show ?thesis
  proof (cases "path_names p = []")
    case True
    then have "simplify_path p = ''.''" using False by (simp add: simplify_path_eq)
    then show ?thesis
      by (simp add: simplify_path_eq is_rooted_def path_names_def norm_names_def norm_push.simps)
  next
    case ne: False
    have q: "simplify_path p = ?q" using False ne by (simp add: simplify_path_eq)
    have hd: "hd (path_names p) \<in> set (path_names p)" using ne by simp
    note props = norm_ok_props [OF path_names_ok]
    have "hd ?q = hd (hd (path_names p))" using ne props(1) [OF hd] by (simp add: hd_join)
    moreover have "hd (hd (path_names p)) \<in> set (hd (path_names p))" using props(1) [OF hd] by simp
    ultimately have r: "\<not> is_rooted ?q"
      using props(3) [OF hd] by (auto simp: is_rooted_def)
    have "split_on (CHR ''/'') ?q = path_names p"
      using ne props(3) by (rule split_on_join)
    then have "path_names ?q = path_names p"
      using r False norm_names_id [OF path_names_ok [of p]] by (simp add: path_names_def)
    then show ?thesis
      using q r ne join_last_not_sep(1) [OF path_names_ok ne] by (simp add: simplify_path_eq [of ?q])
  qed
qed

section \<open>Taking a simplified path apart\<close>

lemma plain_nameD: "plain_name n \<Longrightarrow> n \<noteq> []" "plain_name n \<Longrightarrow> CHR ''/'' \<notin> set n"
  by (simp_all add: plain_name_def)

lemma abs_path_snoc: "abs_path (ns @ [n]) = abs_path ns @ (if ns = [] then n else CHR ''/'' # n)"
  by (simp add: abs_path_def join_snoc)

lemma filename_abs_path:
  assumes "abs_names (ns @ [n])"
  shows "filename_of (abs_path (ns @ [n])) = n"
proof -
  have "CHR ''/'' \<notin> set (rev n)" using assms by (simp add: abs_names_def plain_name_def)
  then have "takeWhile (\<lambda>c. c \<noteq> CHR ''/'') (rev n @ CHR ''/'' # s) = rev n" for s
    by (rule takeWhile_sep)
  then show ?thesis by (simp add: filename_of_def abs_path_def join_snoc)
qed

lemma parent_abs_path:
  assumes "abs_names (ns @ [n])"
  shows "parent_path_of (abs_path (ns @ [n])) = abs_path ns"
proof -
  have n: "n \<noteq> []" "CHR ''/'' \<notin> set n" using assms by (auto simp: abs_names_def plain_name_def)
  then have ns: "\<not> set (abs_path (ns @ [n])) \<subseteq> {CHR ''/''}"
    by (cases n) (auto simp: abs_path_def join_snoc)
  have d: "dropWhile (\<lambda>c. c \<noteq> CHR ''/'') (rev n @ CHR ''/'' # s) = CHR ''/'' # s" for s
    by (rule dropWhile_sep) (use n in simp)
  show ?thesis
  proof (cases "ns = []")
    case True
    then show ?thesis using ns by (simp add: parent_path_of_def abs_path_def d)
  next
    case False
    have l: "join (CHR ''/'') ns \<noteq> []" "last (join (CHR ''/'') ns) \<noteq> CHR ''/''"
      using join_last_not_sep [of True ns] False assms
      by (auto simp: norm_ok_rooted abs_names_def)
    then obtain c cs where c: "rev (join (CHR ''/'') ns) = c # cs" "c \<noteq> CHR ''/''"
      by (metis hd_rev list.collapse rev_is_Nil_conv)
    then have "join (CHR ''/'') ns = rev cs @ [c]" by (metis rev.simps(2) rev_rev_ident)
    with ns False c show ?thesis
      by (simp add: parent_path_of_def abs_path_def join_snoc d)
  qed
qed

lemma parent_root [simp]: "parent_path_of ''/'' = ''/''" "filename_of ''/'' = []"
  by (simp_all add: parent_path_of_def filename_of_def)

lemma abs_path_Nil [simp]: "abs_path [] = ''/''"
  by (simp add: abs_path_def)

lemma abs_path_inject:
  assumes "abs_names ns" "abs_names ms"
  shows "abs_path ns = abs_path ms \<longleftrightarrow> ns = ms"
proof (cases "ns = [] \<or> ms = []")
  case True
  have "join (CHR ''/'') ks = [] \<longleftrightarrow> ks = []" if "abs_names ks" for ks
    using that unfolding join_eq_Nil abs_names_def plain_name_def by (metis list.set_intros(1))
  with True assms show ?thesis unfolding abs_path_def by force
next
  case False
  then show ?thesis
    using assms join_inject [of ns ms "CHR ''/''"]
    by (simp add: abs_path_def abs_names_def plain_name_def)
qed

section \<open>Characters\<close>

lemma norm_push_set: "set (norm_push r st n) \<subseteq> set (n # st)"
  by (auto simp: norm_push.simps split: if_splits list.splits)

lemma norm_names_set: "set (norm_names r ns) \<subseteq> set ns"
proof -
  have "set (foldl (norm_push r) st ns) \<subseteq> set ns \<union> set st" for st
    by (induction ns arbitrary: st) (use norm_push_set in fastforce)+
  from this [of "[]"] show ?thesis by (simp add: norm_names_def)
qed

lemma ascii_simplify_path:
  assumes "ascii p"
  shows "ascii (simplify_path p)"
proof -
  have "ascii n" if "n \<in> set (path_names p)" for n
  proof -
    have "n \<in> set (split_on (CHR ''/'') p)"
      using that norm_names_set unfolding path_names_def by blast
    then show ?thesis using split_on_chars assms ascii_mono by blast
  qed
  then have "ascii (join (CHR ''/'') (path_names p))" by (simp add: ascii_join)
  then show ?thesis by (auto simp: simplify_path_eq ascii_Cons)
qed

lemma ascii_parent_path: "ascii p \<Longrightarrow> ascii (parent_path_of p)"
proof (rule ascii_mono [of _ "''/'' @ p"])
  show "set (parent_path_of p) \<subseteq> set (''/'' @ p)"
    by (auto simp: parent_path_of_def Let_def dest!: set_dropWhileD split: if_splits)
qed (simp add: ascii_Cons)

lemma ascii_filename: "ascii p \<Longrightarrow> ascii (filename_of p)"
  by (rule ascii_mono [of _ p]) (auto simp: filename_of_def dest: set_takeWhileD)

end
