(* ===== verification/Json.thy ===== *)
theory Json
  imports Prelude
begin

text \<open>
  JSON values and the library calls around them.

  The repository uses \<^verbatim>\<open>nlohmann::json\<close>, which is not part of it. A JSON value is a datatype;
  an object is the list of its members in key order, as \<^verbatim>\<open>std::map\<close> keeps them. Turning a value
  into text and back (\<^verbatim>\<open>dump\<close> and \<^verbatim>\<open>json::parse\<close>) is a parameter of the model, the record
  \<open>json_lib\<close>; what the code relies on is \<open>codec_ok\<close>: a value made of seven-bit strings, with
  sorted object keys, is read back from its dump, and its dump is a seven-bit string. \<open>tiny_json\<close> is a concrete instance.
\<close>

datatype json =
    JNull
  | JBool bool
  | JInt int
  | JStr string
  | JArr "json list"
  | JObj "(string \<times> json) list"

record json_lib =
  jdump :: "json \<Rightarrow> string"
  jparse :: "string \<Rightarrow> json option"

fun json_ok :: "json \<Rightarrow> bool" where
  "json_ok JNull = True"
| "json_ok (JBool b) = True"
| "json_ok (JInt i) = True"
| "json_ok (JStr s) = ascii s"
| "json_ok (JArr js) = list_all json_ok js"
| "json_ok (JObj kvs) =
     (sorted_wrt (<) (map fst kvs) \<and> list_all (\<lambda>(k, v). ascii k \<and> json_ok v) kvs)"

definition codec_ok :: "('a json_lib_scheme) \<Rightarrow> bool" where
  "codec_ok L \<longleftrightarrow>
     (\<forall>j. json_ok j \<longrightarrow> jparse L (jdump L j) = Some j) \<and> (\<forall>j. json_ok j \<longrightarrow> ascii (jdump L j))"

section \<open>Access\<close>

text \<open>\<^verbatim>\<open>json::parse\<close> throws on a malformed text.\<close>

definition json_parse :: "('a json_lib_scheme) \<Rightarrow> string \<Rightarrow> json outcome" where
  "json_parse L s =
     (case jparse L s of None \<Rightarrow> Throw (JsonException ''parse error'') | Some j \<Rightarrow> Ok j)"

text \<open>\<^verbatim>\<open>j.at(k)\<close>: \<^verbatim>\<open>type_error\<close> when \<open>j\<close> is no object, \<^verbatim>\<open>out_of_range\<close> when the key is missing.\<close>

definition json_at :: "json \<Rightarrow> string \<Rightarrow> json outcome" where
  "json_at j k = (case j of
       JObj kvs \<Rightarrow> (case map_of kvs k of None \<Rightarrow> Throw (JsonException ''out_of_range'') | Some v \<Rightarrow> Ok v)
     | _ \<Rightarrow> Throw (JsonException ''type_error''))"

text \<open>\<^verbatim>\<open>j.find(k) != j.end()\<close>\<close>

definition json_has :: "json \<Rightarrow> string \<Rightarrow> bool" where
  "json_has j k = (case j of JObj kvs \<Rightarrow> map_of kvs k \<noteq> None | _ \<Rightarrow> False)"

definition json_elem :: "json \<Rightarrow> nat \<Rightarrow> json outcome" where
  "json_elem j i = (case j of
       JArr js \<Rightarrow> if i < length js then Ok (js ! i) else Throw (JsonException ''out_of_range'')
     | _ \<Rightarrow> Throw (JsonException ''type_error''))"

fun get_string :: "json \<Rightarrow> string outcome" where
  "get_string (JStr s) = Ok s"
| "get_string _ = Throw (JsonException ''type_error'')"

fun get_bool :: "json \<Rightarrow> bool outcome" where
  "get_bool (JBool b) = Ok b"
| "get_bool _ = Throw (JsonException ''type_error'')"

fun get_int :: "json \<Rightarrow> int outcome" where
  "get_int (JInt i) = Ok (to_int32 i)"
| "get_int _ = Throw (JsonException ''type_error'')"

fun get_uint64 :: "json \<Rightarrow> u64 outcome" where
  "get_uint64 (JInt i) = Ok (word_of_int i)"
| "get_uint64 _ = Throw (JsonException ''type_error'')"

fun get_array :: "json \<Rightarrow> json list outcome" where
  "get_array (JArr js) = Ok js"
| "get_array _ = Throw (JsonException ''type_error'')"

fun is_array :: "json \<Rightarrow> bool" where
  "is_array (JArr js) = True"
| "is_array _ = False"

definition get_string_list :: "json \<Rightarrow> string list outcome" where
  "get_string_list j = bindO (get_array j) (mapO get_string)"

definition get_bool_list :: "json \<Rightarrow> bool list outcome" where
  "get_bool_list j = bindO (get_array j) (mapO get_bool)"

lemma json_at_JObj [simp]:
  "json_at (JObj kvs) k =
     (case map_of kvs k of None \<Rightarrow> Throw (JsonException ''out_of_range'') | Some v \<Rightarrow> Ok v)"
  by (simp add: json_at_def)

lemma json_has_JObj [simp]: "json_has (JObj kvs) k \<longleftrightarrow> map_of kvs k \<noteq> None"
  by (simp add: json_has_def)

lemma mapO_get_string [simp]: "mapO get_string (map JStr xs) = Ok xs"
  by (induction xs) simp_all

lemma mapO_get_bool [simp]: "mapO get_bool (map JBool xs) = Ok xs"
  by (induction xs) simp_all

lemma get_string_list_map [simp]: "get_string_list (JArr (map JStr xs)) = Ok xs"
  by (simp add: get_string_list_def)

lemma get_bool_list_map [simp]: "get_bool_list (JArr (map JBool xs)) = Ok xs"
  by (simp add: get_bool_list_def)

lemma list_all_JStr [simp]: "list_all json_ok (map JStr xs) \<longleftrightarrow> list_all ascii xs"
  by (simp add: list.pred_map comp_def)

lemma list_all_JBool [simp]: "list_all json_ok (map JBool xs)"
  by (simp add: list.pred_map comp_def list.pred_True)

lemma ascii_dump: "codec_ok L \<Longrightarrow> json_ok j \<Longrightarrow> ascii (jdump L j)"
  by (simp add: codec_ok_def)

lemma json_parse_dump: "codec_ok L \<Longrightarrow> json_ok j \<Longrightarrow> json_parse L (jdump L j) = Ok j"
  by (simp add: codec_ok_def json_parse_def)

section \<open>A concrete codec\<close>

text \<open>A prefix code: every value starts with its kind; strings, arrays and objects carry their
  length in unary. It is used to instantiate \<open>json_lib\<close> where a concrete instance is needed.\<close>

definition enc_nat :: "nat \<Rightarrow> string" where
  "enc_nat n = replicate n (CHR ''1'') @ ''0''"

definition dec_nat :: "string \<Rightarrow> nat \<times> string" where
  "dec_nat s = (length (takeWhile (\<lambda>c. c = CHR ''1'') s), tl (dropWhile (\<lambda>c. c = CHR ''1'') s))"

fun enc_json :: "json \<Rightarrow> string" where
  "enc_json JNull = ''n''"
| "enc_json (JBool b) = (if b then ''t'' else ''f'')"
| "enc_json (JInt i) = (if i < 0 then ''-'' @ enc_nat (nat (- i)) else ''+'' @ enc_nat (nat i))"
| "enc_json (JStr s) = ''s'' @ enc_nat (length s) @ s"
| "enc_json (JArr js) = ''a'' @ enc_nat (length js) @ concat (map enc_json js)"
| "enc_json (JObj kvs) = ''o'' @ enc_nat (2 * length kvs) @
     concat (map (\<lambda>(k, v). ''s'' @ enc_nat (length k) @ k @ enc_json v) kvs)"

fun pair_up :: "json list \<Rightarrow> (string \<times> json) list option" where
  "pair_up [] = Some []"
| "pair_up (JStr k # v # js) = map_option (\<lambda>kvs. (k, v) # kvs) (pair_up js)"
| "pair_up _ = None"

fun dec_jsons :: "nat \<Rightarrow> nat \<Rightarrow> string \<Rightarrow> (json list \<times> string) option" where
  "dec_jsons f 0 s = Some ([], s)"
| "dec_jsons 0 (Suc n) s = None"
| "dec_jsons (Suc f) (Suc n) [] = None"
| "dec_jsons (Suc f) (Suc n) (c # s) =
     (let (k, r) = dec_nat s;
          more = (\<lambda>j r. map_option (\<lambda>(js, r'). (j # js, r')) (dec_jsons f n r))
      in if c = CHR ''n'' then more JNull s
         else if c = CHR ''t'' then more (JBool True) s
         else if c = CHR ''f'' then more (JBool False) s
         else if c = CHR ''-'' then more (JInt (- int k)) r
         else if c = CHR ''+'' then more (JInt (int k)) r
         else if c = CHR ''s'' then more (JStr (take k r)) (drop k r)
         else if c = CHR ''a'' then
           (case dec_jsons f k r of None \<Rightarrow> None | Some (js, r') \<Rightarrow> more (JArr js) r')
         else if c = CHR ''o'' then
           (case dec_jsons f k r of None \<Rightarrow> None
            | Some (js, r') \<Rightarrow> (case pair_up js of None \<Rightarrow> None | Some kvs \<Rightarrow> more (JObj kvs) r'))
         else None)"

definition dec_json :: "string \<Rightarrow> json option" where
  "dec_json s = (case dec_jsons (length s) 1 s of Some ([j], []) \<Rightarrow> Some j | _ \<Rightarrow> None)"

definition tiny_json :: json_lib where
  "tiny_json = \<lparr>jdump = enc_json, jparse = dec_json\<rparr>"

lemma dec_enc_nat [simp]: "dec_nat (enc_nat n @ s) = (n, s)"
proof -
  have "takeWhile (\<lambda>c. c = CHR ''1'') (replicate n (CHR ''1'') @ CHR ''0'' # s) = replicate n (CHR ''1'')"
    by (induction n) simp_all
  moreover have "dropWhile (\<lambda>c. c = CHR ''1'') (replicate n (CHR ''1'') @ CHR ''0'' # s) = CHR ''0'' # s"
    by (induction n) simp_all
  ultimately show ?thesis by (simp add: dec_nat_def enc_nat_def)
qed

definition enc_jsons :: "json list \<Rightarrow> string" where
  "enc_jsons js = concat (map enc_json js)"

definition flat_kvs :: "(string \<times> json) list \<Rightarrow> json list" where
  "flat_kvs kvs = concat (map (\<lambda>(k, v). [JStr k, v]) kvs)"

lemma pair_up_flat [simp]: "pair_up (flat_kvs kvs) = Some kvs"
  by (induction kvs) (auto simp: flat_kvs_def)

lemma length_flat_kvs [simp]: "length (flat_kvs kvs) = 2 * length kvs"
  by (induction kvs) (auto simp: flat_kvs_def)

lemma enc_jsons_flat:
  "enc_jsons (flat_kvs kvs) = concat (map (\<lambda>(k, v). ''s'' @ enc_nat (length k) @ k @ enc_json v) kvs)"
  by (induction kvs) (auto simp: flat_kvs_def enc_jsons_def)

definition reads :: "json \<Rightarrow> bool" where
  "reads j \<longleftrightarrow> (\<forall>f n r. length (enc_json j) \<le> Suc f \<longrightarrow>
     dec_jsons (Suc f) (Suc n) (enc_json j @ r) =
       map_option (\<lambda>(js, r'). (j # js, r')) (dec_jsons f n r))"

lemma reads_JStr: "reads (JStr s)"
  by (simp add: reads_def Let_def)

lemma enc_json_length: "1 \<le> length (enc_json j)"
  by (cases j) auto

lemma dec_jsons_reads:
  assumes "\<And>j. j \<in> set js \<Longrightarrow> reads j" "length (enc_jsons js) \<le> f"
  shows "dec_jsons f (length js) (enc_jsons js @ r) = Some (js, r)"
  using assms
proof (induction js arbitrary: f)
  case (Cons j js)
  then obtain f' where f: "f = Suc f'" using enc_json_length [of j]
    by (cases f) (auto simp: enc_jsons_def)
  have "length (enc_jsons js) \<le> f'"
    using Cons.prems(2) enc_json_length [of j] f
    unfolding enc_jsons_def list.map concat.simps length_append by linarith
  then have "dec_jsons f' (length js) (enc_jsons js @ r) = Some (js, r)"
    using Cons by simp
  moreover have "reads j" "length (enc_json j) \<le> Suc f'"
    using Cons.prems f by (simp_all add: enc_jsons_def)
  ultimately show ?case by (simp add: reads_def f enc_jsons_def)
qed (simp add: enc_jsons_def)

lemma reads_all: "reads j"
proof (induction j)
  case (JInt i)
  then show ?case by (simp add: reads_def Let_def)
next
  case (JStr s)
  then show ?case by (rule reads_JStr)
next
  case (JArr js)
  have "dec_jsons f (length js) (concat (map enc_json js) @ r) = Some (js, r)"
    if "length (enc_json (JArr js)) \<le> Suc f" for f r
    using dec_jsons_reads [of js f r] JArr that by (simp add: enc_jsons_def)
  then show ?case by (simp add: reads_def Let_def del: length_append)
next
  case (JObj kvs)
  have "reads j" if "j \<in> set (flat_kvs kvs)" for j
    using that JObj by (auto simp: flat_kvs_def reads_JStr)
  then have "dec_jsons f (2 * length kvs) (enc_jsons (flat_kvs kvs) @ r) = Some (flat_kvs kvs, r)"
    if "length (enc_json (JObj kvs)) \<le> Suc f" for f r
    using dec_jsons_reads [of "flat_kvs kvs" f r] that by (simp add: enc_jsons_flat)
  note this [unfolded enc_jsons_flat append_Cons append_Nil]
  then show ?case by (simp add: reads_def Let_def del: length_append)
qed (simp_all add: reads_def Let_def)

lemma ascii_enc_nat [simp]: "ascii (enc_nat n)"
  by (auto simp: ascii_def enc_nat_def)

lemma ascii_enc_json: "json_ok j \<Longrightarrow> ascii (enc_json j)"
proof (induction j)
  case (JArr js)
  then have "ascii (concat (map enc_json js))" by (auto simp: ascii_def list_all_iff)
  then show ?case by (simp add: ascii_Cons)
next
  case (JObj kvs)
  have "ascii (''s'' @ enc_nat (length k) @ k @ enc_json v)" if "(k, v) \<in> set kvs" for k v
    using JObj that by (auto simp: list_all_iff ascii_Cons)
  then have "ascii (concat (map (\<lambda>(k, v). ''s'' @ enc_nat (length k) @ k @ enc_json v) kvs))"
    unfolding ascii_def by auto
  then show ?case by (simp add: ascii_Cons)
qed (auto simp: ascii_Cons)

lemma tiny_json_ok: "codec_ok tiny_json"
proof -
  have "dec_json (enc_json j) = Some j" for j
    using dec_jsons_reads [of "[j]" "length (enc_json j)" "[]"]
    by (simp add: dec_json_def enc_jsons_def reads_all)
  then show ?thesis by (simp add: codec_ok_def tiny_json_def ascii_enc_json)
qed

end
