(* ===== verification/Storage_Types.thy ===== *)
theory Storage_Types
  imports Json
begin

text \<open>
  The storage types of \<^verbatim>\<open>include/common/storage_type.h\<close> and \<^verbatim>\<open>src/common/storage_type.cpp\<close>:
  Reed-Solomon, replication and aggregation, with their text and JSON forms, block sizes, and
  \<open>encode\<close>, \<open>decode\<close> and \<open>check\<close>.

  The erasure code itself (\<^verbatim>\<open>liberasurecode\<close>) is not part of the repository: it is the record
  \<open>ec_lib\<close>, and \<open>ec_law\<close> states what its documentation promises for given \<open>k\<close> and \<open>m\<close>: encoding
  gives \<open>k\<close> data and \<open>m\<close> parity fragments of one length, and decoding any \<open>k\<close> of the fragments
  gives the data back.
\<close>

datatype StorageType =
    RSStorageType (rs_k: int) (rs_m: int) (rs_b: int)
  | REStorageType (replications: int) (re_b: int)
  | AggStorageType (agg_k: int) (agg_m: int) (agg_b: int)

record ec_lib =
  ec_instance_create :: "int \<Rightarrow> int \<Rightarrow> int"
  ec_encode :: "int \<Rightarrow> int \<Rightarrow> string \<Rightarrow> int + string list \<times> string list"
  ec_decode :: "int \<Rightarrow> int \<Rightarrow> string list \<Rightarrow> nat \<Rightarrow> int + string"

definition ec_law :: "('a ec_lib_scheme) \<Rightarrow> int \<Rightarrow> int \<Rightarrow> bool" where
  "ec_law E k m \<longleftrightarrow> 1 \<le> k \<and> 0 \<le> m \<and> ec_instance_create E k m > 0 \<and>
     (\<forall>data. \<exists>ds ps len. ec_encode E k m data = Inr (ds, ps) \<and>
        length ds = nat k \<and> length ps = nat m \<and> (\<forall>f\<in>set (ds @ ps). length f = len) \<and>
        (\<forall>is. distinct is \<and> length is = nat k \<and> (\<forall>i\<in>set is. i < nat (k + m)) \<longrightarrow>
           ec_decode E k m (map (\<lambda>i. (ds @ ps) ! i) is) len = Inr data))"

section \<open>Text form\<close>

fun StorageType_to_string :: "StorageType \<Rightarrow> string" where
  "StorageType_to_string (RSStorageType k m b) =
     ''RS<'' @ int_to_string k @ '','' @ int_to_string m @ '','' @ int_to_string b @ ''>''"
| "StorageType_to_string (REStorageType r b) =
     ''RE<'' @ int_to_string r @ '','' @ int_to_string b @ ''>''"
| "StorageType_to_string (AggStorageType k m b) =
     ''AGG<'' @ int_to_string k @ '','' @ int_to_string m @ '','' @ int_to_string b @ ''>''"

text \<open>The alternatives of the regular expression \<^verbatim>\<open>RS<(\d+),(\d+),(\d+)>|RE<(\d+),(\d+)>|AGG<...>\<close>,
  matched against the whole input: the groups of digits, in order.\<close>

definition digits_then :: "char \<Rightarrow> string \<Rightarrow> (string \<times> string) option" where
  "digits_then c s =
     (let ds = takeWhile is_digit s; r = dropWhile is_digit s
      in if ds \<noteq> [] \<and> r \<noteq> [] \<and> hd r = c then Some (ds, tl r) else None)"

fun match_groups :: "char list \<Rightarrow> string \<Rightarrow> string list option" where
  "match_groups [] s = (if s = [] then Some [] else None)"
| "match_groups (c # cs) s =
     (case digits_then c s of None \<Rightarrow> None
      | Some (ds, r) \<Rightarrow> map_option (\<lambda>gs. ds # gs) (match_groups cs r))"

definition match_alt :: "string \<Rightarrow> char list \<Rightarrow> string \<Rightarrow> string list option" where
  "match_alt pre seps s =
     (if take (length pre) s = pre then match_groups seps (drop (length pre) s) else None)"

definition StorageType_from_string :: "string \<Rightarrow> StorageType outcome" where
  "StorageType_from_string input =
     (case match_alt ''RS<'' '',,>'' input of
        Some gs \<Rightarrow> bindO (mapO stoi gs) (\<lambda>v. Ok (RSStorageType (v ! 0) (v ! 1) (v ! 2)))
      | None \<Rightarrow> (case match_alt ''RE<'' '',>'' input of
          Some gs \<Rightarrow> bindO (mapO stoi gs) (\<lambda>v. Ok (REStorageType (v ! 0) (v ! 1)))
        | None \<Rightarrow> (case match_alt ''AGG<'' '',,>'' input of
            Some gs \<Rightarrow> bindO (mapO stoi gs) (\<lambda>v. Ok (AggStorageType (v ! 0) (v ! 1) (v ! 2)))
          | None \<Rightarrow> Throw (RuntimeError (''cannot solve '' @ input)))))"

section \<open>JSON form\<close>

fun StorageType_to_json :: "StorageType \<Rightarrow> json" where
  "StorageType_to_json (RSStorageType k m b) =
     JObj [(''b'', JInt b), (''k'', JInt k), (''m'', JInt m), (''type'', JStr ''RS'')]"
| "StorageType_to_json (REStorageType r b) =
     JObj [(''b'', JInt b), (''replications'', JInt r), (''type'', JStr ''RE'')]"
| "StorageType_to_json (AggStorageType k m b) =
     JObj [(''b'', JInt b), (''k'', JInt k), (''m'', JInt m), (''type'', JStr ''AGG'')]"

definition json_int :: "json \<Rightarrow> string \<Rightarrow> int outcome" where
  "json_int j k = bindO (json_at j k) get_int"

definition StorageType_from_json :: "json \<Rightarrow> StorageType outcome" where
  "StorageType_from_json j =
     bindO (json_at j ''type'') (\<lambda>t. bindO (get_string t) (\<lambda>type.
       if type = ''RS'' then
         bindO (json_int j ''k'') (\<lambda>k. bindO (json_int j ''m'') (\<lambda>m. bindO (json_int j ''b'') (\<lambda>b.
           Ok (RSStorageType k m b))))
       else if type = ''RE'' then
         bindO (json_int j ''replications'') (\<lambda>r. bindO (json_int j ''b'') (\<lambda>b. Ok (REStorageType r b)))
       else if type = ''AGG'' then
         bindO (json_int j ''k'') (\<lambda>k. bindO (json_int j ''m'') (\<lambda>m. bindO (json_int j ''b'') (\<lambda>b.
           Ok (AggStorageType k m b))))
       else Throw (InvalidArgument ''Unknown StorageType'')))"

section \<open>Sizes and thresholds\<close>

fun st_b :: "StorageType \<Rightarrow> int" where
  "st_b (RSStorageType k m b) = b"
| "st_b (REStorageType r b) = b"
| "st_b (AggStorageType k m b) = b"

text \<open>The product is computed in a 32-bit \<^verbatim>\<open>int\<close>.\<close>

definition get_block_size :: "StorageType \<Rightarrow> int" where
  "get_block_size st = to_int32 (st_b st * 1024 * 1024)"

fun getBlocks :: "StorageType \<Rightarrow> int" where
  "getBlocks (RSStorageType k m b) = to_int32 (k + m)"
| "getBlocks (REStorageType r b) = r"
| "getBlocks (AggStorageType k m b) = to_int32 (k + m)"

fun getDecodeBlocks :: "StorageType \<Rightarrow> int" where
  "getDecodeBlocks (RSStorageType k m b) = k"
| "getDecodeBlocks (REStorageType r b) = 1"
| "getDecodeBlocks (AggStorageType k m b) = k"

fun st_check :: "StorageType \<Rightarrow> int \<Rightarrow> bool" where
  "st_check (RSStorageType k m b) succ_cout = (succ_cout > k)"
| "st_check (REStorageType r b) succ_cout = (succ_cout \<ge> 1)"
| "st_check (AggStorageType k m b) success = (success > k)"

section \<open>Encoding and decoding\<close>

definition rs_encode :: "('a ec_lib_scheme) \<Rightarrow> string \<Rightarrow> int \<Rightarrow> int \<Rightarrow> string list outcome" where
  "rs_encode E data k m =
     (let inst = ec_instance_create E k m
      in if inst \<le> 0 then
           Throw (RuntimeError (''liberasurecode_instance_create error: '' @ int_to_string inst))
         else case ec_encode E k m data of
           Inl ret \<Rightarrow> Throw (RuntimeError (''encode error, error code: '' @ int_to_string ret))
         | Inr (encoded_data, encoded_parity) \<Rightarrow>
             Ok (map (\<lambda>i. encoded_data ! i) [0..<nat k] @ map (\<lambda>i. encoded_parity ! i) [0..<nat m]))"

text \<open>Only the first \<open>k\<close> fragments are passed on; their length is that of \<^verbatim>\<open>vec[0]\<close>, which an empty
  vector does not have.\<close>

definition rs_decode :: "('a ec_lib_scheme) \<Rightarrow> string list \<Rightarrow> int \<Rightarrow> int \<Rightarrow> string outcome" where
  "rs_decode E vec k m =
     (case vec of
        [] \<Rightarrow> Abort ''vec[0] of an empty vector''
      | v # _ \<Rightarrow>
          (case ec_decode E k m (take (nat k) vec) (length v) of
             Inl ret \<Rightarrow> Throw (RuntimeError ''decode error'')
           | Inr out \<Rightarrow> Ok out))"

fun st_encode :: "('a ec_lib_scheme) \<Rightarrow> StorageType \<Rightarrow> string \<Rightarrow> string list outcome" where
  "st_encode E (RSStorageType k m b) data = rs_encode E data k m"
| "st_encode E (REStorageType r b) data = Ok (replicate (nat r) data)"
| "st_encode E (AggStorageType k m b) data = rs_encode E data k m"

fun st_decode :: "('a ec_lib_scheme) \<Rightarrow> StorageType \<Rightarrow> string list \<Rightarrow> string outcome" where
  "st_decode E (RSStorageType k m b) vec =
     (if \<not> int (length vec) \<ge> k then Abort ''vec.size() >= k''
      else if \<not> int (length vec) \<le> k + m then Abort ''vec.size() <= k + m''
      else rs_decode E vec k m)"
| "st_decode E (REStorageType r b) vec =
     (case vec of [] \<Rightarrow> Abort ''front() of an empty vector'' | v # _ \<Rightarrow> Ok v)"
| "st_decode E (AggStorageType k m b) vec =
     (if vec = [] then Throw (RuntimeError ''no data'') else rs_decode E vec k m)"

section \<open>Lemmas\<close>

text \<open>The values that \<open>from_string\<close> can produce.\<close>

fun st_ok :: "StorageType \<Rightarrow> bool" where
  "st_ok (RSStorageType k m b) = (0 \<le> k \<and> k \<le> INT_MAX \<and> 0 \<le> m \<and> m \<le> INT_MAX \<and> 0 \<le> b \<and> b \<le> INT_MAX)"
| "st_ok (REStorageType r b) = (0 \<le> r \<and> r \<le> INT_MAX \<and> 0 \<le> b \<and> b \<le> INT_MAX)"
| "st_ok (AggStorageType k m b) = (0 \<le> k \<and> k \<le> INT_MAX \<and> 0 \<le> m \<and> m \<le> INT_MAX \<and> 0 \<le> b \<and> b \<le> INT_MAX)"

fun st_ints :: "StorageType \<Rightarrow> bool" where
  "st_ints (RSStorageType k m b) = (in_int k \<and> in_int m \<and> in_int b)"
| "st_ints (REStorageType r b) = (in_int r \<and> in_int b)"
| "st_ints (AggStorageType k m b) = (in_int k \<and> in_int m \<and> in_int b)"

lemma in_int_nonneg: "0 \<le> i \<Longrightarrow> i \<le> INT_MAX \<Longrightarrow> in_int i"
  by (simp add: in_int_def INT_MIN_def)

lemma st_ok_ints: "st_ok st \<Longrightarrow> st_ints st"
  by (cases st) (simp_all add: in_int_nonneg)

lemma digits_then_int [simp]:
  assumes "0 \<le> i" "\<not> is_digit c"
  shows "digits_then c (int_to_string i @ c # r) = Some (int_to_string i, r)"
proof -
  have "dropWhile is_digit (nat_to_string (nat i) @ c # r) = c # r"
    using assms(2) nat_to_string_digits by (subst dropWhile_append2) auto
  moreover have "takeWhile is_digit (nat_to_string (nat i) @ c # r) = nat_to_string (nat i)"
    using assms(2) by (simp add: takeWhile_nat_to_string)
  ultimately show ?thesis using assms(1) by (simp add: digits_then_def int_to_string_def)
qed

lemma from_to_string: "st_ok st \<Longrightarrow> StorageType_from_string (StorageType_to_string st) = Ok st"
  by (cases st)
    (simp_all add: StorageType_from_string_def match_alt_def string_simps in_int_nonneg)

lemma from_to_json: "st_ints st \<Longrightarrow> StorageType_from_json (StorageType_to_json st) = Ok st"
  by (cases st) (simp_all add: StorageType_from_json_def json_int_def to_int32_id)

lemma json_ok_StorageType [simp]: "json_ok (StorageType_to_json st)"
  by (cases st) (simp_all add: ascii_def less_char_def)

interpretation st_text: codec StorageType_to_string StorageType_from_string st_ok
  by unfold_locales (rule from_to_string)

interpretation st_json: codec StorageType_to_json StorageType_from_json st_ints
  by unfold_locales (rule from_to_json)

lemma digits_then_digits: "digits_then c s = Some (ds, r) \<Longrightarrow> ds \<noteq> [] \<and> (\<forall>c\<in>set ds. is_digit c)"
  by (auto simp: digits_then_def Let_def dest: set_takeWhileD split: if_splits)

lemma match_groups_digits:
  "match_groups cs s = Some gs \<Longrightarrow> g \<in> set gs \<Longrightarrow> g \<noteq> [] \<and> (\<forall>c\<in>set g. is_digit c)"
proof (induction cs arbitrary: s gs)
  case (Cons c cs)
  then show ?case by (auto split: option.splits dest!: digits_then_digits)
qed (simp split: if_splits)

lemma match_groups_length: "match_groups cs s = Some gs \<Longrightarrow> length gs = length cs"
  by (induction cs arbitrary: s gs) (auto split: if_splits option.splits)

lemma stoi_digits:
  assumes "\<forall>c\<in>set g. is_digit c" "stoi g = Ok i"
  shows "0 \<le> i \<and> i \<le> INT_MAX"
proof (cases g)
  case Nil
  then show ?thesis using assms(2) by (simp add: stoi_def strip_sign_def)
next
  case (Cons c cs)
  then have "\<not> is_space c" "c \<noteq> CHR ''-''" "c \<noteq> CHR ''+''"
    using assms(1) by (auto simp: digit_not_space is_digit_def)
  then have "strip_sign (dropWhile is_space g) = (False, g)"
    using Cons by (simp add: strip_sign_def)
  with assms show ?thesis
    by (auto simp: stoi_def in_int_def Let_def split: if_splits)
qed

lemma match_alt_stoi:
  assumes "match_alt pre cs s = Some gs" "mapO stoi gs = Ok v" "i < length cs"
  shows "0 \<le> v ! i \<and> v ! i \<le> INT_MAX"
proof -
  have gs: "match_groups cs (drop (length pre) s) = Some gs"
    using assms(1) by (simp add: match_alt_def split: if_splits)
  have "v ! i \<in> set v"
    using mapO_length [OF assms(2)] match_groups_length [OF gs] assms(3) by simp
  moreover have "0 \<le> y \<and> y \<le> INT_MAX" if "g \<in> set gs" "stoi g = Ok y" for g y
    using match_groups_digits [OF gs that(1)] stoi_digits that(2) by blast
  ultimately show ?thesis
    by (rule mapO_all [OF assms(2), where P = "\<lambda>y. 0 \<le> y \<and> y \<le> INT_MAX", rotated])
qed

text \<open>Whatever \<open>from_string\<close> accepts has non-negative \<^verbatim>\<open>int\<close> fields, so it survives printing.\<close>

lemma from_string_ok:
  assumes "StorageType_from_string s = Ok st"
  shows "st_ok st"
proof -
  note r = match_alt_stoi [of _ _ s]
  show ?thesis
    using assms unfolding StorageType_from_string_def
    by (auto split: option.splits simp: outcome_simps simp del: One_nat_def
        intro!: r [THEN conjunct1] r [THEN conjunct2])
qed

lemma get_block_size_small:
  assumes "0 \<le> st_b st" "st_b st < 2048"
  shows "get_block_size st = st_b st * 1048576"
  using assms by (simp add: get_block_size_def to_int32_def)

lemma map_nth_prefix: "length xs = n \<Longrightarrow> map (\<lambda>i. xs ! i) [0..<n] = xs"
  by (metis map_nth)

lemma rs_encode_law:
  assumes "ec_law E k m"
  obtains fs len where "rs_encode E data k m = Ok fs" "length fs = nat (k + m)"
    "\<forall>f\<in>set fs. length f = len"
    "\<And>is. distinct is \<Longrightarrow> length is = nat k \<Longrightarrow> \<forall>i\<in>set is. i < length fs \<Longrightarrow>
       rs_decode E (map (\<lambda>i. fs ! i) is) k m = Ok data"
proof -
  from assms have km: "1 \<le> k" "0 \<le> m" and inst: "ec_instance_create E k m > 0"
    by (simp_all add: ec_law_def)
  from assms obtain ds ps len where enc: "ec_encode E k m data = Inr (ds, ps)"
    and len: "length ds = nat k" "length ps = nat m" "\<forall>f\<in>set (ds @ ps). length f = len"
    and dec: "\<And>is. distinct is \<and> length is = nat k \<and> (\<forall>i\<in>set is. i < nat (k + m)) \<Longrightarrow>
           ec_decode E k m (map (\<lambda>i. (ds @ ps) ! i) is) len = Inr data"
    unfolding ec_law_def by metis
  have "rs_encode E data k m = Ok (ds @ ps)"
    using inst enc len by (simp add: rs_encode_def map_nth_prefix)
  moreover have l: "length (ds @ ps) = nat (k + m)" using len km by (simp add: nat_add_distrib)
  moreover have "rs_decode E (map (\<lambda>i. (ds @ ps) ! i) is) k m = Ok data"
    if "distinct is" "length is = nat k" "\<forall>i\<in>set is. i < length (ds @ ps)" for "is"
  proof (cases "is")
    case Nil
    then show ?thesis using that km by simp
  next
    case (Cons i js)
    then have "(ds @ ps) ! i \<in> set (ds @ ps)" using that(3) by (simp only: nth_mem list.set_intros)
    then have "length ((ds @ ps) ! i) = len" using len(3) by blast
    moreover have "ec_decode E k m (map (\<lambda>i. (ds @ ps) ! i) is) len = Inr data"
      using dec that l by metis
    moreover have "take (nat k) (map (\<lambda>i. (ds @ ps) ! i) is) = map (\<lambda>i. (ds @ ps) ! i) is"
      using that(2) by simp
    ultimately show ?thesis using Cons by (simp add: rs_decode_def)
  qed
  ultimately show thesis using that len(3) by blast
qed

text \<open>Replication as an erasure code: every fragment is the data. It satisfies \<open>ec_law\<close>.\<close>

definition ec_copy :: ec_lib where
  "ec_copy = \<lparr>ec_instance_create = (\<lambda>k m. 1),
     ec_encode = (\<lambda>k m data. Inr (replicate (nat k) data, replicate (nat m) data)),
     ec_decode = (\<lambda>k m fs len. case fs of [] \<Rightarrow> Inl 1 | f # _ \<Rightarrow> Inr f)\<rparr>"

lemma ec_copy_law:
  assumes "1 \<le> k" "0 \<le> m"
  shows "ec_law ec_copy k m"
proof -
  have "(replicate (nat k) data @ replicate (nat m) data) ! i = data" if "i < nat (k + m)" for data :: string and i
    using that assms by (simp add: nth_append nat_add_distrib)
  then have "(case map (\<lambda>i. (replicate (nat k) data @ replicate (nat m) data) ! i) is of
       [] \<Rightarrow> Inl 1 | f # _ \<Rightarrow> Inr f) = Inr data"
    if "length is = nat k" "\<forall>i\<in>set is. i < nat (k + m)" for data :: string and "is"
    using that assms by (cases "is") auto
  then show ?thesis using assms unfolding ec_law_def ec_copy_def by auto
qed

end
