(* ===== verification/Nodes.thy ===== *)
theory Nodes
  imports Json
begin

text \<open>
  Cluster nodes: \<^verbatim>\<open>include/common/node.h\<close> and \<^verbatim>\<open>src/common/node.cpp\<close>, with the retry macro of
  \<^verbatim>\<open>include/common/utils.h\<close> that the probe uses and \<open>get_my_ip\<close> of \<^verbatim>\<open>src/common/utils.cpp\<close>.

  The network is a parameter: the record \<open>net\<close> says whether a channel to an address can be
  initialised and whether the \<open>i\<close>-th \<^verbatim>\<open>echo\<close> call to it fails. A braft \<^verbatim>\<open>PeerId\<close> is its address
  and port.
\<close>

datatype NodeStatus = ONLINE | OFFLINE | UNKNOWN

record Node =
  ip :: string
  port :: int
  nodeStatus :: NodeStatus

type_synonym PeerId = "string \<times> int"

record net =
  chan_init :: "string \<Rightarrow> bool"
  echo_failed :: "string \<Rightarrow> nat \<Rightarrow> bool"

section \<open>Text form\<close>

definition Node_from_string :: "string \<Rightarrow> Node \<Rightarrow> Node outcome" where
  "Node_from_string node_str node =
     (let (ip', rest) = getline1 (CHR '':'') node_str;
          (portStr, _) = getline1 (CHR 0x0A) rest;
          node' = node\<lparr>ip := ip'\<rparr>
      in if portStr \<noteq> [] then bindO (stoi portStr) (\<lambda>p. Ok (node'\<lparr>port := p\<rparr>)) else Ok node')"

text \<open>The constructor stores its arguments and then parses the address again.\<close>

definition mk_Node :: "string \<Rightarrow> int \<Rightarrow> NodeStatus \<Rightarrow> Node outcome" where
  "mk_Node i p st = Node_from_string i \<lparr>ip = i, port = p, nodeStatus = st\<rparr>"

definition default_Node :: Node where
  "default_Node = \<lparr>ip = [], port = 0, nodeStatus = UNKNOWN\<rparr>"

definition INVALID_NODE :: Node where
  "INVALID_NODE = \<lparr>ip = ''0.0.0.0'', port = 0, nodeStatus = UNKNOWN\<rparr>"

definition Node_to_string :: "Node \<Rightarrow> string" where
  "Node_to_string node = ip node @ '':'' @ int_to_string (port node)"

text \<open>\<^verbatim>\<open>to_string\<close> of a vector prints every node and a comma and removes the last character;
  \<^verbatim>\<open>pop_back\<close> of an empty string is undefined.\<close>

definition Nodes_to_string :: "Node list \<Rightarrow> string outcome" where
  "Nodes_to_string nodes =
     (let s = concat (map (\<lambda>n. Node_to_string n @ '','') nodes)
      in if s = [] then Abort ''pop_back of an empty string'' else Ok (butlast s))"

text \<open>One \<open>Node\<close> variable is reused for all tokens.\<close>

fun parse_tokens :: "string list \<Rightarrow> Node \<Rightarrow> Node list \<Rightarrow> Node list outcome" where
  "parse_tokens [] node res = Ok res"
| "parse_tokens (token # ts) node res =
     bindO (Node_from_string token node) (\<lambda>node'. parse_tokens ts node' (res @ [node']))"

definition parse_nodes :: "string \<Rightarrow> Node list outcome" where
  "parse_nodes nodes_str = parse_tokens (getlines (CHR '','') nodes_str) default_Node []"

section \<open>Comparison and conversion\<close>

definition Node_eq :: "Node \<Rightarrow> Node \<Rightarrow> bool" where
  "Node_eq a b \<longleftrightarrow> ip a = ip b"

definition Node_less :: "Node \<Rightarrow> Node \<Rightarrow> bool" where
  "Node_less a b \<longleftrightarrow> ip a < ip b"

definition Node_valid :: "Node \<Rightarrow> bool" where
  "Node_valid n \<longleftrightarrow> \<not> Node_eq n INVALID_NODE"

definition from_peerId :: "Node \<Rightarrow> PeerId \<Rightarrow> Node" where
  "from_peerId node peerid = node\<lparr>ip := fst peerid, port := snd peerid\<rparr>"

definition Node_to_json :: "Node \<Rightarrow> json" where
  "Node_to_json node = JObj [(''ip'', JStr (ip node)), (''port'', JInt (port node))]"

definition Node_from_json :: "json \<Rightarrow> Node outcome" where
  "Node_from_json j =
     bindO (json_at j ''ip'') (\<lambda>a. bindO (get_string a) (\<lambda>i.
     bindO (json_at j ''port'') (\<lambda>b. bindO (get_int b) (\<lambda>p.
       Ok (default_Node\<lparr>ip := i, port := p\<rparr>)))))"

section \<open>Probing\<close>

text \<open>\<^verbatim>\<open>RETRY_WITH_CONDITION_TIMES\<close>: run the statement until it does not fail, at most \<open>times\<close>
  times. The result is that of the last run, with the number of runs.\<close>

fun retry_loop :: "nat \<Rightarrow> nat \<Rightarrow> (nat \<Rightarrow> 'r) \<Rightarrow> ('r \<Rightarrow> bool) \<Rightarrow> 'r option \<Rightarrow> 'r option \<times> nat" where
  "retry_loop 0 i stm failed res = (res, i)"
| "retry_loop (Suc left) i stm failed res =
     (let r = stm i in if failed r then retry_loop left (Suc i) stm failed (Some r) else (Some r, Suc i))"

definition RETRY_WITH_CONDITION :: "(nat \<Rightarrow> 'r) \<Rightarrow> ('r \<Rightarrow> bool) \<Rightarrow> 'r option" where
  "RETRY_WITH_CONDITION stm failed = fst (retry_loop 3 0 stm failed None)"

definition scan :: "net \<Rightarrow> Node \<Rightarrow> Node outcome" where
  "scan W node =
     (let a = Node_to_string node
      in if \<not> chan_init W a then Throw (RuntimeError ''channel init failed'')
         else if RETRY_WITH_CONDITION (echo_failed W a) id = Some False
         then Ok (node\<lparr>nodeStatus := ONLINE\<rparr>)
         else Ok (node\<lparr>nodeStatus := OFFLINE\<rparr>))"

text \<open>One thread per node; an exception that leaves a thread ends the process.\<close>

fun thread_result :: "'a outcome \<Rightarrow> 'a outcome" where
  "thread_result (Ok x) = Ok x"
| "thread_result (Throw e) = Abort ''std::terminate''"
| "thread_result (Abort s) = Abort s"

definition node_discovery :: "net \<Rightarrow> Node list \<Rightarrow> Node list outcome" where
  "node_discovery W nodes = mapO (\<lambda>n. thread_result (scan W n)) nodes"

section \<open>The own address\<close>

text \<open>The local addresses come from \<^verbatim>\<open>getifaddrs\<close>. Sets are ordered; the first common address is
  taken.\<close>

definition get_my_ip :: "string list \<Rightarrow> Node list \<Rightarrow> string outcome" where
  "get_my_ip local vec =
     (case sort (filter (\<lambda>a. a \<in> set local) (map ip vec)) of
        [] \<Rightarrow> Throw (RuntimeError ''cannot find equal ips'')
      | a # _ \<Rightarrow> Ok a)"

section \<open>Lemmas\<close>

text \<open>A node whose printed form can be parsed: a non-empty address without separators.\<close>

definition node_ok :: "Node \<Rightarrow> bool" where
  "node_ok n \<longleftrightarrow> ip n \<noteq> [] \<and> CHR '':'' \<notin> set (ip n) \<and> CHR '','' \<notin> set (ip n)
     \<and> CHR 0x0A \<notin> set (ip n) \<and> in_int (port n)"

lemma newline_not_digit [string_simps]: "\<not> is_digit (CHR 0x0A)"
  by (simp add: is_digit_def)

lemma Node_from_to_string:
  assumes "node_ok n"
  shows "Node_from_string (Node_to_string n) m = Ok (m\<lparr>ip := ip n, port := port n\<rparr>)"
  using assms by (simp add: Node_from_string_def Node_to_string_def node_ok_def string_simps)

lemma Node_to_string_clean:
  assumes "node_ok n"
  shows "Node_to_string n \<noteq> []" "CHR '','' \<notin> set (Node_to_string n)"
  using assms by (auto simp: Node_to_string_def node_ok_def string_simps)

lemma parse_tokens_ok:
  assumes "\<And>n. n \<in> set ns \<Longrightarrow> node_ok n"
  shows "parse_tokens (map Node_to_string ns) m res =
     Ok (res @ map (\<lambda>n. n\<lparr>nodeStatus := nodeStatus m\<rparr>) ns)"
  using assms by (induction ns arbitrary: m res) (auto simp: Node_from_to_string)

lemma concat_commas: "ns \<noteq> [] \<Longrightarrow> concat (map (\<lambda>n. f n @ [d]) ns) = join d (map f ns) @ [d]"
  by (induction ns) (auto simp: join_Cons)

lemma Nodes_to_string_join:
  "ns \<noteq> [] \<Longrightarrow> Nodes_to_string ns = Ok (join (CHR '','') (map Node_to_string ns))"
  by (simp add: Nodes_to_string_def concat_commas)

lemma parse_nodes_join:
  assumes "\<And>n. n \<in> set ns \<Longrightarrow> node_ok n"
  shows "parse_nodes (join (CHR '','') (map Node_to_string ns)) =
     Ok (map (\<lambda>n. n\<lparr>nodeStatus := UNKNOWN\<rparr>) ns)"
proof -
  have "getlines (CHR '','') (join (CHR '','') (map Node_to_string ns)) = map Node_to_string ns"
    by (rule getlines_join) (use assms Node_to_string_clean in auto)
  then show ?thesis
    using assms by (simp add: parse_nodes_def parse_tokens_ok default_Node_def)
qed

lemma Node_from_to_json:
  "in_int (port n) \<and> nodeStatus n = UNKNOWN \<Longrightarrow> Node_from_json (Node_to_json n) = Ok n"
  by (simp add: Node_from_json_def Node_to_json_def to_int32_id default_Node_def)

interpretation node_json: codec Node_to_json Node_from_json
  "\<lambda>n. in_int (port n) \<and> nodeStatus n = UNKNOWN"
  by unfold_locales (rule Node_from_to_json)

lemma json_ok_Node: "json_ok (Node_to_json n) \<longleftrightarrow> ascii (ip n)"
  by (auto simp: Node_to_json_def ascii_def less_char_def)

lemma retry_loop_result:
  "fst (retry_loop left i stm failed res) =
     (if \<exists>j<left. \<not> failed (stm (i + j))
      then Some (stm (i + (LEAST j. \<not> failed (stm (i + j)))))
      else if left = 0 then res else Some (stm (i + left - 1)))"
proof (induction left arbitrary: i res)
  case (Suc left)
  show ?case
  proof (cases "failed (stm i)")
    case False
    then have "(LEAST j. \<not> failed (stm (i + j))) = 0" by (intro Least_eq_0) simp
    with False show ?thesis by (auto simp: Let_def)
  next
    case True
    have ex: "(\<exists>j<Suc left. \<not> failed (stm (i + j))) \<longleftrightarrow> (\<exists>j<left. \<not> failed (stm (Suc i + j)))"
      using True by (auto simp: less_Suc_eq_0_disj)
    have "(LEAST j. \<not> failed (stm (i + j))) = Suc (LEAST j. \<not> failed (stm (Suc i + j)))"
      if "\<not> failed (stm (Suc i + j))" for j
      using Least_Suc [of "\<lambda>j. \<not> failed (stm (i + j))" "Suc j"] that True by simp
    with True ex show ?thesis by (auto simp: Let_def Suc.IH)
  qed
qed simp

lemma RETRY_failed:
  "(\<exists>r. RETRY_WITH_CONDITION stm failed = Some r \<and> \<not> failed r) \<longleftrightarrow> (\<exists>j<3. \<not> failed (stm j))"
proof -
  have "\<not> failed (stm (LEAST j. \<not> failed (stm j)))" if "\<not> failed (stm j)" for j
    using that by (rule LeastI)
  moreover have "failed (stm 2)" if "\<not> (\<exists>j<3. \<not> failed (stm j))"
    using that by auto
  ultimately show ?thesis
    by (auto simp: RETRY_WITH_CONDITION_def retry_loop_result)
qed

lemma scan_status:
  "scan W n = Ok n' \<Longrightarrow>
     n' = n\<lparr>nodeStatus := if \<exists>j<3. \<not> echo_failed W (Node_to_string n) j then ONLINE else OFFLINE\<rparr>"
  using RETRY_failed [of "echo_failed W (Node_to_string n)" id]
  by (auto simp: scan_def Let_def split: if_splits)

text \<open>The result of probing, in closed form.\<close>

definition answers :: "net \<Rightarrow> Node \<Rightarrow> bool" where
  "answers W n \<longleftrightarrow> (\<exists>j<3. \<not> echo_failed W (Node_to_string n) j)"

definition probed :: "net \<Rightarrow> Node \<Rightarrow> Node" where
  "probed W n = n\<lparr>nodeStatus := if answers W n then ONLINE else OFFLINE\<rparr>"

lemma scan_probed: "scan W n = Ok n' \<Longrightarrow> n' = probed W n"
  using scan_status by (simp add: probed_def answers_def)

lemma thread_result_Ok: "thread_result r = Ok x \<longleftrightarrow> r = Ok x"
  by (cases r) auto

lemma node_discovery_probed: "node_discovery W ns = Ok ms \<Longrightarrow> ms = map (probed W) ns"
  unfolding node_discovery_def
  by (induction ns arbitrary: ms) (auto simp: outcome_simps thread_result_Ok dest!: scan_probed)

lemma probed_simps [simp]:
  "ip (probed W n) = ip n" "port (probed W n) = port n" "nodeStatus (probed W n) = ONLINE \<longleftrightarrow> answers W n"
  "nodeStatus (probed W n) = OFFLINE \<longleftrightarrow> \<not> answers W n" "nodeStatus (probed W n) \<noteq> UNKNOWN"
  by (simp_all add: probed_def)

lemma get_my_ip_least:
  assumes "get_my_ip local vec = Ok a"
  shows "a \<in> set local" "a \<in> ip ` set vec" "\<And>b. b \<in> set local \<Longrightarrow> b \<in> ip ` set vec \<Longrightarrow> a \<le> b"
proof -
  obtain as where s: "sort (filter (\<lambda>a. a \<in> set local) (map ip vec)) = a # as"
    using assms by (auto simp: get_my_ip_def split: list.splits)
  have "set (a # as) = {b \<in> ip ` set vec. b \<in> set local}"
    unfolding s [symmetric] by auto
  moreover have "sorted (a # as)" unfolding s [symmetric] by simp
  ultimately show "a \<in> set local" "a \<in> ip ` set vec"
    "\<And>b. b \<in> set local \<Longrightarrow> b \<in> ip ` set vec \<Longrightarrow> a \<le> b" by auto
qed

end
