(* ===== verification/Inodes.thy ===== *)
theory Inodes
  imports Paths Storage_Types Nodes
begin

text \<open>
  Inodes: \<^verbatim>\<open>include/common/inode.h\<close> and \<^verbatim>\<open>src/common/inode.cpp\<close>. The record has the fields of the
  class; for a directory \<open>sub\<close> lists the entries (a sub-directory with a trailing slash), for a
  file it lists one string per block, made by \<open>encode_one_sub\<close>: the data node and the block id of
  every fragment.

  The clock (\<open>get_time\<close>) is an argument, and so is the JSON library. The lemmas show the lock
  discipline, that \<open>decode_one_sub\<close> reads what \<open>encode_one_sub\<close> wrote, and that an inode is read
  back from its JSON text.
\<close>

record Inode =
  fullpath :: path
  is_directory :: bool
  filesize :: u64
  storage_type_ptr :: "StorageType option"
  sub :: "string list"
  valid :: bool
  ddl_lock :: u64
  agg_inode_id :: string

text \<open>\<^verbatim>\<open>Inode inode; inode.set_fullpath(p)\<close>. The member \<open>valid\<close> has no initialiser; every caller
  assigns it before reading it, so any value will do.\<close>

definition new_inode :: "path \<Rightarrow> Inode" where
  "new_inode p = \<lparr>fullpath = simplify_path p, is_directory = False, filesize = 0,
     storage_type_ptr = None, sub = [], valid = False, ddl_lock = 0, agg_inode_id = []\<rparr>"

definition LOCK_REFRESH_INTERVAL :: u64 where
  "LOCK_REFRESH_INTERVAL = 60"

definition Inode_lock :: "u64 \<Rightarrow> Inode \<Rightarrow> Inode outcome" where
  "Inode_lock now inode =
     (if ddl_lock inode \<ge> now then
        Throw (MessageException EXPECTED_LOCK_CONFLICT
          (fullpath inode @ '' file is being edit! ddl_lock: '' @ nat_to_string (unat (ddl_lock inode))
           @ '', now: '' @ nat_to_string (unat now)))
      else Ok (inode\<lparr>ddl_lock := now + LOCK_REFRESH_INTERVAL\<rparr>))"

definition Inode_unlock :: "Inode \<Rightarrow> Inode" where
  "Inode_unlock inode = inode\<lparr>ddl_lock := 0\<rparr>"

definition update_ddl_lock :: "u64 \<Rightarrow> Inode \<Rightarrow> Inode" where
  "update_ddl_lock now inode = inode\<lparr>ddl_lock := now + LOCK_REFRESH_INTERVAL\<rparr>"

definition Inode_filename :: "Inode \<Rightarrow> string" where
  "Inode_filename inode =
     filename_of (fullpath inode) @ (if is_directory inode then ''/'' else [])"

definition Inode_parent_path :: "Inode \<Rightarrow> path" where
  "Inode_parent_path inode = get_parent_path (fullpath inode)"

definition get_default_dir :: "path \<Rightarrow> Inode" where
  "get_default_dir p = (new_inode p)
     \<lparr>is_directory := True, filesize := 0, storage_type_ptr := None, sub := [], valid := True,
      ddl_lock := 0\<rparr>"

definition Inode_block_size :: "Inode \<Rightarrow> int" where
  "Inode_block_size inode =
     (case storage_type_ptr inode of None \<Rightarrow> 0 | Some st \<Rightarrow> get_block_size st)"

definition Inode_eq :: "Inode \<Rightarrow> Inode \<Rightarrow> bool" where
  "Inode_eq l r \<longleftrightarrow> sub l = sub r \<and> filesize l = filesize r"

section \<open>Fragments of a block\<close>

text \<open>The address goes through \<^verbatim>\<open>to_string(const Node&)\<close>, so it is parsed and printed again;
  \<^verbatim>\<open>pop_back\<close> of an empty string is undefined.\<close>

definition encode_one_sub :: "(string \<times> string) list \<Rightarrow> string outcome" where
  "encode_one_sub nodes_hashs =
     bindO (mapO (\<lambda>(n, h). bindO (mk_Node n 0 UNKNOWN) (\<lambda>nd. Ok (Node_to_string nd @ ''|'' @ h @ '','')))
       nodes_hashs)
     (\<lambda>parts. if concat parts = [] then Abort ''pop_back of an empty string''
              else Ok (butlast (concat parts)))"

definition decode_one_sub :: "string \<Rightarrow> (string \<times> string) list" where
  "decode_one_sub one_sub =
     map (\<lambda>str. let (node, rest) = getline1 (CHR ''|'') str; (blkid, _) = getline1 (CHR ''|'') rest
                in (node, blkid))
       (getlines (CHR '','') one_sub)"

section \<open>JSON form\<close>

text \<open>Members in key order, as the object is kept and printed.\<close>

definition Inode_to_json :: "('a json_lib_scheme) \<Rightarrow> Inode \<Rightarrow> json" where
  "Inode_to_json L inode = JObj (
     (if agg_inode_id inode \<noteq> [] then [(''agg_inode_id'', JStr (agg_inode_id inode))] else []) @
     [(''ddl_lock'', JInt (uint (ddl_lock inode))),
      (''filesize'', JInt (uint (filesize inode))),
      (''fullpath'', JStr (fullpath inode)),
      (''is_directory'', JBool (is_directory inode))] @
     (case storage_type_ptr inode of None \<Rightarrow> []
      | Some st \<Rightarrow> [(''storage_type'', JStr (jdump L (StorageType_to_json st)))]) @
     [(''sub'', JArr (map JStr (sub inode))),
      (''valid'', JBool (valid inode))])"

definition Inode_from_json :: "('a json_lib_scheme) \<Rightarrow> json \<Rightarrow> Inode outcome" where
  "Inode_from_json L j =
     bindO (json_at j ''fullpath'') (\<lambda>a. bindO (get_string a) (\<lambda>p.
     bindO (json_at j ''is_directory'') (\<lambda>b. bindO (get_bool b) (\<lambda>d.
     bindO (json_at j ''filesize'') (\<lambda>c. bindO (get_uint64 c) (\<lambda>sz.
     bindO (json_at j ''sub'') (\<lambda>e. bindO (get_string_list e) (\<lambda>ss.
     bindO (json_at j ''valid'') (\<lambda>f. bindO (get_bool f) (\<lambda>v.
     bindO (json_at j ''ddl_lock'') (\<lambda>g. bindO (get_uint64 g) (\<lambda>l.
     bindO (if json_has j ''storage_type''
            then bindO (json_at j ''storage_type'') (\<lambda>t. bindO (get_string t) (\<lambda>txt.
                 bindO (json_parse L txt) (\<lambda>tj. bindO (StorageType_from_json tj) (\<lambda>st. Ok (Some st)))))
            else Ok None) (\<lambda>stp.
     bindO (if json_has j ''agg_inode_id''
            then bindO (json_at j ''agg_inode_id'') get_string else Ok []) (\<lambda>agg.
       Ok \<lparr>fullpath = simplify_path p, is_directory = d, filesize = sz, storage_type_ptr = stp,
           sub = ss, valid = v, ddl_lock = l, agg_inode_id = agg\<rparr>))))))))))))))"

definition Inode_value :: "('a json_lib_scheme) \<Rightarrow> Inode \<Rightarrow> string" where
  "Inode_value L inode = jdump L (Inode_to_json L inode)"

text \<open>\<^verbatim>\<open>json::parse(text).get<Inode>()\<close>\<close>

definition Inode_of_text :: "('a json_lib_scheme) \<Rightarrow> string \<Rightarrow> Inode outcome" where
  "Inode_of_text L s = bindO (json_parse L s) (Inode_from_json L)"

section \<open>Lemmas\<close>

text \<open>The inodes that survive serialisation.\<close>

definition inode_ok :: "Inode \<Rightarrow> bool" where
  "inode_ok i \<longleftrightarrow> simplify_path (fullpath i) = fullpath i \<and> ascii (fullpath i) \<and>
     list_all ascii (sub i) \<and> ascii (agg_inode_id i) \<and> pred_option st_ints (storage_type_ptr i)"

lemma inode_ok_new: "ascii p \<Longrightarrow> inode_ok (new_inode p)"
  by (simp add: inode_ok_def new_inode_def ascii_simplify_path)

lemma inode_ok_default_dir: "ascii p \<Longrightarrow> inode_ok (get_default_dir p)"
  by (simp add: inode_ok_def get_default_dir_def new_inode_def ascii_simplify_path)

lemma inode_ok_update [simp]:
  "inode_ok (i\<lparr>is_directory := b\<rparr>) = inode_ok i"
  "inode_ok (i\<lparr>filesize := n\<rparr>) = inode_ok i"
  "inode_ok (i\<lparr>valid := v\<rparr>) = inode_ok i"
  "inode_ok (i\<lparr>ddl_lock := n\<rparr>) = inode_ok i"
  by (simp_all add: inode_ok_def)

lemma inode_ok_sub: "inode_ok i \<Longrightarrow> list_all ascii ss \<Longrightarrow> inode_ok (i\<lparr>sub := ss\<rparr>)"
  by (simp add: inode_ok_def)

lemma inode_ok_agg: "inode_ok i \<Longrightarrow> ascii a \<Longrightarrow> inode_ok (i\<lparr>agg_inode_id := a\<rparr>)"
  by (simp add: inode_ok_def)

lemma inode_ok_storage: "inode_ok i \<Longrightarrow> st_ok st \<Longrightarrow> inode_ok (i\<lparr>storage_type_ptr := Some st\<rparr>)"
  by (simp add: inode_ok_def st_ok_ints)

lemma Inode_from_to_json:
  assumes "codec_ok L" "inode_ok i"
  shows "Inode_from_json L (Inode_to_json L i) = Ok i"
  using assms json_parse_dump [OF assms(1) json_ok_StorageType]
  by (cases "storage_type_ptr i")
    (simp_all add: Inode_from_json_def Inode_to_json_def inode_ok_def st_json.dec_enc)

lemma json_ok_Inode:
  assumes "codec_ok L" "inode_ok i"
  shows "json_ok (Inode_to_json L i)"
  using assms ascii_dump [OF assms(1) json_ok_StorageType]
  by (cases "storage_type_ptr i")
    (simp_all add: Inode_to_json_def inode_ok_def less_char_def ascii_Cons)

lemma Inode_text:
  assumes "codec_ok L" "inode_ok i"
  shows "Inode_of_text L (Inode_value L i) = Ok i"
  using assms by (simp add: Inode_of_text_def Inode_value_def json_parse_dump json_ok_Inode
      Inode_from_to_json)

lemma lock_conflict_iff: "(\<exists>e. Inode_lock now i = Throw e) \<longleftrightarrow> now \<le> ddl_lock i"
  by (auto simp: Inode_lock_def)

subsection \<open>Fragments\<close>

definition frag_ok :: "string \<times> string \<Rightarrow> bool" where
  "frag_ok p \<longleftrightarrow> (\<exists>n. node_ok n \<and> CHR ''|'' \<notin> set (ip n) \<and> fst p = Node_to_string n) \<and>
     CHR '','' \<notin> set (snd p) \<and> CHR ''|'' \<notin> set (snd p)"

lemma frag_ok_node:
  assumes "frag_ok (n, h)"
  shows "bindO (mk_Node n 0 UNKNOWN) (\<lambda>nd. Ok (Node_to_string nd @ ''|'' @ h @ '',''))
       = Ok (n @ ''|'' @ h @ '','')"
    "n \<noteq> []" "CHR ''|'' \<notin> set n" "CHR '','' \<notin> set n"
proof -
  obtain m where m: "node_ok m" "CHR ''|'' \<notin> set (ip m)" "n = Node_to_string m"
    using assms by (auto simp: frag_ok_def)
  show "bindO (mk_Node n 0 UNKNOWN) (\<lambda>nd. Ok (Node_to_string nd @ ''|'' @ h @ '',''))
       = Ok (n @ ''|'' @ h @ '','')"
    using m Node_from_to_string [OF m(1), of "\<lparr>ip = n, port = 0, nodeStatus = UNKNOWN\<rparr>"]
    by (simp add: mk_Node_def Node_to_string_def)
  show "n \<noteq> []" "CHR ''|'' \<notin> set n" "CHR '','' \<notin> set n"
    using m Node_to_string_clean [OF m(1)] by (auto simp: Node_to_string_def string_simps)
qed

lemma encode_one_sub_ok:
  assumes "ps \<noteq> []" "\<And>p. p \<in> set ps \<Longrightarrow> frag_ok p"
  shows "encode_one_sub ps = Ok (join (CHR '','') (map (\<lambda>(n, h). n @ ''|'' @ h) ps))"
proof -
  let ?f = "\<lambda>(n, h). n @ ''|'' @ h"
  have "mapO (\<lambda>(n, h). bindO (mk_Node n 0 UNKNOWN) (\<lambda>nd. Ok (Node_to_string nd @ ''|'' @ h @ '','')))
       ps = Ok (map (\<lambda>p. ?f p @ '','') ps)"
    using assms(2) frag_ok_node(1)
    by (induction ps) (auto simp del: append_Cons append_Nil append.append_Cons)
  then show ?thesis
    using concat_commas [OF assms(1), of ?f "CHR '',''"]
    by (simp add: encode_one_sub_def del: concat_eq_Nil_conv)
qed

lemma decode_encode_sub:
  assumes "ps \<noteq> []" "\<And>p. p \<in> set ps \<Longrightarrow> frag_ok p" "encode_one_sub ps = Ok s"
  shows "decode_one_sub s = ps"
proof -
  let ?f = "\<lambda>(n, h). n @ ''|'' @ h"
  have s: "s = join (CHR '','') (map ?f ps)" using encode_one_sub_ok [OF assms(1,2)] assms(3) by simp
  have "getlines (CHR '','') (join (CHR '','') (map ?f ps)) = map ?f ps"
  proof (rule getlines_join)
    fix q assume "q \<in> set (map ?f ps)"
    then obtain n h where "(n, h) \<in> set ps" "q = n @ ''|'' @ h" by auto
    with assms(2) [of "(n, h)"] frag_ok_node [of n h] show "q \<noteq> [] \<and> CHR '','' \<notin> set q"
      by (auto simp: frag_ok_def)
  qed
  moreover have "(let (node, rest) = getline1 (CHR ''|'') (n @ ''|'' @ h);
        (blkid, _) = getline1 (CHR ''|'') rest in (node, blkid)) = (n, h)"
    if "(n, h) \<in> set ps" for n h
    using assms(2) [OF that] frag_ok_node(3) [of n h] by (simp add: frag_ok_def)
  ultimately show ?thesis
    unfolding s decode_one_sub_def by (auto intro!: map_idI)
qed

text \<open>The codec interface for the fragment lists: decoding is total, encoding is what can fail.\<close>

interpretation sub_text: codec "\<lambda>ps. case encode_one_sub ps of Ok s \<Rightarrow> s | _ \<Rightarrow> []"
  "\<lambda>s. Ok (decode_one_sub s)" "\<lambda>ps. ps \<noteq> [] \<and> (\<forall>p\<in>set ps. frag_ok p)"
proof unfold_locales
  fix ps :: "(string \<times> string) list"
  assume ps: "ps \<noteq> [] \<and> (\<forall>p\<in>set ps. frag_ok p)"
  then obtain s where "encode_one_sub ps = Ok s" using encode_one_sub_ok by blast
  with ps show "Ok (decode_one_sub (case encode_one_sub ps of Ok s \<Rightarrow> s | _ \<Rightarrow> [])) = Ok ps"
    using decode_encode_sub by simp
qed

end
