(* ===== verification/Namespaces.thy ===== *)
theory Namespaces
  imports Inodes
begin

text \<open>
  What the metadata store means, independently of how it is stored: a map from paths to inodes,
  the four operations that change it, and the interface \<open>namespace_store\<close> that a store offers.

  The invariant \<open>listing_ok\<close> is the one a user of \<^verbatim>\<open>ls\<close> relies on: the entries of a valid directory
  are distinct, and each of them names an existing child, with a trailing slash if and only if the
  child is a directory. It is proved here, once, for every store that implements the interface.
\<close>

type_synonym inode_map = "path \<rightharpoonup> Inode"

section \<open>Directory entries\<close>

text \<open>The statements that the functions of \<^verbatim>\<open>rocksdb.cpp\<close> share: adding a directory entry when it is
  missing, erasing one, and what \<^verbatim>\<open>put_ok\<close> stores.\<close>

definition push_sub :: "string \<Rightarrow> Inode \<Rightarrow> Inode" where
  "push_sub name inode = (if name \<in> set (sub inode) then inode else inode\<lparr>sub := sub inode @ [name]\<rparr>)"

definition erase_sub :: "string \<Rightarrow> Inode \<Rightarrow> Inode" where
  "erase_sub name inode = inode\<lparr>sub := filter (\<lambda>s. s \<noteq> name) (sub inode)\<rparr>"

definition put_ok_inode :: "Inode \<Rightarrow> Inode \<Rightarrow> Inode" where
  "put_ok_inode inode db_inode = (Inode_unlock db_inode)\<lparr>sub := sub inode, filesize := filesize inode\<rparr>"

definition put_ok_agg_inode :: "Inode \<Rightarrow> Inode \<Rightarrow> Inode" where
  "put_ok_agg_inode inode db_inode =
     (let i = put_ok_inode inode db_inode
      in if agg_inode_id inode \<noteq> [] then i\<lparr>agg_inode_id := agg_inode_id inode\<rparr> else i)"

lemma push_sub_simps [simp]:
  "fullpath (push_sub n i) = fullpath i" "is_directory (push_sub n i) = is_directory i"
  "valid (push_sub n i) = valid i" "set (sub (push_sub n i)) = insert n (set (sub i))"
  "distinct (sub (push_sub n i)) = distinct (sub i)"
  by (auto simp: push_sub_def)

lemma erase_sub_simps [simp]:
  "fullpath (erase_sub n i) = fullpath i" "is_directory (erase_sub n i) = is_directory i"
  "valid (erase_sub n i) = valid i" "sub (erase_sub n i) = filter (\<lambda>s. s \<noteq> n) (sub i)"
  by (simp_all add: erase_sub_def)

lemma put_ok_inode_simps [simp]:
  "fullpath (put_ok_inode i d) = fullpath d" "is_directory (put_ok_inode i d) = is_directory d"
  "valid (put_ok_inode i d) = valid d" "sub (put_ok_inode i d) = sub i"
  "filesize (put_ok_inode i d) = filesize i" "ddl_lock (put_ok_inode i d) = 0"
  "agg_inode_id (put_ok_inode i d) = agg_inode_id d"
  by (simp_all add: put_ok_inode_def Inode_unlock_def)

lemma put_ok_agg_inode_simps [simp]:
  "fullpath (put_ok_agg_inode i d) = fullpath d" "is_directory (put_ok_agg_inode i d) = is_directory d"
  "valid (put_ok_agg_inode i d) = valid d" "sub (put_ok_agg_inode i d) = sub i"
  "filesize (put_ok_agg_inode i d) = filesize i" "ddl_lock (put_ok_agg_inode i d) = 0"
  "agg_inode_id (put_ok_agg_inode i d) = (if agg_inode_id i \<noteq> [] then agg_inode_id i else agg_inode_id d)"
  by (simp_all add: put_ok_agg_inode_def Let_def)

lemma inode_ok_push_sub: "inode_ok i \<Longrightarrow> ascii n \<Longrightarrow> inode_ok (push_sub n i)"
  by (simp add: push_sub_def inode_ok_def)

lemma inode_ok_erase_sub: "inode_ok i \<Longrightarrow> inode_ok (erase_sub n i)"
  by (auto simp: erase_sub_def inode_ok_def list_all_iff)

lemma inode_ok_put_ok: "inode_ok i \<Longrightarrow> inode_ok d \<Longrightarrow> inode_ok (put_ok_inode i d)"
  by (auto simp: put_ok_inode_def Inode_unlock_def inode_ok_def)

lemma inode_ok_put_ok_agg: "inode_ok i \<Longrightarrow> inode_ok d \<Longrightarrow> inode_ok (put_ok_agg_inode i d)"
  using inode_ok_put_ok [of i d]
  by (auto simp: put_ok_agg_inode_def Let_def inode_ok_def [of i] intro: inode_ok_agg)

section \<open>Absolute inodes\<close>

text \<open>An inode whose path is absolute (and simplified, and printable).\<close>

definition abs_inode :: "Inode \<Rightarrow> bool" where
  "abs_inode i \<longleftrightarrow> inode_ok i \<and> is_rooted (fullpath i)"

lemma abs_inode_path:
  assumes "abs_inode i"
  obtains ns where "abs_names ns" "fullpath i = abs_path ns"
  using assms simplify_path_rooted [of "fullpath i"] by (auto simp: abs_inode_def inode_ok_def)

lemma is_rooted_abs_path [simp]: "is_rooted (abs_path ns)"
  by (simp add: abs_path_def is_rooted_def)

text \<open>The parent of an absolute path, and what a path has in common with its parent.\<close>

lemma abs_parent:
  assumes "abs_inode i"
  shows "is_rooted (Inode_parent_path i)" "ascii (Inode_parent_path i)"
    "simplify_path (Inode_parent_path i) = Inode_parent_path i"
    "Inode_parent_path i = fullpath i \<longleftrightarrow> fullpath i = ''/''"
proof -
  obtain ns where ns: "abs_names ns" "fullpath i = abs_path ns" using assms by (rule abs_inode_path)
  show "ascii (Inode_parent_path i)"
    using assms by (simp add: Inode_parent_path_def get_parent_path_def ascii_parent_path
        abs_inode_def inode_ok_def)
  have "is_rooted (Inode_parent_path i) \<and> simplify_path (Inode_parent_path i) = Inode_parent_path i
    \<and> (Inode_parent_path i = fullpath i \<longleftrightarrow> fullpath i = ''/'')"
  proof (cases ns rule: rev_cases)
    case Nil
    with ns show ?thesis
      using simplify_abs_path [of "[]"] is_rooted_abs_path [of "[]"]
      by (simp add: Inode_parent_path_def get_parent_path_def abs_names_def)
  next
    case (snoc ms m)
    with ns have a: "abs_names ms" "abs_names (ms @ [m])" by (simp_all add: abs_names_def)
    with ns snoc show ?thesis
      using abs_path_inject [OF a] abs_path_inject [OF a(2), of "[]"]
      by (simp add: Inode_parent_path_def get_parent_path_def parent_abs_path abs_names_def)
  qed
  then show "is_rooted (Inode_parent_path i)"
    "simplify_path (Inode_parent_path i) = Inode_parent_path i"
    "Inode_parent_path i = fullpath i \<longleftrightarrow> fullpath i = ''/''" by blast+
qed

lemma ascii_Inode_filename: "abs_inode i \<Longrightarrow> ascii (Inode_filename i)"
  by (simp add: Inode_filename_def abs_inode_def inode_ok_def ascii_filename ascii_Cons)

text \<open>A child is determined by its parent and its name.\<close>

lemma child_path_inject:
  assumes "is_rooted p" "simplify_path p = p" "is_rooted q" "simplify_path q = q" "p \<noteq> ''/''" "q \<noteq> ''/''"
    and par: "parent_path_of p = parent_path_of q" and name: "filename_of p = filename_of q"
  shows "p = q"
proof -
  obtain ns ms where ns: "abs_names ns" "p = abs_path ns" and ms: "abs_names ms" "q = abs_path ms"
    using assms simplify_path_rooted by metis
  from ns ms assms obtain ns' n ms' m where s: "ns = ns' @ [n]" "ms = ms' @ [m]"
    by (metis abs_path_Nil rev_exhaust)
  have "abs_path ns' = abs_path ms'" using par ns ms s parent_abs_path by metis
  moreover have "n = m" using name ns ms s filename_abs_path by metis
  ultimately show ?thesis
    using ns ms s abs_path_inject [of ns' ms'] by (simp add: abs_names_def)
qed

lemma filename_plain:
  assumes "is_rooted p" "simplify_path p = p" "p \<noteq> ''/''"
  shows "plain_name (filename_of p)"
proof -
  obtain ns where ns: "abs_names ns" "p = abs_path ns" using assms simplify_path_rooted by metis
  with assms(3) obtain ns' n where "ns = ns' @ [n]" by (metis abs_path_Nil rev_exhaust)
  with ns show ?thesis using filename_abs_path [of ns' n] by (simp add: abs_names_def)
qed

section \<open>The operations on the map\<close>

definition ns_parent :: "inode_map \<Rightarrow> Inode \<Rightarrow> Inode option" where
  "ns_parent m i =
     (case m (Inode_parent_path i) of
        Some j \<Rightarrow> Some j
      | None \<Rightarrow> if Inode_parent_path i = ''/'' then Some (get_default_dir ''/'') else None)"

text \<open>The inode that is read for a path: the stored one, or a fresh one with its flags set.\<close>

definition ns_current :: "inode_map \<Rightarrow> Inode \<Rightarrow> Inode" where
  "ns_current m i =
     (case m (fullpath i) of
        Some j \<Rightarrow> j
      | None \<Rightarrow> if fullpath i = ''/'' then i\<lparr>is_directory := True, valid := True\<rparr> else i\<lparr>valid := False\<rparr>)"

definition ns_mkdir :: "Inode \<Rightarrow> inode_map \<Rightarrow> inode_map option" where
  "ns_mkdir i m = map_option (\<lambda>par.
     m(Inode_parent_path i \<mapsto> push_sub (Inode_filename i) par, fullpath i \<mapsto> i)) (ns_parent m i)"

definition ns_put :: "Inode \<Rightarrow> inode_map \<Rightarrow> inode_map option" where
  "ns_put i m = Some (m(fullpath i \<mapsto> i))"

definition ns_put_ok :: "Inode \<Rightarrow> inode_map \<Rightarrow> inode_map option" where
  "ns_put_ok i m = map_option (\<lambda>par.
     m(Inode_parent_path i \<mapsto> push_sub (Inode_filename i) par,
       fullpath i \<mapsto> put_ok_inode i (ns_current m (new_inode (fullpath i))))) (ns_parent m i)"

definition ns_rm :: "Inode \<Rightarrow> inode_map \<Rightarrow> inode_map option" where
  "ns_rm i m = map_option (\<lambda>par.
     m(Inode_parent_path i \<mapsto> erase_sub (Inode_filename i @ ''/'') (erase_sub (Inode_filename i) par),
       fullpath i \<mapsto> i)) (ns_parent m i)"

section \<open>Listings\<close>

text \<open>\<open>kind m p\<close>: \<open>None\<close> if there is no valid inode at \<open>p\<close>, otherwise whether it is a directory.\<close>

definition kind :: "inode_map \<Rightarrow> path \<Rightarrow> bool option" where
  "kind m p = (case m p of None \<Rightarrow> None | Some i \<Rightarrow> if valid i then Some (is_directory i) else None)"

definition entry_of :: "path \<Rightarrow> bool \<Rightarrow> string" where
  "entry_of q d = filename_of q @ (if d then ''/'' else [])"

definition names_child :: "inode_map \<Rightarrow> path \<Rightarrow> string \<Rightarrow> bool" where
  "names_child m p e \<longleftrightarrow> (\<exists>q d. q \<noteq> p \<and> is_rooted q \<and> simplify_path q = q \<and> get_parent_path q = p \<and>
     kind m q = Some d \<and> e = entry_of q d)"

definition listing_ok :: "inode_map \<Rightarrow> bool" where
  "listing_ok m \<longleftrightarrow> (\<forall>p i. m p = Some i \<longrightarrow> valid i \<longrightarrow> is_directory i \<longrightarrow>
     distinct (sub i) \<and> (\<forall>e\<in>set (sub i). names_child m p e))"

lemma kind_upd [simp]:
  "kind (m(p \<mapsto> i)) q = (if q = p then if valid i then Some (is_directory i) else None else kind m q)"
  by (simp add: kind_def)

lemma listing_okD:
  "listing_ok m \<Longrightarrow> m p = Some i \<Longrightarrow> valid i \<Longrightarrow> is_directory i \<Longrightarrow> distinct (sub i)"
  "listing_ok m \<Longrightarrow> m p = Some i \<Longrightarrow> valid i \<Longrightarrow> is_directory i \<Longrightarrow> e \<in> set (sub i) \<Longrightarrow> names_child m p e"
  by (auto simp: listing_ok_def)

lemma names_child_cong:
  assumes "names_child m p e"
    and "\<And>q d. get_parent_path q = p \<Longrightarrow> q \<noteq> p \<Longrightarrow> is_rooted q \<Longrightarrow> simplify_path q = q \<Longrightarrow>
      kind m q = Some d \<Longrightarrow> e = entry_of q d \<Longrightarrow> kind m' q = Some d"
  shows "names_child m' p e"
  using assms unfolding names_child_def by blast

text \<open>What the checks before a proposal (\<open>prepare_mkdir\<close> and the others) establish.\<close>

definition mkdir_pre :: "Inode \<Rightarrow> inode_map \<Rightarrow> bool" where
  "mkdir_pre i m \<longleftrightarrow> abs_inode i \<and> fullpath i \<noteq> ''/'' \<and> valid i \<and> is_directory i \<and> sub i = [] \<and>
     kind m (fullpath i) = None"

definition put_pre :: "Inode \<Rightarrow> inode_map \<Rightarrow> bool" where
  "put_pre i m \<longleftrightarrow> abs_inode i \<and> valid i \<and> kind m (fullpath i) \<in> {None, Some (is_directory i)} \<and>
     (is_directory i \<longrightarrow> sub i = [] \<or> (\<exists>j. m (fullpath i) = Some j \<and> valid j \<and> is_directory j \<and> sub i = sub j))"

definition put_ok_pre :: "Inode \<Rightarrow> inode_map \<Rightarrow> bool" where
  "put_ok_pre i m \<longleftrightarrow> abs_inode i \<and> \<not> is_directory i \<and> kind m (fullpath i) = Some False"

definition rm_pre :: "Inode \<Rightarrow> inode_map \<Rightarrow> bool" where
  "rm_pre i m \<longleftrightarrow> abs_inode i \<and> \<not> valid i \<and> \<not> is_directory i"

lemma ns_parent_props:
  assumes "ns_parent m i = Some par"
  shows "m (Inode_parent_path i) = Some par \<or>
    m (Inode_parent_path i) = None \<and> sub par = [] \<and> valid par \<and> is_directory par"
  using assms by (auto simp: ns_parent_def get_default_dir_def split: option.splits if_splits)

lemma kind_parent:
  assumes "ns_parent m i = Some par" "kind m (Inode_parent_path i) = Some d"
  shows "valid par \<and> is_directory par = d"
  using assms ns_parent_props [OF assms(1)] by (auto simp: kind_def split: if_splits)

text \<open>Adding the entry of a child that is there afterwards. The only inode whose kind may change is
  the child itself, and only if it was not there before.\<close>

lemma listing_ok_add:
  assumes ok: "listing_ok m" and abs: "abs_inode i" "fullpath i \<noteq> ''/''"
    and par: "ns_parent m i = Some par"
    and c: "valid c" "is_directory c = is_directory i" "is_directory c \<Longrightarrow> sub c = []"
    and k: "kind m (fullpath i) \<in> {None, Some (is_directory c)}"
  shows "listing_ok (m(Inode_parent_path i \<mapsto> push_sub (Inode_filename i) par, fullpath i \<mapsto> c))"
    (is "listing_ok ?m'")
proof -
  let ?pp = "Inode_parent_path i" and ?fp = "fullpath i"
  have ne: "?pp \<noteq> ?fp" using abs_parent(4) [OF abs(1)] abs(2) by simp
  have new: "kind ?m' ?fp = Some (is_directory c)" using c by simp
  have keep: "kind ?m' q = Some d" if "kind m q = Some d" for q d
  proof (cases "q = ?fp")
    case True
    with that k new show ?thesis by auto
  next
    case False
    with that kind_parent [OF par] show ?thesis by auto
  qed
  have child: "names_child ?m' p e" if "names_child m p e" for p e
    using that by (rule names_child_cong) (rule keep)
  have self: "names_child ?m' ?pp (Inode_filename i)"
    unfolding names_child_def using new ne abs c(2)
    by (intro exI [of _ ?fp] exI [of _ "is_directory c"])
      (auto simp: abs_inode_def inode_ok_def Inode_parent_path_def Inode_filename_def entry_of_def)
  show ?thesis
    unfolding listing_ok_def
  proof (intro allI impI)
    fix p j assume j: "?m' p = Some j" "valid j" "is_directory j"
    consider "p = ?fp" | "p \<noteq> ?fp" "p = ?pp" | "p \<noteq> ?fp" "p \<noteq> ?pp" by blast
    then show "distinct (sub j) \<and> (\<forall>e\<in>set (sub j). names_child ?m' p e)"
    proof cases
      case 1
      with j c show ?thesis by simp
    next
      case 2
      with j(1) have "j = push_sub (Inode_filename i) par" by simp
      with 2 show ?thesis
        using ns_parent_props [OF par] self child listing_okD [OF ok] j by auto
    next
      case 3
      with j(1) have "m p = Some j" by simp
      with j child listing_okD [OF ok] show ?thesis by blast
    qed
  qed
qed

lemma listing_ok_mkdir:
  "listing_ok m \<Longrightarrow> mkdir_pre i m \<Longrightarrow> ns_mkdir i m = Some m' \<Longrightarrow> listing_ok m'"
  using listing_ok_add [of m i _ i] by (auto simp: ns_mkdir_def mkdir_pre_def)

lemma ns_current_kind:
  "kind m p = Some False \<Longrightarrow> \<exists>j. ns_current m (new_inode p) = j \<and> valid j \<and> \<not> is_directory j"
  if "simplify_path p = p"
  using that by (auto simp: kind_def ns_current_def new_inode_def split: option.splits if_splits)

lemma listing_ok_upd:
  assumes "listing_ok m" "valid c" "kind m p \<in> {None, Some (is_directory c)}"
    and "is_directory c \<Longrightarrow> sub c = [] \<or> (\<exists>j. m p = Some j \<and> valid j \<and> is_directory j \<and> sub c = sub j)"
  shows "listing_ok (m(p \<mapsto> c))"
proof -
  have keep: "kind (m(p \<mapsto> c)) q = Some d" if "kind m q = Some d" for q d
    using that assms(2,3) by auto
  have child: "names_child (m(p \<mapsto> c)) q e" if "names_child m q e" for q e
    using that by (rule names_child_cong) (rule keep)
  show ?thesis
    using assms(4) child listing_okD [OF assms(1)] by (auto simp: listing_ok_def split: if_splits)
qed

text \<open>The step of \<open>put_ok\<close>, for any inode \<open>c\<close> that is stored under the path of the file.\<close>

lemma put_ok_step:
  assumes "listing_ok m" "put_ok_pre i m" "ns_parent m i = Some par" "valid c" "\<not> is_directory c"
    and m': "m' = m(Inode_parent_path i \<mapsto> push_sub (Inode_filename i) par, fullpath i \<mapsto> c)"
  shows "listing_ok m'" "kind m q = Some d \<Longrightarrow> kind m' q = Some d"
proof -
  have i: "abs_inode i" "\<not> is_directory i" "kind m (fullpath i) = Some False"
    using assms(2) by (simp_all add: put_ok_pre_def)
  show "listing_ok m'"
  proof (cases "fullpath i = ''/''")
    case True
    then have "Inode_parent_path i = fullpath i" using abs_parent(4) [OF i(1)] by simp
    then show ?thesis using listing_ok_upd [OF assms(1), of c "fullpath i"] assms(4,5) i(3) by (simp add: m')
  next
    case False
    then show ?thesis using listing_ok_add [OF assms(1) i(1) False assms(3,4)] assms(5) i by (simp add: m')
  qed
  show "kind m' q = Some d" if "kind m q = Some d"
    unfolding m' using that kind_parent [OF assms(3)] assms(4,5) i(3) by auto
qed

lemma listing_ok_put_ok:
  assumes "listing_ok m" "put_ok_pre i m" "ns_put_ok i m = Some m'"
  shows "listing_ok m'"
proof -
  have "simplify_path (fullpath i) = fullpath i"
    using assms(2) by (simp add: put_ok_pre_def abs_inode_def inode_ok_def)
  then obtain j where "ns_current m (new_inode (fullpath i)) = j" "valid j" "\<not> is_directory j"
    using assms(2) ns_current_kind by (auto simp: put_ok_pre_def)
  then show ?thesis
    using assms put_ok_step(1) [of m i _ "put_ok_inode i j" m'] by (auto simp: ns_put_ok_def)
qed

lemma listing_ok_put:
  assumes "listing_ok m" "put_pre i m" "ns_put i m = Some m'"
  shows "listing_ok m'"
  using assms listing_ok_upd [of m i "fullpath i"] by (auto simp: ns_put_def put_pre_def)

text \<open>Removing: the entries erased from the parent are those that may name the removed child.\<close>

lemma listing_ok_rm:
  assumes ok: "listing_ok m" and pre: "rm_pre i m" and rm: "ns_rm i m = Some m'"
  shows "listing_ok m'"
proof -
  let ?pp = "Inode_parent_path i" and ?fp = "fullpath i"
  let ?er = "\<lambda>par. erase_sub (Inode_filename i @ ''/'') (erase_sub (Inode_filename i) par)"
  obtain par where par: "ns_parent m i = Some par" and m': "m' = m(?pp \<mapsto> ?er par, ?fp \<mapsto> i)"
    using rm by (auto simp: ns_rm_def)
  have i: "abs_inode i" "\<not> valid i" "\<not> is_directory i" using pre by (simp_all add: rm_pre_def)
  have keep: "kind m' q = Some d" if "kind m q = Some d" "q \<noteq> ?fp" for q d
    using that kind_parent [OF par] by (auto simp: m')
  have child: "names_child m' p e"
    if "names_child m p e" "p = ?pp \<Longrightarrow> e \<noteq> Inode_filename i \<and> e \<noteq> Inode_filename i @ ''/''" for p e
    using that(1)
  proof (rule names_child_cong)
    fix q d assume q: "get_parent_path q = p" "kind m q = Some d" "e = entry_of q d"
    then have "q \<noteq> ?fp" using that(2) i(3) by (auto simp: Inode_parent_path_def entry_of_def Inode_filename_def split: if_splits)
    with q show "kind m' q = Some d" by (simp add: keep)
  qed
  show ?thesis
    unfolding listing_ok_def
  proof (intro allI impI)
    fix p j assume j: "m' p = Some j" "valid j" "is_directory j"
    then have "p \<noteq> ?fp" using i(2) by (auto simp: m')
    then consider "p = ?pp" "p \<noteq> ?fp" | "p \<noteq> ?fp" "p \<noteq> ?pp" by blast
    then show "distinct (sub j) \<and> (\<forall>e\<in>set (sub j). names_child m' p e)"
    proof cases
      case 1
      with j(1) have "j = ?er par" by (simp add: m')
      with 1 show ?thesis using ns_parent_props [OF par] child listing_okD [OF ok] j by auto
    next
      case 2
      with j(1) have "m p = Some j" by (simp add: m')
      with 2 j child listing_okD [OF ok] show ?thesis by blast
    qed
  qed
qed

section \<open>The interface of a store\<close>

text \<open>\<open>view\<close> is the map a state stands for, \<open>inv\<close> the representation invariant. Each operation that
  returns normally keeps the invariant and does to the map what its specification says.\<close>

locale namespace_store =
  fixes view :: "'s \<Rightarrow> inode_map"
    and inv :: "'s \<Rightarrow> bool"
    and mkdir put put_ok rm :: "'s \<Rightarrow> Inode \<Rightarrow> 's outcome"
  assumes mkdir_sim: "inv s \<Longrightarrow> abs_inode i \<Longrightarrow> mkdir s i = Ok s' \<Longrightarrow> inv s' \<and> ns_mkdir i (view s) = Some (view s')"
    and put_sim: "inv s \<Longrightarrow> abs_inode i \<Longrightarrow> put s i = Ok s' \<Longrightarrow> inv s' \<and> ns_put i (view s) = Some (view s')"
    and put_ok_sim: "inv s \<Longrightarrow> abs_inode i \<Longrightarrow> put_ok s i = Ok s' \<Longrightarrow> inv s' \<and> ns_put_ok i (view s) = Some (view s')"
    and rm_sim: "inv s \<Longrightarrow> abs_inode i \<Longrightarrow> rm s i = Ok s' \<Longrightarrow> inv s' \<and> ns_rm i (view s) = Some (view s')"
begin

definition good :: "'s \<Rightarrow> bool" where
  "good s \<longleftrightarrow> inv s \<and> listing_ok (view s)"

lemma good_mkdir: "good s \<Longrightarrow> mkdir_pre i (view s) \<Longrightarrow> mkdir s i = Ok s' \<Longrightarrow> good s'"
  using mkdir_sim [of s i s'] listing_ok_mkdir by (auto simp: good_def mkdir_pre_def)

lemma good_put: "good s \<Longrightarrow> put_pre i (view s) \<Longrightarrow> put s i = Ok s' \<Longrightarrow> good s'"
  using put_sim [of s i s'] listing_ok_put by (auto simp: good_def put_pre_def)

lemma good_put_ok: "good s \<Longrightarrow> put_ok_pre i (view s) \<Longrightarrow> put_ok s i = Ok s' \<Longrightarrow> good s'"
  using put_ok_sim [of s i s'] listing_ok_put_ok by (auto simp: good_def put_ok_pre_def)

lemma good_rm: "good s \<Longrightarrow> rm_pre i (view s) \<Longrightarrow> rm s i = Ok s' \<Longrightarrow> good s'"
  using rm_sim [of s i s'] listing_ok_rm by (auto simp: good_def rm_pre_def)

text \<open>What is there after an operation: the child, and the entry in its parent.\<close>

lemma mkdir_effect:
  assumes "inv s" "mkdir_pre i (view s)" "mkdir s i = Ok s'"
  shows "view s' (fullpath i) = Some i \<and>
    (\<exists>par. view s' (Inode_parent_path i) = Some par \<and> Inode_filename i \<in> set (sub par))"
  using mkdir_sim [of s i s'] assms abs_parent(4) [of i]
  by (auto simp: mkdir_pre_def ns_mkdir_def dest!: sym [of _ "view s'"])

lemma put_ok_effect:
  assumes "inv s" "put_ok_pre i (view s)" "fullpath i \<noteq> ''/''" "put_ok s i = Ok s'"
  shows "(\<exists>f. view s' (fullpath i) = Some f \<and> valid f \<and> \<not> is_directory f \<and> sub f = sub i \<and>
      filesize f = filesize i \<and> ddl_lock f = 0) \<and>
    (\<exists>par. view s' (Inode_parent_path i) = Some par \<and> Inode_filename i \<in> set (sub par))"
proof -
  have i: "abs_inode i" "kind (view s) (fullpath i) = Some False"
    using assms(2) by (simp_all add: put_ok_pre_def)
  moreover have "simplify_path (fullpath i) = fullpath i" using i(1) by (simp add: abs_inode_def inode_ok_def)
  ultimately show ?thesis
    using put_ok_sim [of s i s'] assms abs_parent(4) [of i] ns_current_kind [of "fullpath i" "view s"]
    by (auto simp: ns_put_ok_def dest!: sym [of _ "view s'"])
qed

lemma rm_effect:
  assumes "inv s" "rm_pre i (view s)" "rm s i = Ok s'"
  shows "kind (view s') (fullpath i) = None \<and>
    (fullpath i \<noteq> ''/'' \<longrightarrow> (\<exists>par. view s' (Inode_parent_path i) = Some par \<and>
       filename_of (fullpath i) \<notin> set (sub par) \<and> filename_of (fullpath i) @ ''/'' \<notin> set (sub par)))"
proof -
  obtain par where s': "view s' = (view s)(Inode_parent_path i \<mapsto>
      erase_sub (Inode_filename i @ ''/'') (erase_sub (Inode_filename i) par), fullpath i \<mapsto> i)"
    using rm_sim [of s i s'] assms by (auto simp: rm_pre_def ns_rm_def dest!: sym [of _ "view s'"])
  have "Inode_filename i = filename_of (fullpath i)" using assms(2) by (simp add: rm_pre_def Inode_filename_def)
  with s' show ?thesis using assms(2) abs_parent(4) [of i] by (auto simp: rm_pre_def)
qed

end

end
