(* ===== verification/Agg_Inodes.thy ===== *)
theory Agg_Inodes
  imports Json
begin

unbundle bit_operations_syntax

text \<open>
  Aggregated files: \<^verbatim>\<open>include/common/agg_inode.h\<close> and \<^verbatim>\<open>src/common/agg_inode.cpp\<close>.

  Small files are stored together in one block; the \<open>AggInode\<close> lists them with their positions and
  validity. Its identifier comes from \<open>SnowflakeIDGenerator\<close>: the milliseconds since an epoch in
  the high bits, ten bits for the machine and twelve for a sequence number. The clock is a list of
  readings that the generator consumes; \<open>waitForNextMillis\<close> reads until the clock has moved, and
  the model answers \<open>None\<close> when the readings run out first.
\<close>

section \<open>Identifiers\<close>

record SnowflakeIDGenerator =
  sf_epoch :: int
  sf_machineId :: int
  sf_sequence :: int
  sf_lastTimestamp :: int

definition new_generator :: "int \<Rightarrow> SnowflakeIDGenerator" where
  "new_generator machineId = \<lparr>sf_epoch = 1609459200000, sf_machineId = machineId, sf_sequence = 0,
     sf_lastTimestamp = -1\<rparr>"

fun waitForNextMillis :: "int \<Rightarrow> int list \<Rightarrow> (int \<times> int list) option" where
  "waitForNextMillis lastTimestamp [] = None"
| "waitForNextMillis lastTimestamp (timestamp # clock) =
     (if timestamp \<le> lastTimestamp then waitForNextMillis lastTimestamp clock
      else Some (timestamp, clock))"

definition snowflake_word :: "int \<Rightarrow> int \<Rightarrow> int \<Rightarrow> int \<Rightarrow> u64" where
  "snowflake_word timestamp epoch mach sequence =
     push_bit 22 (word_of_int (timestamp - epoch))
       OR word_of_int (to_int32 (push_bit 12 mach)) OR word_of_int sequence"

fun hex_digit :: "nat \<Rightarrow> char" where
  "hex_digit n = (if n < 10 then char_of (48 + n) else char_of (87 + n))"

fun nat_to_hex :: "nat \<Rightarrow> string" where
  "nat_to_hex n = (if n < 16 then [hex_digit n] else nat_to_hex (n div 16) @ [hex_digit (n mod 16)])"

declare nat_to_hex.simps [simp del]

text \<open>The sequence number wraps at \<^verbatim>\<open>sequenceMask_\<close>, 4095.\<close>

definition generateID ::
  "SnowflakeIDGenerator \<Rightarrow> int list \<Rightarrow> (string \<times> SnowflakeIDGenerator \<times> int list) option" where
  "generateID g clock =
     (case clock of
        [] \<Rightarrow> None
      | timestamp # rest \<Rightarrow>
          (let (seq, next) =
             (if timestamp = sf_lastTimestamp g then
                (let s = (sf_sequence g + 1) AND 4095
                 in (s, if s = 0 then waitForNextMillis (sf_lastTimestamp g) rest
                        else Some (timestamp, rest)))
              else (0, Some (timestamp, rest)))
           in (case next of
                 None \<Rightarrow> None
               | Some (ts, rest') \<Rightarrow>
                   Some (nat_to_hex (unat (snowflake_word ts (sf_epoch g) (sf_machineId g) seq)),
                         g\<lparr>sf_sequence := seq, sf_lastTimestamp := ts\<rparr>, rest'))))"

section \<open>The aggregate inode\<close>

record FileInfo =
  fi_path :: string
  fi_size :: u64
  fi_pos :: "int \<times> int"
  fi_task_ptr :: "nat option"

record AggInode =
  agg_id :: string
  agg_files :: "FileInfo list"
  aggregate_size :: u64
  agg_valid :: "bool list"
  valid_count :: int

definition getFilePath :: "AggInode \<Rightarrow> int \<Rightarrow> string" where
  "getFilePath a index =
     (if 0 \<le> index \<and> index < int (length (agg_files a)) then fi_path (agg_files a ! nat index) else [])"

definition getFileSize :: "AggInode \<Rightarrow> int \<Rightarrow> int" where
  "getFileSize a index =
     (if 0 \<le> index \<and> index < int (length (agg_files a))
      then to_int32 (uint (fi_size (agg_files a ! nat index))) else -1)"

definition getFilePos :: "AggInode \<Rightarrow> int \<Rightarrow> int \<times> int" where
  "getFilePos a index =
     (if 0 \<le> index \<and> index < int (length (agg_files a)) then fi_pos (agg_files a ! nat index)
      else (-1, -1))"

definition setFileUnValid :: "AggInode \<Rightarrow> int \<Rightarrow> AggInode" where
  "setFileUnValid a index =
     (if 0 \<le> index \<and> index < int (length (agg_valid a))
      then a\<lparr>agg_valid := (agg_valid a)[nat index := False], valid_count := valid_count a - 1\<rparr>
      else a)"

section \<open>JSON form\<close>

definition FileInfo_to_json :: "FileInfo \<Rightarrow> json" where
  "FileInfo_to_json f = JObj [(''path'', JStr (fi_path f)),
     (''pos'', JArr [JInt (fst (fi_pos f)), JInt (snd (fi_pos f))]),
     (''size'', JInt (uint (fi_size f)))]"

definition FileInfo_from_json :: "json \<Rightarrow> FileInfo outcome" where
  "FileInfo_from_json j =
     bindO (json_at j ''path'') (\<lambda>a. bindO (get_string a) (\<lambda>p.
     bindO (json_at j ''size'') (\<lambda>b. bindO (get_uint64 b) (\<lambda>s.
     bindO (json_at j ''pos'') (\<lambda>c.
     bindO (json_elem c 0) (\<lambda>x. bindO (get_int x) (\<lambda>first.
     bindO (json_elem c 1) (\<lambda>y. bindO (get_int y) (\<lambda>second.
       Ok \<lparr>fi_path = p, fi_size = s, fi_pos = (first, second), fi_task_ptr = None\<rparr>)))))))))"

definition AggInode_to_json :: "AggInode \<Rightarrow> json" where
  "AggInode_to_json a = JObj [(''aggregate_size'', JInt (uint (aggregate_size a))),
     (''files'', JArr (map FileInfo_to_json (agg_files a))),
     (''id'', JStr (agg_id a)),
     (''valid'', JArr (map JBool (agg_valid a))),
     (''valid_count'', JInt (valid_count a))]"

definition AggInode_from_json :: "json \<Rightarrow> AggInode outcome" where
  "AggInode_from_json j =
     bindO (json_at j ''id'') (\<lambda>a. bindO (get_string a) (\<lambda>i.
     bindO (json_at j ''files'') (\<lambda>b. bindO (get_array b) (\<lambda>fs. bindO (mapO FileInfo_from_json fs) (\<lambda>files.
     bindO (json_at j ''aggregate_size'') (\<lambda>c. bindO (get_uint64 c) (\<lambda>sz.
     bindO (json_at j ''valid'') (\<lambda>d. bindO (get_bool_list d) (\<lambda>v.
     bindO (json_at j ''valid_count'') (\<lambda>e. bindO (get_int e) (\<lambda>n.
       Ok \<lparr>agg_id = i, agg_files = files, aggregate_size = sz, agg_valid = v, valid_count = n\<rparr>)))))))))))"

definition AggInode_value :: "('a json_lib_scheme) \<Rightarrow> AggInode \<Rightarrow> string" where
  "AggInode_value L a = jdump L (AggInode_to_json a)"

section \<open>Lemmas\<close>

definition fileinfo_ok :: "FileInfo \<Rightarrow> bool" where
  "fileinfo_ok f \<longleftrightarrow> in_int (fst (fi_pos f)) \<and> in_int (snd (fi_pos f)) \<and> fi_task_ptr f = None"

definition agg_ok :: "AggInode \<Rightarrow> bool" where
  "agg_ok a \<longleftrightarrow> (\<forall>f\<in>set (agg_files a). fileinfo_ok f) \<and> in_int (valid_count a)"

lemma FileInfo_from_to_json: "fileinfo_ok f \<Longrightarrow> FileInfo_from_json (FileInfo_to_json f) = Ok f"
  by (cases f) (simp add: FileInfo_from_json_def FileInfo_to_json_def fileinfo_ok_def json_elem_def
      to_int32_id)

interpretation file_json: codec FileInfo_to_json FileInfo_from_json fileinfo_ok
  by unfold_locales (rule FileInfo_from_to_json)

lemma AggInode_from_to_json: "agg_ok a \<Longrightarrow> AggInode_from_json (AggInode_to_json a) = Ok a"
  by (simp add: AggInode_from_json_def AggInode_to_json_def agg_ok_def to_int32_id
      file_json.mapO_dec_enc)

interpretation agg_json: codec AggInode_to_json AggInode_from_json agg_ok
  by unfold_locales (rule AggInode_from_to_json)

lemma json_ok_AggInode:
  assumes "ascii (agg_id a)" "\<forall>f\<in>set (agg_files a). ascii (fi_path f)"
  shows "json_ok (AggInode_to_json a)"
proof -
  have "list_all json_ok (map FileInfo_to_json (agg_files a))"
    using assms(2) by (auto simp: list_all_iff FileInfo_to_json_def less_char_def ascii_Cons)
  then show ?thesis using assms(1) by (simp add: AggInode_to_json_def less_char_def ascii_Cons)
qed

text \<open>The counter follows the flags as long as a valid entry is invalidated.\<close>

definition count_ok :: "AggInode \<Rightarrow> bool" where
  "count_ok a \<longleftrightarrow> length (agg_valid a) = length (agg_files a) \<and>
     valid_count a = int (length (filter id (agg_valid a)))"

lemma filter_update_False:
  "i < length bs \<Longrightarrow> bs ! i \<Longrightarrow> Suc (length (filter id (bs[i := False]))) = length (filter id bs)"
proof (induction bs arbitrary: i)
  case (Cons b bs)
  then show ?case by (cases i) auto
qed simp

lemma setFileUnValid_count:
  assumes "count_ok a" "0 \<le> i" "i < int (length (agg_valid a))" "agg_valid a ! nat i"
  shows "count_ok (setFileUnValid a i)"
proof -
  have "Suc (length (filter id ((agg_valid a)[nat i := False]))) = length (filter id (agg_valid a))"
    by (rule filter_update_False) (use assms in linarith, fact)
  then have "int (length (filter id ((agg_valid a)[nat i := False]))) = valid_count a - 1"
    using assms(1) by (simp add: count_ok_def)
  with assms show ?thesis by (simp add: count_ok_def setFileUnValid_def)
qed

subsection \<open>The bits of an identifier\<close>

lemma or_push_add:
  fixes a b :: int
  assumes "0 \<le> b" "b < 2 ^ n"
  shows "push_bit n a OR b = a * 2 ^ n + b"
proof -
  have b: "take_bit n b = b" using assms by (simp add: take_bit_int_eq_self)
  have "push_bit n a + b = push_bit n a OR b"
    by (rule disjunctive_add, subst b [symmetric]) (auto simp: bit_simps)
  then show ?thesis by (simp add: push_bit_eq_mult)
qed

lemma word_of_int_bits:
  "push_bit n (word_of_int x :: u64) OR word_of_int y OR word_of_int z
     = word_of_int (push_bit n x OR (y OR z))"
  by (auto simp: bit_eq_iff bit_simps)

lemma word_of_int_mod: "(word_of_int x :: u64) = word_of_int y \<Longrightarrow> x mod 2 ^ 64 = y mod 2 ^ 64"
  by (simp add: word_of_int_eq_iff take_bit_eq_mod)

lemma snowflake_word_eq:
  assumes "0 \<le> m" "m < 1024" "0 \<le> s" "s < 4096"
  shows "snowflake_word t e m s = word_of_int ((t - e) * 2 ^ 22 + (m * 2 ^ 12 + s))"
proof -
  have m: "to_int32 (push_bit 12 m) = push_bit 12 m"
    using assms by (intro to_int32_id) (simp add: in_int_def INT_MIN_def INT_MAX_def push_bit_eq_mult)
  have "snowflake_word t e m s = word_of_int (push_bit 22 (t - e) OR (push_bit 12 m OR s))"
    unfolding snowflake_word_def m by (rule word_of_int_bits)
  also have "push_bit 12 m OR s = m * 2 ^ 12 + s" by (rule or_push_add) (use assms in simp_all)
  also have "push_bit 22 (t - e) OR (m * 2 ^ 12 + s) = (t - e) * 2 ^ 22 + (m * 2 ^ 12 + s)"
    by (rule or_push_add) (use assms in simp_all)
  finally show ?thesis .
qed

lemma snowflake_word_inject:
  assumes "0 \<le> m" "m < 1024" "0 \<le> s" "s < 4096" "0 \<le> s'" "s' < 4096" "\<bar>t - t'\<bar> < 2 ^ 42"
    and eq: "snowflake_word t e m s = snowflake_word t' e m s'"
  shows "t = t' \<and> s = s'"
proof -
  let ?x = "(t - e) * 2 ^ 22 + (m * 2 ^ 12 + s)" and ?y = "(t' - e) * 2 ^ 22 + (m * 2 ^ 12 + s')"
  have "(word_of_int ?x :: u64) = word_of_int ?y" using eq assms by (simp only: snowflake_word_eq)
  then obtain k where k: "?x - ?y = k * 2 ^ 64"
    by (metis word_of_int_mod mod_eq_dvd_iff dvd_def mult.commute)
  have d: "?x - ?y = (t - t') * 2 ^ 22 + (s - s')" by (simp add: algebra_simps)
  have "- (2 ^ 64) < ?x - ?y \<and> ?x - ?y < 2 ^ 64" unfolding d using assms by (simp add: abs_less_iff)
  with k have "k = 0" by simp
  with k d have "(t - t') * 2 ^ 22 + (s - s') = 0" by simp
  moreover from this have "t = t'" using assms by (cases t t' rule: linorder_cases) simp_all
  ultimately show ?thesis by simp
qed

lemma and_4095: "(i :: int) AND 4095 = i mod 4096"
proof -
  have "(4095 :: int) = mask 12" by (simp add: mask_eq_exp_minus_1)
  then show ?thesis by (simp only: take_bit_eq_mask [symmetric]) (simp add: take_bit_eq_mod)
qed

lemma nat_to_hex_nonempty: "nat_to_hex n \<noteq> []" "[] \<noteq> nat_to_hex n"
  by (subst nat_to_hex.simps, simp)+

lemma hex_digit_inject: "m < 16 \<Longrightarrow> n < 16 \<Longrightarrow> hex_digit m = hex_digit n \<longleftrightarrow> m = n"
  by (auto split: if_splits)

lemma nat_to_hex_inject: "nat_to_hex m = nat_to_hex n \<longleftrightarrow> m = n"
proof
  show "nat_to_hex m = nat_to_hex n \<Longrightarrow> m = n"
  proof (induction m arbitrary: n rule: nat_to_hex.induct)
    case (1 m)
    show ?case
    proof (cases "m < 16 \<or> n < 16")
      case True
      then have "m < 16 \<and> n < 16"
        using "1.prems" by (subst (asm) (1 2) nat_to_hex.simps)
          (auto split: if_splits simp: nat_to_hex_nonempty simp del: hex_digit.simps)
      with "1.prems" show ?thesis
        by (subst (asm) (1 2) nat_to_hex.simps) (simp add: hex_digit_inject del: hex_digit.simps)
    next
      case False
      then have "nat_to_hex (m div 16) = nat_to_hex (n div 16) \<and> hex_digit (m mod 16) = hex_digit (n mod 16)"
        using "1.prems" by (subst (asm) (1 2) nat_to_hex.simps) (simp del: hex_digit.simps)
      then have "m div 16 = n div 16" "m mod 16 = n mod 16"
        using "1.IH" False hex_digit_inject [of "m mod 16" "n mod 16"] by (auto simp del: hex_digit.simps)
      then show ?thesis by (metis div_mult_mod_eq)
    qed
  qed
qed simp

subsection \<open>Identifiers are unique per generator\<close>

text \<open>What a generator state must satisfy for the fields not to overlap, and what the readings of a
  steady clock satisfy from that state on.\<close>

definition gen_ok :: "SnowflakeIDGenerator \<Rightarrow> bool" where
  "gen_ok g \<longleftrightarrow> 0 \<le> sf_machineId g \<and> sf_machineId g < 1024 \<and> 0 \<le> sf_sequence g \<and> sf_sequence g < 4096"

definition clock_ok :: "SnowflakeIDGenerator \<Rightarrow> int list \<Rightarrow> bool" where
  "clock_ok g clock \<longleftrightarrow> sorted clock \<and> (\<forall>t\<in>set clock. sf_lastTimestamp g \<le> t)"

definition gen_id :: "SnowflakeIDGenerator \<Rightarrow> string" where
  "gen_id g = nat_to_hex (unat (snowflake_word (sf_lastTimestamp g) (sf_epoch g) (sf_machineId g) (sf_sequence g)))"

definition gen_before :: "SnowflakeIDGenerator \<Rightarrow> SnowflakeIDGenerator \<Rightarrow> bool" where
  "gen_before g g' \<longleftrightarrow> sf_lastTimestamp g < sf_lastTimestamp g' \<or>
     sf_lastTimestamp g = sf_lastTimestamp g' \<and> sf_sequence g < sf_sequence g'"

lemma waitForNextMillis_later:
  "waitForNextMillis l clock = Some (t, clock') \<Longrightarrow>
     l < t \<and> t \<in> set clock \<and> set clock' \<subseteq> set clock \<and>
     (sorted clock \<longrightarrow> sorted clock' \<and> (\<forall>u\<in>set clock'. t \<le> u))"
  by (induction l clock rule: waitForNextMillis.induct) (auto split: if_splits)

lemma next_sequence: "0 \<le> s \<Longrightarrow> s < 4096 \<Longrightarrow> (s + 1) mod 4096 \<noteq> 0 \<Longrightarrow> s < (s + 1) mod 4096" for s :: int
  by (cases "s = 4095") simp_all

lemma generateID_step:
  assumes "generateID g clock = Some (s, g', clock')" "gen_ok g" "clock_ok g clock"
  shows "s = gen_id g' \<and> gen_ok g' \<and> clock_ok g' clock' \<and> gen_before g g' \<and>
    sf_lastTimestamp g' \<in> set clock \<and> set clock' \<subseteq> set clock \<and>
    sf_epoch g' = sf_epoch g \<and> sf_machineId g' = sf_machineId g"
  using assms
  by (auto simp: generateID_def gen_id_def gen_ok_def clock_ok_def gen_before_def and_4095 Let_def
      split: list.splits if_splits option.splits dest!: waitForNextMillis_later intro: next_sequence)

text \<open>The identifiers that successive calls return.\<close>

fun generateIDs :: "nat \<Rightarrow> SnowflakeIDGenerator \<Rightarrow> int list \<Rightarrow> string list option" where
  "generateIDs 0 g clock = Some []"
| "generateIDs (Suc n) g clock =
     (case generateID g clock of
        None \<Rightarrow> None
      | Some (s, g', clock') \<Rightarrow> map_option ((#) s) (generateIDs n g' clock'))"

lemma gen_before_id:
  assumes "gen_ok g" "gen_ok g'" "gen_before g g'" "sf_epoch g' = sf_epoch g" "sf_machineId g' = sf_machineId g"
    "\<bar>sf_lastTimestamp g - sf_lastTimestamp g'\<bar> < 2 ^ 42"
  shows "gen_id g \<noteq> gen_id g'"
  using assms snowflake_word_inject [of "sf_machineId g" "sf_sequence g" "sf_sequence g'"
      "sf_lastTimestamp g" "sf_lastTimestamp g'" "sf_epoch g"]
  by (auto simp: gen_id_def gen_ok_def gen_before_def nat_to_hex_inject simp flip: word_unat_eq_iff)

lemma generateIDs_later:
  assumes "generateIDs n g clock = Some ids" "gen_ok g" "clock_ok g clock" "s \<in> set ids"
  shows "\<exists>g'. s = gen_id g' \<and> gen_ok g' \<and> gen_before g g' \<and> sf_lastTimestamp g' \<in> set clock \<and>
    sf_epoch g' = sf_epoch g \<and> sf_machineId g' = sf_machineId g"
  using assms
proof (induction n g clock arbitrary: ids rule: generateIDs.induct)
  case (2 n g clock)
  then obtain s0 g1 clock1 ids1 where
    gen: "generateID g clock = Some (s0, g1, clock1)" "generateIDs n g1 clock1 = Some ids1" "ids = s0 # ids1"
    by (auto split: option.splits)
  note step = generateID_step [OF gen(1) "2.prems"(2,3)]
  show ?case
  proof (cases "s = s0")
    case True
    with step show ?thesis by blast
  next
    case False
    with "2.prems"(4) gen(3) have "s \<in> set ids1" by simp
    then obtain g' where "s = gen_id g'" "gen_ok g'" "gen_before g1 g'" "sf_lastTimestamp g' \<in> set clock1"
      "sf_epoch g' = sf_epoch g1" "sf_machineId g' = sf_machineId g1"
      using "2.IH" [OF gen(1) refl refl gen(2)] step by auto
    with step show ?thesis by (intro exI [of _ g']) (auto simp: gen_before_def)
  qed
qed simp

lemma generateIDs_distinct:
  assumes "generateIDs n g clock = Some ids" "gen_ok g" "clock_ok g clock"
    "\<And>t u. t \<in> set clock \<Longrightarrow> u \<in> set clock \<Longrightarrow> \<bar>t - u\<bar> < 2 ^ 42"
  shows "distinct ids"
  using assms
proof (induction n g clock arbitrary: ids rule: generateIDs.induct)
  case (2 n g clock)
  then obtain s0 g1 clock1 ids1 where
    gen: "generateID g clock = Some (s0, g1, clock1)" "generateIDs n g1 clock1 = Some ids1" "ids = s0 # ids1"
    by (auto split: option.splits)
  note step = generateID_step [OF gen(1) "2.prems"(2,3)]
  have "s0 \<notin> set ids1"
  proof
    assume "s0 \<in> set ids1"
    then obtain g' where "s0 = gen_id g'" "gen_ok g'" "gen_before g1 g'" "sf_lastTimestamp g' \<in> set clock1"
      "sf_epoch g' = sf_epoch g1" "sf_machineId g' = sf_machineId g1"
      using generateIDs_later [OF gen(2)] step by blast
    moreover from this step have "\<bar>sf_lastTimestamp g1 - sf_lastTimestamp g'\<bar> < 2 ^ 42"
      by (intro "2.prems"(4)) auto
    ultimately show False using gen_before_id [of g1 g'] step by metis
  qed
  moreover have "distinct ids1"
    using "2.IH" [OF gen(1) refl refl gen(2)] step "2.prems"(4) by blast
  ultimately show ?case using gen(3) by simp
qed simp

end
