(* ===== verification/Rocks_Db.thy ===== *)
theory Rocks_Db
  imports Namespaces Agg_Inodes
begin

text \<open>
  The metadata store of a name node: \<^verbatim>\<open>include/node/rocksdb.h\<close> and \<^verbatim>\<open>src/node/rocksdb.cpp\<close>.

  The RocksDB library is not part of the repository. Its operations are fields of the record
  \<open>libs\<close>, next to the JSON library: a read (\<open>kv_get\<close>), an atomic batch write (\<open>kv_write\<close>), opening
  the database, and the backup engine. \<open>kv_ok\<close> says what the code relies on: a write that succeeds
  makes the last value put for a key the one that is read. \<open>um_order\<close> is the iteration order of
  a \<^verbatim>\<open>std::unordered_map\<close>, which the standard leaves open.

  Every member function of the class is one definition. The ones that write return the new state;
  a thrown exception leaves the state as it was, because each of them writes once, at its end.
  A failed \<^verbatim>\<open>assert\<close> is \<open>Abort\<close>. What the store means is \<open>fs\<close>, the map from paths to inodes; the
  interpretation of \<open>namespace_store\<close> shows that the operations do on that map what \<open>ns_mkdir\<close>,
  \<open>ns_put\<close>, \<open>ns_put_ok\<close> and \<open>ns_rm\<close> say.
\<close>

section \<open>The library below\<close>

datatype kv_result = Found string | NotFound | Failed string

record ('db, 'bk) libs = json_lib +
  kv_get :: "'db \<Rightarrow> string \<Rightarrow> kv_result"
  kv_write :: "'db \<Rightarrow> (string \<times> string) list \<Rightarrow> string + 'db"
  kv_open :: "'db \<Rightarrow> string + 'db"
  kv_backup :: "'db \<Rightarrow> 'bk \<Rightarrow> string + 'bk"
  kv_restore :: "'bk \<Rightarrow> string + 'db"
  um_order :: "(path \<times> Inode) list \<Rightarrow> (path \<times> Inode) list"

text \<open>A batch is applied in order, so the last value of a key counts.\<close>

definition kv_ok :: "('db, 'bk) libs \<Rightarrow> bool" where
  "kv_ok L \<longleftrightarrow> (\<forall>d b d'. kv_write L d b = Inr d' \<longrightarrow>
     (\<forall>k. kv_get L d' k = (case map_of (rev b) k of Some v \<Rightarrow> Found v | None \<Rightarrow> kv_get L d k)))"

definition kv_live :: "('db, 'bk) libs \<Rightarrow> bool" where
  "kv_live L \<longleftrightarrow> (\<forall>d b. \<exists>d'. kv_write L d b = Inr d')"

definition backup_ok :: "('db, 'bk) libs \<Rightarrow> bool" where
  "backup_ok L \<longleftrightarrow>
     (\<forall>d b b'. kv_backup L d b = Inr b' \<longrightarrow> (\<exists>d'. kv_restore L b' = Inr d' \<and> kv_get L d' = kv_get L d)) \<and>
     (\<forall>d d'. kv_open L d = Inr d' \<longrightarrow> kv_get L d' = kv_get L d)"

definition order_ok :: "('db, 'bk) libs \<Rightarrow> bool" where
  "order_ok L \<longleftrightarrow> (\<forall>xs. distinct (map fst xs) \<longrightarrow>
     set (um_order L xs) = set xs \<and> distinct (map fst (um_order L xs)))"

section \<open>State\<close>

text \<open>\<open>origin\<close> is the content of \<^verbatim>\<open>origin_dir\<close>, \<open>db_ready\<close> says that \<^verbatim>\<open>db_ptr\<close> is not null,
  \<open>backup_engine\<close> is the content of \<^verbatim>\<open>backup_dir\<close>.\<close>

record ('db, 'bk) RocksDB =
  origin :: 'db
  db_ready :: bool
  backup_engine :: 'bk

definition db_open :: "('db, 'bk) libs \<Rightarrow> ('db, 'bk) RocksDB \<Rightarrow> ('db, 'bk) RocksDB outcome" where
  "db_open L r =
     (case kv_open L (origin r) of
        Inl e \<Rightarrow> Abort e
      | Inr d \<Rightarrow> Ok (r\<lparr>origin := d, db_ready := True\<rparr>))"

definition db_close :: "('db, 'bk) RocksDB \<Rightarrow> ('db, 'bk) RocksDB" where
  "db_close r = r\<lparr>db_ready := False\<rparr>"

definition new_RocksDB :: "('db, 'bk) libs \<Rightarrow> 'db \<Rightarrow> string + 'bk \<Rightarrow> ('db, 'bk) RocksDB outcome" where
  "new_RocksDB L d engine =
     (case engine of
        Inl e \<Rightarrow> Abort e
      | Inr b \<Rightarrow> db_open L \<lparr>origin = d, db_ready = False, backup_engine = b\<rparr>)"

definition not_ready :: "string \<Rightarrow> exn" where
  "not_ready func = RuntimeError (func @ ''db not ready'')"

definition db_snapshot :: "('db, 'bk) libs \<Rightarrow> ('db, 'bk) RocksDB \<Rightarrow> ('db, 'bk) RocksDB outcome" where
  "db_snapshot L r =
     bindO (guardO (db_ready r) (RuntimeError ''db not ready'')) (\<lambda>_.
     case kv_backup L (origin r) (backup_engine r) of
       Inl e \<Rightarrow> Abort e
     | Inr b \<Rightarrow> Ok (r\<lparr>backup_engine := b\<rparr>))"

definition load_snapshot :: "('db, 'bk) libs \<Rightarrow> ('db, 'bk) RocksDB \<Rightarrow> ('db, 'bk) RocksDB outcome" where
  "load_snapshot L r =
     (case kv_restore L (backup_engine r) of
        Inl e \<Rightarrow> Abort e
      | Inr d \<Rightarrow> db_open L ((db_close r)\<lparr>origin := d\<rparr>))"

section \<open>Reading\<close>

definition path_exists :: "('db, 'bk) libs \<Rightarrow> ('db, 'bk) RocksDB \<Rightarrow> path \<Rightarrow> bool outcome" where
  "path_exists L r p =
     (if p = ''/'' then Ok True
      else bindO (guardO (db_ready r) (not_ready ''path_exists'')) (\<lambda>_.
        case kv_get L (origin r) p of
          NotFound \<Rightarrow> Ok False
        | Failed _ \<Rightarrow> Throw (RuntimeError ''unknown error rocksdb get()'')
        | Found v \<Rightarrow> bindO (Inode_of_text L v) (\<lambda>tmpInode. Ok (valid tmpInode))))"

definition try_to_rm :: "('db, 'bk) libs \<Rightarrow> ('db, 'bk) RocksDB \<Rightarrow> Inode \<Rightarrow> unit outcome" where
  "try_to_rm L r inode =
     bindO (path_exists L r (fullpath inode)) (\<lambda>e.
     guardO e (MessageException PATH_NOT_EXISTS_EXCEPTION (fullpath inode)))"

definition try_to_add :: "('db, 'bk) libs \<Rightarrow> ('db, 'bk) RocksDB \<Rightarrow> Inode \<Rightarrow> unit outcome" where
  "try_to_add L r inode =
     bindO (path_exists L r (Inode_parent_path inode)) (\<lambda>e.
     bindO (guardO e (MessageException PATH_NOT_EXISTS_EXCEPTION (Inode_parent_path inode))) (\<lambda>_.
     bindO (path_exists L r (fullpath inode)) (\<lambda>e'.
     guardO (\<not> e') (MessageException PATH_EXISTS_EXCEPTION (fullpath inode)))))"

text \<open>The in/out argument: what is found replaces it, otherwise only the flags are set.\<close>

definition get_inode :: "('db, 'bk) libs \<Rightarrow> ('db, 'bk) RocksDB \<Rightarrow> Inode \<Rightarrow> Inode outcome" where
  "get_inode L r inode =
     bindO (guardO (db_ready r) (not_ready ''get_inode'')) (\<lambda>_.
     case kv_get L (origin r) (fullpath inode) of
       NotFound \<Rightarrow>
         (if fullpath inode = ''/'' then Ok (inode\<lparr>is_directory := True, valid := True\<rparr>)
          else Ok (inode\<lparr>valid := False\<rparr>))
     | Failed e \<Rightarrow> Throw (RuntimeError e)
     | Found v \<Rightarrow> Inode_of_text L v)"

definition db_ls :: "('db, 'bk) libs \<Rightarrow> ('db, 'bk) RocksDB \<Rightarrow> Inode \<Rightarrow> Inode outcome" where
  "db_ls L r inode =
     bindO (get_inode L r inode) (\<lambda>i.
     bindO (guardO (valid i) (MessageException PATH_NOT_EXISTS_EXCEPTION (fullpath i))) (\<lambda>_. Ok i))"

definition db_get :: "('db, 'bk) libs \<Rightarrow> ('db, 'bk) RocksDB \<Rightarrow> Inode \<Rightarrow> Inode outcome" where
  "db_get L r inode =
     bindO (guardO (db_ready r) (not_ready ''get'')) (\<lambda>_.
     bindO (get_inode L r inode) (\<lambda>i.
     bindO (guardO (valid i) (MessageException PATH_NOT_EXISTS_EXCEPTION (fullpath i))) (\<lambda>_.
     bindO (guardO (\<not> is_directory i) (RuntimeError ''cannot get directory'')) (\<lambda>_. Ok i))))"

text \<open>The \<^verbatim>\<open>assert\<close> on the parent path.\<close>

definition get_parent_inode :: "('db, 'bk) libs \<Rightarrow> ('db, 'bk) RocksDB \<Rightarrow> Inode \<Rightarrow> Inode outcome" where
  "get_parent_inode L r inode =
     (case kv_get L (origin r) (Inode_parent_path inode) of
        NotFound \<Rightarrow>
          (if Inode_parent_path inode = ''/'' then Ok (get_default_dir ''/'')
           else Abort ''inode.parent_path() == \"/\"'')
      | Found v \<Rightarrow> Inode_of_text L v
      | Failed e \<Rightarrow> Throw (RuntimeError (''parent add sub, internal get not ok'' @ e)))"

section \<open>Checks before an operation is proposed\<close>

definition prepare_mkdir :: "('db, 'bk) libs \<Rightarrow> ('db, 'bk) RocksDB \<Rightarrow> Inode \<Rightarrow> Inode outcome" where
  "prepare_mkdir L r inode =
     bindO (guardO (db_ready r) (not_ready ''prepare_mkdir'')) (\<lambda>_.
     bindO (try_to_add L r inode) (\<lambda>_. Ok inode))"

definition prepare_put ::
  "('db, 'bk) libs \<Rightarrow> u64 \<Rightarrow> ('db, 'bk) RocksDB \<Rightarrow> Inode \<Rightarrow> Inode outcome" where
  "prepare_put L now r inode =
     bindO (guardO (db_ready r) (not_ready ''prepare_put'')) (\<lambda>_.
     bindO (get_inode L r inode) (\<lambda>i.
     bindO (guardO (\<not> (valid i \<and> is_directory i))
       (MessageException PATH_EXISTS_EXCEPTION (fullpath i))) (\<lambda>_.
     Inode_lock now (i\<lparr>is_directory := False, valid := True\<rparr>))))"

definition prepare_put_ok :: "('db, 'bk) libs \<Rightarrow> ('db, 'bk) RocksDB \<Rightarrow> Inode \<Rightarrow> Inode outcome" where
  "prepare_put_ok L r inode =
     bindO (guardO (db_ready r) (not_ready ''prepare_put_ok'')) (\<lambda>_.
     bindO (get_inode L r inode) (\<lambda>i.
     bindO (guardO (valid i) (MessageException PATH_NOT_EXISTS_EXCEPTION (fullpath i))) (\<lambda>_.
     bindO (guardO (\<not> is_directory i) (MessageException EXPECTED_FILE_EXCEPTION (fullpath i))) (\<lambda>_.
     Ok i))))"

definition prepare_rm :: "('db, 'bk) libs \<Rightarrow> ('db, 'bk) RocksDB \<Rightarrow> Inode \<Rightarrow> Inode outcome" where
  "prepare_rm L r inode = bindO (try_to_rm L r inode) (\<lambda>_. Ok (inode\<lparr>valid := False\<rparr>))"

section \<open>Writing\<close>

text \<open>\<^verbatim>\<open>db_ptr->Write(WriteOptions(), &batch)\<close> and the check of its status; a single \<^verbatim>\<open>Put\<close> is a
  batch of one.\<close>

definition db_write ::
  "('db, 'bk) libs \<Rightarrow> ('db, 'bk) RocksDB \<Rightarrow> string \<Rightarrow> (string \<times> string) list \<Rightarrow> ('db, 'bk) RocksDB outcome" where
  "db_write L r msg batch =
     (case kv_write L (origin r) batch of
        Inl e \<Rightarrow> Throw (RuntimeError (msg @ e))
      | Inr d \<Rightarrow> Ok (r\<lparr>origin := d\<rparr>))"

definition inode_kv :: "('db, 'bk) libs \<Rightarrow> Inode \<Rightarrow> string \<times> string" where
  "inode_kv L inode = (fullpath inode, Inode_value L inode)"

text \<open>The aggregate inode is changed in a local variable only; the inode it looks for is a fresh
  one, whose path is empty.\<close>

fun first_file :: "AggInode \<Rightarrow> path \<Rightarrow> nat list \<Rightarrow> AggInode" where
  "first_file a p [] = a"
| "first_file a p (i # is) =
     (if getFilePath a (int i) = p then setFileUnValid a (int i) else first_file a p is)"

definition agg_rm :: "('db, 'bk) libs \<Rightarrow> ('db, 'bk) RocksDB \<Rightarrow> path \<Rightarrow> unit outcome" where
  "agg_rm L r p =
     bindO (guardO (db_ready r) (not_ready ''agg_rm'')) (\<lambda>_.
     bindO (get_inode L r ((new_inode [])\<lparr>fullpath := []\<rparr>)) (\<lambda>inode.
     if agg_inode_id inode = [] then Ok ()
     else
       (let value = (case kv_get L (origin r) (agg_inode_id inode) of Found v \<Rightarrow> v | _ \<Rightarrow> [])
        in bindO (json_parse L value) (\<lambda>j. bindO (AggInode_from_json j) (\<lambda>aggInode.
           let aggInode' = first_file aggInode p [0..<length (agg_files aggInode)] in Ok ())))))"

definition internal_rm ::
  "('db, 'bk) libs \<Rightarrow> ('db, 'bk) RocksDB \<Rightarrow> Inode \<Rightarrow> ('db, 'bk) RocksDB outcome" where
  "internal_rm L r inode =
     bindO (guardO (db_ready r) (not_ready ''internal_rm'')) (\<lambda>_.
     bindO (get_parent_inode L r inode) (\<lambda>parent_inode.
     bindO (agg_rm L r (fullpath inode)) (\<lambda>_.
     let p1 = erase_sub (Inode_filename inode) parent_inode;
         p2 = erase_sub (Inode_filename inode @ ''/'') p1
     in db_write L r ''batch write not ok!'' [inode_kv L p2, inode_kv L inode])))"

definition internal_put_ok ::
  "('db, 'bk) libs \<Rightarrow> ('db, 'bk) RocksDB \<Rightarrow> Inode \<Rightarrow> ('db, 'bk) RocksDB outcome" where
  "internal_put_ok L r inode =
     bindO (guardO (db_ready r) (not_ready ''internal_put_ok'')) (\<lambda>_.
     bindO (get_parent_inode L r inode) (\<lambda>parent_inode.
     bindO (get_inode L r (new_inode (fullpath inode))) (\<lambda>db_inode.
     db_write L r ''batch write not ok''
       [inode_kv L (push_sub (Inode_filename inode) parent_inode),
        inode_kv L (put_ok_inode inode db_inode)])))"

definition internal_put_agg ::
  "('db, 'bk) libs \<Rightarrow> ('db, 'bk) RocksDB \<Rightarrow> AggInode \<Rightarrow> ('db, 'bk) RocksDB outcome" where
  "internal_put_agg L r inode =
     bindO (guardO (db_ready r) (not_ready ''internal_put_agg'')) (\<lambda>_.
     db_write L r ''internal put_agg not ok'' [(agg_id inode, AggInode_value L inode)])"

definition internal_put ::
  "('db, 'bk) libs \<Rightarrow> ('db, 'bk) RocksDB \<Rightarrow> Inode \<Rightarrow> ('db, 'bk) RocksDB outcome" where
  "internal_put L r inode =
     bindO (guardO (db_ready r) (not_ready ''internal_put'')) (\<lambda>_.
     db_write L r ''internal put not ok'' [inode_kv L inode])"

definition internal_put_batch ::
  "('db, 'bk) libs \<Rightarrow> ('db, 'bk) RocksDB \<Rightarrow> Inode list \<Rightarrow> ('db, 'bk) RocksDB outcome" where
  "internal_put_batch L r inodes =
     bindO (guardO (db_ready r) (not_ready ''internal_put_batch '')) (\<lambda>_.
     db_write L r ''internal put batch not ok: '' (map (inode_kv L) inodes))"

text \<open>The map \<^verbatim>\<open>parent_inodes\<close> as an association list: each parent is read once.\<close>

fun read_parents ::
  "('db, 'bk) libs \<Rightarrow> ('db, 'bk) RocksDB \<Rightarrow> Inode list \<Rightarrow> (path \<times> Inode) list \<Rightarrow> (path \<times> Inode) list outcome" where
  "read_parents L r [] ps = Ok ps"
| "read_parents L r (inode # inodes) ps =
     (if map_of ps (Inode_parent_path inode) = None
      then bindO (get_parent_inode L r inode) (\<lambda>parent.
           read_parents L r inodes (ps @ [(Inode_parent_path inode, parent)]))
      else read_parents L r inodes ps)"

fun update_parent :: "path \<Rightarrow> (Inode \<Rightarrow> Inode) \<Rightarrow> (path \<times> Inode) list \<Rightarrow> (path \<times> Inode) list" where
  "update_parent p f [] = []"
| "update_parent p f ((q, i) # ps) = (if p = q then (q, f i) # ps else (q, i) # update_parent p f ps)"

fun put_ok_loop ::
  "('db, 'bk) libs \<Rightarrow> ('db, 'bk) RocksDB \<Rightarrow> Inode list \<Rightarrow> (path \<times> Inode) list \<Rightarrow> (string \<times> string) list
     \<Rightarrow> ((path \<times> Inode) list \<times> (string \<times> string) list) outcome" where
  "put_ok_loop L r [] ps batch = Ok (ps, batch)"
| "put_ok_loop L r (inode # inodes) ps batch =
     (let ps' = update_parent (Inode_parent_path inode) (push_sub (Inode_filename inode)) ps
      in bindO (get_inode L r (new_inode (fullpath inode))) (\<lambda>db_inode.
         put_ok_loop L r inodes ps' (batch @ [inode_kv L (put_ok_agg_inode inode db_inode)])))"

definition internal_put_ok_batch ::
  "('db, 'bk) libs \<Rightarrow> ('db, 'bk) RocksDB \<Rightarrow> Inode list \<Rightarrow> ('db, 'bk) RocksDB outcome" where
  "internal_put_ok_batch L r inodes =
     bindO (guardO (db_ready r) (not_ready ''internal_put_ok_batch '')) (\<lambda>_.
     bindO (read_parents L r inodes []) (\<lambda>parents.
     bindO (put_ok_loop L r inodes parents []) (\<lambda>(parents', batch).
     db_write L r ''batch write not ok: '' (batch @ map (inode_kv L \<circ> snd) (um_order L parents')))))"

definition internal_mkdir ::
  "('db, 'bk) libs \<Rightarrow> ('db, 'bk) RocksDB \<Rightarrow> Inode \<Rightarrow> ('db, 'bk) RocksDB outcome" where
  "internal_mkdir L r inode =
     bindO (guardO (db_ready r) (not_ready ''internal_mkdir'')) (\<lambda>_.
     bindO (get_parent_inode L r inode) (\<lambda>parent_inode.
     db_write L r ''batch write not ok''
       [inode_kv L (push_sub (Inode_filename inode) parent_inode), inode_kv L inode]))"

section \<open>What the store means\<close>

definition fs :: "('db, 'bk) libs \<Rightarrow> ('db, 'bk) RocksDB \<Rightarrow> inode_map" where
  "fs L r p =
     (if is_rooted p then
        (case kv_get L (origin r) p of
           Found v \<Rightarrow> (case Inode_of_text L v of Ok i \<Rightarrow> Some i | _ \<Rightarrow> None)
         | _ \<Rightarrow> None)
      else None)"

text \<open>Under an absolute path there is nothing, or the text of an inode with that path. Nothing is
  stored under the empty key. Identifiers of aggregates are keys too; they are not absolute paths.\<close>

definition wf_db :: "('db, 'bk) libs \<Rightarrow> ('db, 'bk) RocksDB \<Rightarrow> bool" where
  "wf_db L r \<longleftrightarrow> db_ready r \<and> kv_get L (origin r) [] = NotFound \<and>
     (\<forall>p. is_rooted p \<longrightarrow> kv_get L (origin r) p = NotFound \<or>
        (\<exists>i. inode_ok i \<and> fullpath i = p \<and> kv_get L (origin r) p = Found (Inode_value L i)))"

definition libs_ok :: "('db, 'bk) libs \<Rightarrow> bool" where
  "libs_ok L \<longleftrightarrow> codec_ok L \<and> kv_ok L \<and> order_ok L"

definition db_inv :: "('db, 'bk) libs \<Rightarrow> ('db, 'bk) RocksDB \<Rightarrow> bool" where
  "db_inv L r \<longleftrightarrow> libs_ok L \<and> wf_db L r"

lemma db_inv_ready: "db_inv L r \<Longrightarrow> db_ready r"
  by (simp add: db_inv_def wf_db_def)

lemma db_inv_get:
  assumes "db_inv L r" "is_rooted p"
  shows "(case fs L r p of
      None \<Rightarrow> kv_get L (origin r) p = NotFound
    | Some i \<Rightarrow> inode_ok i \<and> fullpath i = p \<and> kv_get L (origin r) p = Found (Inode_value L i) \<and>
        Inode_of_text L (Inode_value L i) = Ok i)"
  using assms Inode_text [of L] by (auto simp: db_inv_def libs_ok_def wf_db_def fs_def)

lemma fs_Some:
  assumes "db_inv L r" "fs L r p = Some i"
  shows "abs_inode i \<and> fullpath i = p"
proof -
  have "is_rooted p" using assms(2) by (simp add: fs_def split: if_splits)
  with db_inv_get [OF assms(1) this] assms(2) show ?thesis by (simp add: abs_inode_def)
qed

text \<open>What the reading functions return, in terms of the map.\<close>

lemma get_inode_fs:
  assumes "db_inv L r" "is_rooted (fullpath i)"
  shows "get_inode L r i = Ok (ns_current (fs L r) i)"
  using db_inv_get [OF assms] db_inv_ready [OF assms(1)]
  by (auto simp: get_inode_def ns_current_def split: option.splits)

lemma path_exists_fs:
  assumes "db_inv L r" "is_rooted p"
  shows "path_exists L r p = Ok (p = ''/'' \<or> kind (fs L r) p \<noteq> None)"
  using db_inv_get [OF assms] db_inv_ready [OF assms(1)]
  by (auto simp: path_exists_def kind_def split: option.splits)

lemma get_parent_inode_fs:
  assumes "db_inv L r" "is_rooted (Inode_parent_path i)"
  shows "get_parent_inode L r i =
    (case ns_parent (fs L r) i of Some par \<Rightarrow> Ok par | None \<Rightarrow> Abort ''inode.parent_path() == \"/\"'')"
  using db_inv_get [OF assms] by (auto simp: get_parent_inode_def ns_parent_def split: option.splits)

lemma abs_inode_root: "abs_inode (get_default_dir ''/'')" "fullpath (get_default_dir ''/'') = ''/''"
proof -
  have "simplify_path ''/'' = ''/''" using simplify_abs_path [of "[]"] by (simp add: abs_names_def)
  then show "fullpath (get_default_dir ''/'') = ''/''" by (simp add: get_default_dir_def new_inode_def)
  then show "abs_inode (get_default_dir ''/'')"
    using inode_ok_default_dir [of "''/''"] by (simp add: abs_inode_def is_rooted_def ascii_Cons)
qed

lemma ns_parent_fs:
  assumes "db_inv L r" "ns_parent (fs L r) i = Some par"
  shows "abs_inode par \<and> fullpath par = Inode_parent_path i"
proof (cases "fs L r (Inode_parent_path i)")
  case None
  with assms(2) have "Inode_parent_path i = ''/''" "par = get_default_dir ''/''"
    by (simp_all add: ns_parent_def split: if_splits)
  with abs_inode_root show ?thesis by simp
next
  case (Some j)
  with assms fs_Some [OF assms(1) Some] show ?thesis by (simp add: ns_parent_def)
qed

lemma ns_current_fs:
  assumes "db_inv L r" "abs_inode i"
  shows "abs_inode (ns_current (fs L r) i) \<and> fullpath (ns_current (fs L r) i) = fullpath i"
proof (cases "fs L r (fullpath i)")
  case None
  with assms(2) show ?thesis by (auto simp: ns_current_def abs_inode_def)
next
  case (Some j)
  from fs_Some [OF assms(1) Some] show ?thesis by (simp add: ns_current_def Some)
qed

text \<open>The look-up in \<open>agg_rm\<close> finds nothing, so the function does nothing.\<close>

lemma agg_rm_nothing: "db_inv L r \<Longrightarrow> agg_rm L r p = Ok ()"
  by (simp add: agg_rm_def get_inode_def db_inv_def wf_db_def new_inode_def)

section \<open>Writing and the map\<close>

definition put_all :: "inode_map \<Rightarrow> Inode list \<Rightarrow> inode_map" where
  "put_all m is = foldl (\<lambda>m i. m(fullpath i \<mapsto> i)) m is"

lemma put_all_simps [simp]:
  "put_all m [] = m" "put_all m (i # is) = put_all (m(fullpath i \<mapsto> i)) is"
  by (simp_all add: put_all_def)

lemma put_all_append: "put_all m (is @ js) = put_all (put_all m is) js"
  by (simp add: put_all_def)

lemma put_all_snoc: "put_all m (is @ [i]) = (put_all m is)(fullpath i \<mapsto> i)"
  by (simp add: put_all_append)

lemma map_of_inode_kv:
  "map_of (rev (map (inode_kv L) is)) k = map_option (Inode_value L) (put_all Map.empty is k)"
  by (induction "is" rule: rev_induct) (auto simp: inode_kv_def put_all_snoc)

lemma put_all_add: "put_all m is = m ++ put_all Map.empty is"
  by (induction "is" rule: rev_induct) (simp_all only: put_all_snoc put_all_simps map_add_empty map_add_upd)

lemma put_all_Some: "put_all Map.empty is k = Some i \<Longrightarrow> i \<in> set is \<and> fullpath i = k"
  by (induction "is" rule: rev_induct) (auto simp: put_all_snoc split: if_splits)

lemma put_all_None: "put_all Map.empty is k = None \<longleftrightarrow> k \<notin> fullpath ` set is"
  by (induction "is" rule: rev_induct) (auto simp: put_all_snoc)

lemma put_all_notin: "k \<notin> fullpath ` set is \<Longrightarrow> put_all m is k = m k"
  by (induction "is" arbitrary: m) auto

lemma kv_write_inodes:
  assumes "kv_ok L" "kv_write L d (map (inode_kv L) is) = Inr d'"
  shows "kv_get L d' k =
    (case put_all Map.empty is k of Some i \<Rightarrow> Found (Inode_value L i) | None \<Rightarrow> kv_get L d k)"
  using assms unfolding kv_ok_def by (simp add: map_of_inode_kv split: option.splits)

lemma db_write_inodes:
  assumes inv: "db_inv L r" and ok: "\<And>i. i \<in> set is \<Longrightarrow> abs_inode i"
    and w: "db_write L r msg (map (inode_kv L) is) = Ok r'"
  shows "db_inv L r' \<and> fs L r' = put_all (fs L r) is"
proof -
  let ?u = "put_all Map.empty is"
  have L: "codec_ok L" "kv_ok L" using inv by (simp_all add: db_inv_def libs_ok_def)
  obtain d where d: "kv_write L (origin r) (map (inode_kv L) is) = Inr d" "r' = r\<lparr>origin := d\<rparr>"
    using w by (auto simp: db_write_def split: sum.splits)
  note get = kv_write_inodes [OF L(2) d(1)]
  have u: "abs_inode i" "fullpath i = k" if "?u k = Some i" for k i
    using put_all_Some [OF that] ok by auto
  have empty: "?u [] = None" using u [of "[]"] by (cases "?u []") (auto simp: abs_inode_def is_rooted_def)
  have p: "kv_get L d p = NotFound \<or> (\<exists>i. inode_ok i \<and> fullpath i = p \<and> kv_get L d p = Found (Inode_value L i))"
    if "is_rooted p" for p
  proof (cases "?u p")
    case None
    with that inv show ?thesis by (simp add: get db_inv_def wf_db_def)
  next
    case (Some i)
    with u [OF Some] show ?thesis by (auto simp: get abs_inode_def)
  qed
  have "db_inv L r'"
    using inv p by (simp add: db_inv_def wf_db_def d(2) get empty)
  moreover have "fs L r' p = (fs L r ++ ?u) p" for p
  proof (cases "?u p")
    case None
    then show ?thesis by (simp add: fs_def d(2) get map_add_def)
  next
    case (Some i)
    with u [OF Some] L(1) show ?thesis by (auto simp: fs_def d(2) get abs_inode_def Inode_text)
  qed
  ultimately show ?thesis by (subst put_all_add) (auto simp: fun_eq_iff)
qed

lemma db_write_live: "kv_live L \<Longrightarrow> \<exists>r'. db_write L r msg batch = Ok r'"
  unfolding kv_live_def db_write_def by (metis sum.case(2))

lemmas db_op_defs = internal_mkdir_def internal_put_def internal_put_ok_def internal_rm_def

text \<open>Each writing operation, reduced to the one batch it writes.\<close>

lemma internal_mkdir_write:
  assumes "db_inv L r" "abs_inode i"
  shows "internal_mkdir L r i =
    (case ns_parent (fs L r) i of
       None \<Rightarrow> Abort ''inode.parent_path() == \"/\"''
     | Some par \<Rightarrow> db_write L r ''batch write not ok'' (map (inode_kv L) [push_sub (Inode_filename i) par, i]))"
  using get_parent_inode_fs [OF assms(1) abs_parent(1) [OF assms(2)]] db_inv_ready [OF assms(1)]
  by (simp add: internal_mkdir_def split: option.splits)

lemma internal_put_ok_write:
  assumes "db_inv L r" "abs_inode i"
  shows "internal_put_ok L r i =
    (case ns_parent (fs L r) i of
       None \<Rightarrow> Abort ''inode.parent_path() == \"/\"''
     | Some par \<Rightarrow> db_write L r ''batch write not ok'' (map (inode_kv L) [push_sub (Inode_filename i) par,
         put_ok_inode i (ns_current (fs L r) (new_inode (fullpath i)))]))"
proof -
  have "fullpath (new_inode (fullpath i)) = fullpath i"
    using assms(2) by (simp add: new_inode_def abs_inode_def inode_ok_def)
  then show ?thesis
    using get_parent_inode_fs [OF assms(1) abs_parent(1) [OF assms(2)]] db_inv_ready [OF assms(1)]
      get_inode_fs [OF assms(1), of "new_inode (fullpath i)"] assms(2)
    by (simp add: internal_put_ok_def abs_inode_def split: option.splits)
qed

lemma internal_rm_write:
  assumes "db_inv L r" "abs_inode i"
  shows "internal_rm L r i =
    (case ns_parent (fs L r) i of
       None \<Rightarrow> Abort ''inode.parent_path() == \"/\"''
     | Some par \<Rightarrow> db_write L r ''batch write not ok!'' (map (inode_kv L)
         [erase_sub (Inode_filename i @ ''/'') (erase_sub (Inode_filename i) par), i]))"
  using get_parent_inode_fs [OF assms(1) abs_parent(1) [OF assms(2)]] db_inv_ready [OF assms(1)]
    agg_rm_nothing [OF assms(1)]
  by (simp add: internal_rm_def Let_def split: option.splits)

lemma abs_inode_new: "abs_inode i \<Longrightarrow> abs_inode (new_inode (fullpath i)) \<and> fullpath (new_inode (fullpath i)) = fullpath i"
  using inode_ok_new [of "fullpath i"] by (auto simp: abs_inode_def inode_ok_def new_inode_def)

lemma abs_inode_updates:
  "abs_inode i \<Longrightarrow> ascii n \<Longrightarrow> abs_inode (push_sub n i)"
  "abs_inode i \<Longrightarrow> abs_inode (erase_sub n i)"
  "abs_inode i \<Longrightarrow> abs_inode d \<Longrightarrow> abs_inode (put_ok_inode i d)"
  "abs_inode i \<Longrightarrow> abs_inode d \<Longrightarrow> abs_inode (put_ok_agg_inode i d)"
  by (simp_all add: abs_inode_def inode_ok_push_sub inode_ok_erase_sub inode_ok_put_ok inode_ok_put_ok_agg)

text \<open>A batch of two: the parent of an inode, then an inode with the path of the first.\<close>

lemma db_write_two:
  assumes inv: "db_inv L r" and i: "abs_inode i" and par: "ns_parent (fs L r) i = Some par"
    and up: "abs_inode (f par)" "fullpath (f par) = fullpath par" and c: "abs_inode c" "fullpath c = fullpath i"
    and w: "db_write L r msg (map (inode_kv L) [f par, c]) = Ok r'"
  shows "db_inv L r' \<and> fs L r' = (fs L r)(Inode_parent_path i \<mapsto> f par, fullpath i \<mapsto> c)"
proof -
  have "abs_inode j" if "j \<in> set [f par, c]" for j using that up c by auto
  from db_write_inodes [OF inv this w] show ?thesis using up c ns_parent_fs [OF inv par] by simp
qed

interpretation db: namespace_store "fs L" "db_inv L" "internal_mkdir L" "internal_put L"
  "internal_put_ok L" "internal_rm L" for L :: "('db, 'bk) libs"
proof unfold_locales
  fix r r' :: "('db, 'bk) RocksDB" and i
  assume inv: "db_inv L r" and i: "abs_inode i"
  let ?c = "put_ok_inode i (ns_current (fs L r) (new_inode (fullpath i)))"
  have c: "abs_inode ?c" "fullpath ?c = fullpath i"
    using ns_current_fs [OF inv conjunct1 [OF abs_inode_new [OF i]]] abs_inode_new [OF i] i
    by (simp_all add: abs_inode_updates)
  note two = db_write_two [OF inv i]
  show "db_inv L r' \<and> ns_mkdir i (fs L r) = Some (fs L r')" if "internal_mkdir L r i = Ok r'"
  proof (cases "ns_parent (fs L r) i")
    case (Some par)
    with that two [OF Some, of "push_sub (Inode_filename i)" i] show ?thesis
      using i conjunct1 [OF ns_parent_fs [OF inv Some]] ascii_Inode_filename [OF i]
      by (simp add: internal_mkdir_write [OF inv i] ns_mkdir_def abs_inode_updates)
  qed (use that internal_mkdir_write [OF inv i] in simp)
  show "db_inv L r' \<and> ns_put i (fs L r) = Some (fs L r')" if "internal_put L r i = Ok r'"
    using that db_write_inodes [OF inv, of "[i]"] i db_inv_ready [OF inv]
    by (simp add: internal_put_def ns_put_def)
  show "db_inv L r' \<and> ns_put_ok i (fs L r) = Some (fs L r')" if "internal_put_ok L r i = Ok r'"
  proof (cases "ns_parent (fs L r) i")
    case (Some par)
    have "abs_inode (push_sub (Inode_filename i) par)"
      using conjunct1 [OF ns_parent_fs [OF inv Some]] ascii_Inode_filename [OF i]
      by (rule abs_inode_updates)
    from two [of par "push_sub (Inode_filename i)", OF Some this _ c] show ?thesis
      using that by (simp only: internal_put_ok_write [OF inv i] ns_put_ok_def Some) simp
  qed (use that internal_put_ok_write [OF inv i] in simp)
  show "db_inv L r' \<and> ns_rm i (fs L r) = Some (fs L r')" if "internal_rm L r i = Ok r'"
  proof (cases "ns_parent (fs L r) i")
    case (Some par)
    with that two [OF Some,
        of "\<lambda>par. erase_sub (Inode_filename i @ ''/'') (erase_sub (Inode_filename i) par)" i] show ?thesis
      using i conjunct1 [OF ns_parent_fs [OF inv Some]]
      by (simp add: internal_rm_write [OF inv i] ns_rm_def abs_inode_updates)
  qed (use that internal_rm_write [OF inv i] in simp)
qed

section \<open>The batch version of put_ok\<close>

text \<open>The reference: the files one after the other. \<open>internal_put_ok_batch\<close> reads every parent once and
  writes everything at the end.\<close>

definition ns_put_ok_agg :: "Inode \<Rightarrow> inode_map \<Rightarrow> inode_map option" where
  "ns_put_ok_agg i m = map_option (\<lambda>par.
     m(Inode_parent_path i \<mapsto> push_sub (Inode_filename i) par,
       fullpath i \<mapsto> put_ok_agg_inode i (ns_current m (new_inode (fullpath i))))) (ns_parent m i)"

fun ns_put_ok_seq :: "Inode list \<Rightarrow> inode_map \<Rightarrow> inode_map option" where
  "ns_put_ok_seq [] m = Some m"
| "ns_put_ok_seq (i # is) m = Option.bind (ns_put_ok_agg i m) (ns_put_ok_seq is)"

definition parent_at :: "inode_map \<Rightarrow> path \<Rightarrow> Inode option" where
  "parent_at m q = (case m q of Some j \<Rightarrow> Some j | None \<Rightarrow> if q = ''/'' then Some (get_default_dir ''/'') else None)"

lemma ns_parent_at: "ns_parent m i = parent_at m (Inode_parent_path i)"
  by (simp add: ns_parent_def parent_at_def)

lemma parent_at_upd: "parent_at (m(p \<mapsto> i)) q = (if q = p then Some i else parent_at m q)"
  by (simp add: parent_at_def)

lemma map_of_update_parent:
  "map_of (update_parent p f ps) q = (if q = p then map_option f (map_of ps p) else map_of ps q)"
  by (induction p f ps rule: update_parent.induct) auto

lemma keys_update_parent: "map fst (update_parent p f ps) = map fst ps"
  by (induction p f ps rule: update_parent.induct) auto

text \<open>The files of one batch: distinct, and none of them is the parent of another.\<close>

definition batch_ok :: "Inode list \<Rightarrow> bool" where
  "batch_ok is \<longleftrightarrow> list_all abs_inode is \<and> distinct (map fullpath is) \<and>
     (\<forall>i\<in>set is. \<forall>j\<in>set is. fullpath i \<noteq> Inode_parent_path j)"

lemma read_parents_fs:
  assumes "db_inv L r" "list_all abs_inode is" "read_parents L r is ps = Ok ps'" "distinct (map fst ps)"
    "\<And>q par. (q, par) \<in> set ps \<Longrightarrow> parent_at (fs L r) q = Some par"
  shows "distinct (map fst ps') \<and> (\<forall>(q, par)\<in>set ps'. parent_at (fs L r) q = Some par) \<and>
    fst ` set ps' = fst ` set ps \<union> Inode_parent_path ` set is"
  using assms
proof (induction "is" arbitrary: ps)
  case (Cons i "is")
  note par = get_parent_inode_fs [OF Cons.prems(1) abs_parent(1), of i]
  show ?case
  proof (cases "map_of ps (Inode_parent_path i)")
    case None
    then obtain p where p: "parent_at (fs L r) (Inode_parent_path i) = Some p"
      "read_parents L r is (ps @ [(Inode_parent_path i, p)]) = Ok ps'"
      using Cons.prems(2,3) par by (auto simp: outcome_simps ns_parent_at split: option.splits)
    have "Inode_parent_path i \<notin> fst ` set ps" using None by (simp add: map_of_eq_None_iff)
    moreover have "parent_at (fs L r) q = Some par"
      if "(q, par) \<in> set (ps @ [(Inode_parent_path i, p)])" for q par
      using that p(1) Cons.prems(5) by auto
    ultimately show ?thesis
      using Cons.IH [OF Cons.prems(1) _ p(2)] Cons.prems(2,4) by auto
  next
    case (Some p)
    then have "Inode_parent_path i \<in> fst ` set ps" by (metis domI dom_map_of_conv_image_fst)
    with Some Cons.IH [OF Cons.prems(1) _ _ Cons.prems(4)] Cons.prems show ?thesis by auto
  qed
qed auto

definition parents_ok :: "(path \<times> Inode) list \<Rightarrow> bool" where
  "parents_ok ps \<longleftrightarrow> (\<forall>(q, par)\<in>set ps. fullpath par = q \<and> abs_inode par)"

lemma parents_ok_update:
  "parents_ok ps \<Longrightarrow> ascii n \<Longrightarrow> parents_ok (update_parent p (push_sub n) ps)"
  by (induction p "push_sub n" ps rule: update_parent.induct) (auto simp: parents_ok_def abs_inode_updates)

lemma put_ok_loop_parents:
  "put_ok_loop L r is ps b = Ok (ps', b') \<Longrightarrow> list_all abs_inode is \<Longrightarrow> parents_ok ps \<Longrightarrow> parents_ok ps'"
  by (induction L r "is" ps b rule: put_ok_loop.induct)
    (auto simp: outcome_simps Let_def parents_ok_update ascii_Inode_filename)

lemma parent_at_fs:
  assumes "db_inv L r" "parent_at (fs L r) q = Some par"
  shows "fullpath par = q \<and> abs_inode par"
  using assms abs_inode_root fs_Some [OF assms(1), of q par]
  by (auto simp: parent_at_def split: option.splits if_splits)

text \<open>After some files of the batch: the cached parents are those of the sequential execution, and
  the rest of the map is the old one with the files written so far.\<close>

definition batch_inv :: "inode_map \<Rightarrow> (path \<times> Inode) list \<Rightarrow> Inode list \<Rightarrow> inode_map \<Rightarrow> bool" where
  "batch_inv m ps cs mk \<longleftrightarrow> (\<forall>q\<in>fst ` set ps. parent_at mk q = map_of ps q) \<and>
     (\<forall>q. q \<notin> fst ` set ps \<longrightarrow> mk q = put_all m cs q)"

lemma batch_inv_step:
  assumes inv: "batch_inv m ps cs mk" and pp: "Inode_parent_path i \<in> fst ` set ps"
    and fp: "fullpath i \<notin> fst ` set ps" "fullpath i \<notin> fullpath ` set cs"
    and abs: "abs_inode i" and cfp: "fullpath (ns_current m (new_inode (fullpath i))) = fullpath i"
  shows "\<exists>mk'. ns_put_ok_agg i mk = Some mk' \<and>
    batch_inv m (update_parent (Inode_parent_path i) (push_sub (Inode_filename i)) ps)
      (cs @ [put_ok_agg_inode i (ns_current m (new_inode (fullpath i)))]) mk' \<and>
    dom mk \<subseteq> dom mk' \<and> Inode_parent_path i \<in> dom mk'"
proof -
  let ?pp = "Inode_parent_path i" and ?fp = "fullpath i"
  let ?c = "put_ok_agg_inode i (ns_current m (new_inode ?fp))"
  have new: "fullpath (new_inode ?fp) = ?fp" using abs_inode_new [OF abs] by simp
  obtain par where par: "map_of ps ?pp = Some par"
    using pp by (metis domD dom_map_of_conv_image_fst)
  with inv pp have parent: "ns_parent mk i = Some par" unfolding batch_inv_def ns_parent_at by metis
  have "mk ?fp = m ?fp"
    using inv fp by (simp add: batch_inv_def put_all_notin)
  then have cur: "ns_current mk (new_inode ?fp) = ns_current m (new_inode ?fp)"
    by (simp add: ns_current_def new)
  have ne: "?pp \<noteq> ?fp" using pp fp(1) by metis
  have keys: "fst ` set (update_parent p f ps) = fst ` set ps" for p f
    using keys_update_parent [of p f ps] by (metis list.set_map)
  let ?mk = "mk(?pp \<mapsto> push_sub (Inode_filename i) par, ?fp \<mapsto> ?c)"
  have "ns_put_ok_agg i mk = Some ?mk" by (simp add: ns_put_ok_agg_def parent cur)
  moreover have "batch_inv m (update_parent ?pp (push_sub (Inode_filename i)) ps) (cs @ [?c]) ?mk"
    unfolding batch_inv_def keys
  proof (intro conjI ballI allI impI)
    fix q assume "q \<in> fst ` set ps"
    moreover from this fp(1) have "q \<noteq> ?fp" by metis
    ultimately show "parent_at ?mk q = map_of (update_parent ?pp (push_sub (Inode_filename i)) ps) q"
      using inv par by (auto simp: batch_inv_def map_of_update_parent parent_at_upd)
  next
    fix q assume "q \<notin> fst ` set ps"
    moreover from this pp have "q \<noteq> ?pp" by metis
    ultimately show "?mk q = put_all m (cs @ [?c]) q"
      using inv cfp by (simp add: batch_inv_def put_all_snoc)
  qed
  ultimately show ?thesis by auto
qed

lemma put_ok_loop_fs:
  assumes "db_inv L r" "list_all abs_inode is" "put_ok_loop L r is ps (map (inode_kv L) cs) = Ok (ps', b)"
    "batch_inv (fs L r) ps cs mk" "Inode_parent_path ` set is \<subseteq> fst ` set ps"
    "fullpath ` set is \<inter> fst ` set ps = {}" "fullpath ` set is \<inter> fullpath ` set cs = {}"
    "distinct (map fullpath is)" "list_all abs_inode cs"
  shows "\<exists>mk' cs'. ns_put_ok_seq is mk = Some mk' \<and> b = map (inode_kv L) cs' \<and> list_all abs_inode cs' \<and>
    batch_inv (fs L r) ps' cs' mk' \<and> map fst ps' = map fst ps \<and>
    dom mk \<union> Inode_parent_path ` set is \<subseteq> dom mk'"
  using assms
proof (induction "is" arbitrary: ps cs mk)
  case (Cons i "is")
  let ?ps = "update_parent (Inode_parent_path i) (push_sub (Inode_filename i)) ps"
  let ?c = "put_ok_agg_inode i (ns_current (fs L r) (new_inode (fullpath i)))"
  have i: "abs_inode i" "fullpath (new_inode (fullpath i)) = fullpath i" "abs_inode (new_inode (fullpath i))"
    using Cons.prems(2) abs_inode_new [of i] by simp_all
  note cur = ns_current_fs [OF Cons.prems(1) i(3)]
  have "get_inode L r (new_inode (fullpath i)) = Ok (ns_current (fs L r) (new_inode (fullpath i)))"
    using i by (intro get_inode_fs Cons.prems(1)) (simp add: abs_inode_def)
  then have loop: "put_ok_loop L r is ?ps (map (inode_kv L) (cs @ [?c])) = Ok (ps', b)"
    using Cons.prems(3) by (simp add: Let_def)
  obtain mk1 where mk1: "ns_put_ok_agg i mk = Some mk1" "batch_inv (fs L r) ?ps (cs @ [?c]) mk1"
    "dom mk \<subseteq> dom mk1" "Inode_parent_path i \<in> dom mk1"
    using batch_inv_step [OF Cons.prems(4), of i] Cons.prems(5-7) cur i by auto
  have keys: "map fst ?ps = map fst ps" by (rule keys_update_parent)
  then have "fst ` set ?ps = fst ` set ps" by (metis list.set_map)
  moreover have "fullpath ?c = fullpath i" "abs_inode ?c" using cur i by (simp_all add: abs_inode_updates)
  ultimately obtain mk' cs' where "ns_put_ok_seq is mk1 = Some mk'" "b = map (inode_kv L) cs'"
    "list_all abs_inode cs'" "batch_inv (fs L r) ps' cs' mk'" "map fst ps' = map fst ps"
    "dom mk1 \<union> Inode_parent_path ` set is \<subseteq> dom mk'"
    using Cons.IH [OF Cons.prems(1) _ loop mk1(2)] Cons.prems(2,5-9) keys by auto
  with mk1 show ?case by (intro exI [of _ mk'] exI [of _ cs']) auto
qed auto

text \<open>The parents are written last, in an unknown order; their paths are distinct.\<close>

lemma put_all_distinct:
  "distinct (map fullpath is) \<Longrightarrow> i \<in> set is \<Longrightarrow> put_all m is (fullpath i) = Some i"
  by (induction "is" arbitrary: m) (auto simp: put_all_notin)

lemma put_all_parents:
  assumes "parents_ok ps" "distinct (map fst ps)"
  shows "put_all m (map snd ps) q = (if q \<in> fst ` set ps then map_of ps q else m q)"
proof -
  have f: "map fullpath (map snd ps) = map fst ps"
    using assms(1) by (auto simp: parents_ok_def)
  show ?thesis
  proof (cases "q \<in> fst ` set ps")
    case True
    then obtain par where par: "(q, par) \<in> set ps" by auto
    then have "par \<in> set (map snd ps)" "fullpath par = q"
      using assms(1) by (force, auto simp: parents_ok_def)
    then have "put_all m (map snd ps) q = Some par"
      using put_all_distinct [of "map snd ps" par m, unfolded f, OF assms(2)] by simp
    with True map_of_is_SomeI [OF assms(2) par] show ?thesis by simp
  next
    case False
    then have "q \<notin> fullpath ` set (map snd ps)" using f by (metis list.set_map)
    with False show ?thesis by (simp add: put_all_notin)
  qed
qed

lemma internal_put_ok_batch_seq:
  assumes inv: "db_inv L r" and ok: "batch_ok is" and run: "internal_put_ok_batch L r is = Ok r'"
  shows "db_inv L r' \<and> ns_put_ok_seq is (fs L r) = Some (fs L r')"
proof -
  let ?m = "fs L r"
  have abs: "list_all abs_inode is" using ok by (simp add: batch_ok_def)
  obtain ps ps' b where rp: "read_parents L r is [] = Ok ps" and lp: "put_ok_loop L r is ps [] = Ok (ps', b)"
    and w: "db_write L r ''batch write not ok: '' (b @ map (inode_kv L \<circ> snd) (um_order L ps')) = Ok r'"
    using run by (auto simp: internal_put_ok_batch_def outcome_simps)
  from read_parents_fs [OF inv abs rp]
  have ps: "distinct (map fst ps)" "\<forall>(q, par)\<in>set ps. parent_at ?m q = Some par"
    "fst ` set ps = Inode_parent_path ` set is" by simp_all
  have pok: "parents_ok ps" using ps(2) parent_at_fs [OF inv] by (fastforce simp: parents_ok_def)
  have "batch_inv ?m ps [] ?m"
    using ps(1,2) by (force simp: batch_inv_def)
  moreover have "fullpath ` set is \<inter> fst ` set ps = {}" using ok ps(3) by (auto simp: batch_ok_def)
  ultimately
  obtain mk cs where mk: "ns_put_ok_seq is ?m = Some mk" "b = map (inode_kv L) cs" "list_all abs_inode cs"
    "batch_inv ?m ps' cs mk" "map fst ps' = map fst ps" "Inode_parent_path ` set is \<subseteq> dom mk"
    using put_ok_loop_fs [OF inv abs, of ps "[]" ps' b ?m] lp ps(3) ok by (auto simp: batch_ok_def)
  have pok': "parents_ok ps'" using put_ok_loop_parents [OF lp abs pok] .
  have order: "set (um_order L ps') = set ps'" "distinct (map fst (um_order L ps'))"
    using inv ps(1) mk(5) by (auto simp: db_inv_def libs_ok_def order_ok_def)
  then have pord: "parents_ok (um_order L ps')" using pok' by (simp add: parents_ok_def)
  have keys: "fst ` set ps' = fst ` set ps" using mk(5) by (metis list.set_map)
  let ?all = "cs @ map snd (um_order L ps')"
  have "db_write L r ''batch write not ok: '' (map (inode_kv L) ?all) = Ok r'" using w mk(2) by simp
  moreover have "abs_inode i" if "i \<in> set ?all" for i
    using that mk(3) pord by (auto simp: list_all_iff parents_ok_def)
  ultimately have r': "db_inv L r'" "fs L r' = put_all ?m ?all" using db_write_inodes [OF inv] by blast+
  have "fs L r' q = mk q" for q
  proof (cases "q \<in> fst ` set ps")
    case True
    then obtain j where "mk q = Some j" using mk(6) ps(3) by blast
    moreover have "map_of (um_order L ps') q = map_of ps' q"
      using order ps(1) mk(5) by (metis map_of_inject_set distinct_map)
    ultimately show ?thesis
      using r'(2) mk(4) True keys order(1) put_all_parents [OF pord order(2)]
      by (auto simp: put_all_append batch_inv_def parent_at_def)
  next
    case False
    then show ?thesis
      using r'(2) mk(4) keys order(1) put_all_parents [OF pord order(2)]
      by (auto simp: put_all_append batch_inv_def)
  qed
  with r'(1) mk(1) show ?thesis by (simp add: fun_eq_iff)
qed

end
