(* ===== verification/Raft_Nn.thy ===== *)
theory Raft_Nn
  imports Rocks_Db
begin

text \<open>
  The replicated state machine of the name nodes: \<^verbatim>\<open>include/node/raft_nn.h\<close>,
  \<^verbatim>\<open>src/node/raft_nn.cpp\<close>, and the responses of \<^verbatim>\<open>namenode.cpp\<close> that it fills in.

  A log entry is a byte string: the operation code and the JSON text of the inode (or of a list of
  inodes, or of an aggregate inode). \<open>apply_data\<close> is the \<^verbatim>\<open>try\<close> block for one entry, \<open>on_apply\<close> the
  loop over the committed entries. The Raft library is outside: what it delivers is the list of
  entries. The lemmas show that applying a log depends only on what the store reads, so a replica
  that restarts from a snapshot and replays the rest of the log ends where it was.
\<close>

section \<open>Operation codes\<close>

datatype OpType =
    OP_MKDIR | OP_PUT | OP_PUTOK | OP_PUTBATCH | OP_PUTOKBATCH | OP_PUTAGG | OP_RM | OP_UNKNOWN

fun op_code :: "OpType \<Rightarrow> nat" where
  "op_code OP_MKDIR = 0"
| "op_code OP_PUT = 1"
| "op_code OP_PUTOK = 2"
| "op_code OP_PUTBATCH = 3"
| "op_code OP_PUTOKBATCH = 4"
| "op_code OP_PUTAGG = 5"
| "op_code OP_RM = 6"
| "op_code OP_UNKNOWN = 7"

text \<open>The value left in \<^verbatim>\<open>type\<close> after its first byte was overwritten; values without an enumerator go
  to the \<^verbatim>\<open>default\<close> label, like \<open>OP_UNKNOWN\<close>.\<close>

definition op_of_code :: "nat \<Rightarrow> OpType" where
  "op_of_code n = (if n = 0 then OP_MKDIR else if n = 1 then OP_PUT else if n = 2 then OP_PUTOK
     else if n = 3 then OP_PUTBATCH else if n = 4 then OP_PUTOKBATCH else if n = 5 then OP_PUTAGG
     else if n = 6 then OP_RM else OP_UNKNOWN)"

definition task_data :: "OpType \<Rightarrow> string \<Rightarrow> string" where
  "task_data op text = char_of (op_code op) # text"

text \<open>\<^verbatim>\<open>data.cutn(&type, sizeof(uint8_t))\<close> on an empty buffer leaves \<^verbatim>\<open>OP_UNKNOWN\<close>.\<close>

definition cut_type :: "string \<Rightarrow> OpType \<times> string" where
  "cut_type data = (case data of [] \<Rightarrow> (OP_UNKNOWN, []) | c # text \<Rightarrow> (op_of_code (of_char c), text))"

lemma cut_type_task_data [simp]: "cut_type (task_data op text) = (op, text)"
  by (cases op) (simp_all add: cut_type_def task_data_def op_of_code_def)

section \<open>Applying one entry\<close>

definition Inodes_from_json :: "('db, 'bk) libs \<Rightarrow> json \<Rightarrow> Inode list outcome" where
  "Inodes_from_json L j = bindO (get_array j) (mapO (Inode_from_json L))"

definition Inodes_value :: "('db, 'bk) libs \<Rightarrow> Inode list \<Rightarrow> string" where
  "Inodes_value L inodes = jdump L (JArr (map (Inode_to_json L) inodes))"

definition apply_data :: "('db, 'bk) libs \<Rightarrow> ('db, 'bk) RocksDB \<Rightarrow> string \<Rightarrow> ('db, 'bk) RocksDB outcome" where
  "apply_data L db data =
     (let (type, json_str) = cut_type data
      in case jparse L json_str of
           None \<Rightarrow> Throw (RuntimeError ''Invalid JSON format'')
         | Some j \<Rightarrow>
             if type = OP_PUTAGG then bindO (AggInode_from_json j) (internal_put_agg L db)
             else if type = OP_PUTBATCH \<or> type = OP_PUTOKBATCH then
               (if \<not> is_array j
                then Throw (RuntimeError ''Expected a JSON array for OP_PUTBATCH or OP_PUTOKBATCH'')
                else bindO (Inodes_from_json L j) (\<lambda>inodes.
                  if type = OP_PUTBATCH then internal_put_batch L db inodes
                  else internal_put_ok_batch L db inodes))
             else
               bindO (Inode_from_json L j) (\<lambda>inode.
                 case type of
                   OP_MKDIR \<Rightarrow> internal_mkdir L db inode
                 | OP_PUT \<Rightarrow> internal_put L db inode
                 | OP_PUTOK \<Rightarrow> internal_put_ok L db inode
                 | OP_RM \<Rightarrow> internal_rm L db inode
                 | _ \<Rightarrow> Ok db))"

section \<open>Responses\<close>

record Response =
  success :: bool
  fail_info :: "(ERROR_CODE \<times> string) option"

definition new_Response :: Response where
  "new_Response = \<lparr>success = False, fail_info = None\<rparr>"

text \<open>The two overloads of \<open>fail_response\<close>: a \<open>MessageException\<close> carries its own error message, any other
  exception gives \<open>COMMON_EXCEPTION\<close> with the text of \<^verbatim>\<open>what()\<close>.\<close>

fun error_message :: "exn \<Rightarrow> ERROR_CODE \<times> string" where
  "error_message (MessageException c m) = (c, m)"
| "error_message (RuntimeError m) = (COMMON_EXCEPTION, m)"
| "error_message (InvalidArgument m) = (COMMON_EXCEPTION, m)"
| "error_message (OutOfRange m) = (COMMON_EXCEPTION, m)"
| "error_message (OverflowError m) = (COMMON_EXCEPTION, m)"
| "error_message (JsonException m) = (COMMON_EXCEPTION, m)"

definition fail_response :: "Response \<Rightarrow> exn \<Rightarrow> Response" where
  "fail_response response e = response\<lparr>success := False, fail_info := Some (error_message e)\<rparr>"

definition succ_response :: "Response \<Rightarrow> Response" where
  "succ_response response = response\<lparr>success := True\<rparr>"

section \<open>The loop over committed entries\<close>

text \<open>An entry proposed by this replica carries its closure, and with it the response to fill in; an
  entry from elsewhere has none. A failed \<^verbatim>\<open>assert\<close> ends the process.\<close>

fun on_apply ::
  "('db, 'bk) libs \<Rightarrow> ('db, 'bk) RocksDB \<Rightarrow> (string \<times> Response option) list
     \<Rightarrow> (('db, 'bk) RocksDB \<times> Response option list) outcome" where
  "on_apply L db [] = Ok (db, [])"
| "on_apply L db ((data, c) # entries) =
     (case apply_data L db data of
        Ok db' \<Rightarrow> bindO (on_apply L db' entries) (\<lambda>(d, rs). Ok (d, map_option succ_response c # rs))
      | Throw e \<Rightarrow> bindO (on_apply L db entries) (\<lambda>(d, rs). Ok (d, map_option (\<lambda>r. fail_response r e) c # rs))
      | Abort s \<Rightarrow> Abort s)"

definition on_snapshot_save :: "('db, 'bk) libs \<Rightarrow> ('db, 'bk) RocksDB \<Rightarrow> ('db, 'bk) RocksDB outcome" where
  "on_snapshot_save L db = db_snapshot L db"

definition on_snapshot_load :: "('db, 'bk) libs \<Rightarrow> ('db, 'bk) RocksDB \<Rightarrow> (('db, 'bk) RocksDB \<times> int) outcome" where
  "on_snapshot_load L db = bindO (load_snapshot L db) (\<lambda>db'. Ok (db', 0))"

section \<open>Leader and peers\<close>

text \<open>\<^verbatim>\<open>leader_id()\<close> is empty when the library knows no leader.\<close>

definition leader :: "string \<Rightarrow> int \<Rightarrow> PeerId option \<Rightarrow> Node" where
  "leader my_ip nn_port leader_id =
     (case leader_id of
        None \<Rightarrow> default_Node\<lparr>ip := my_ip, port := nn_port\<rparr>
      | Some p \<Rightarrow> from_peerId default_Node p)"

section \<open>What an entry does\<close>

lemma apply_data_inode:
  assumes "codec_ok L" "inode_ok i"
  shows "apply_data L db (task_data OP_MKDIR (Inode_value L i)) = internal_mkdir L db i"
    "apply_data L db (task_data OP_PUT (Inode_value L i)) = internal_put L db i"
    "apply_data L db (task_data OP_PUTOK (Inode_value L i)) = internal_put_ok L db i"
    "apply_data L db (task_data OP_RM (Inode_value L i)) = internal_rm L db i"
proof -
  have "jparse L (Inode_value L i) = Some (Inode_to_json L i)"
    using assms json_ok_Inode [OF assms] by (simp add: Inode_value_def codec_ok_def)
  with Inode_from_to_json [OF assms]
  show "apply_data L db (task_data OP_MKDIR (Inode_value L i)) = internal_mkdir L db i"
    "apply_data L db (task_data OP_PUT (Inode_value L i)) = internal_put L db i"
    "apply_data L db (task_data OP_PUTOK (Inode_value L i)) = internal_put_ok L db i"
    "apply_data L db (task_data OP_RM (Inode_value L i)) = internal_rm L db i"
    by (simp_all add: apply_data_def)
qed

text \<open>The codec of one inode, on JSON values, and of lists of inodes.\<close>

lemma apply_data_inodes:
  assumes "codec_ok L" "list_all inode_ok is"
  shows "apply_data L db (task_data OP_PUTBATCH (Inodes_value L is)) = internal_put_batch L db is"
    "apply_data L db (task_data OP_PUTOKBATCH (Inodes_value L is)) = internal_put_ok_batch L db is"
proof -
  have "json_ok (JArr (map (Inode_to_json L) is))"
    using assms json_ok_Inode [OF assms(1)] by (auto simp: list_all_iff)
  then have parse: "jparse L (Inodes_value L is) = Some (JArr (map (Inode_to_json L) is))"
    using assms(1) by (simp add: Inodes_value_def codec_ok_def)
  have "mapO (Inode_from_json L) (map (Inode_to_json L) is) = Ok is"
    using assms by (induction "is") (simp_all add: Inode_from_to_json)
  with parse show "apply_data L db (task_data OP_PUTBATCH (Inodes_value L is)) = internal_put_batch L db is"
    "apply_data L db (task_data OP_PUTOKBATCH (Inodes_value L is)) = internal_put_ok_batch L db is"
    by (simp_all add: apply_data_def Inodes_from_json_def)
qed

lemma apply_data_agg:
  assumes "codec_ok L" "agg_ok a" "json_ok (AggInode_to_json a)"
  shows "apply_data L db (task_data OP_PUTAGG (AggInode_value L a)) = internal_put_agg L db a"
  using assms by (simp add: apply_data_def AggInode_value_def codec_ok_def agg_json.dec_enc)

section \<open>Replay\<close>

text \<open>Two stores that read the same.\<close>

definition same_db :: "('db, 'bk) libs \<Rightarrow> ('db, 'bk) RocksDB \<Rightarrow> ('db, 'bk) RocksDB \<Rightarrow> bool" where
  "same_db L r r' \<longleftrightarrow> db_ready r = db_ready r' \<and> kv_get L (origin r) = kv_get L (origin r')"

text \<open>Results that are the same up to the representation of the store.\<close>

fun same_out :: "('db, 'bk) libs \<Rightarrow> ('db, 'bk) RocksDB outcome \<Rightarrow> ('db, 'bk) RocksDB outcome \<Rightarrow> bool" where
  "same_out L (Ok r) (Ok r') = same_db L r r'"
| "same_out L (Throw e) (Throw e') = (e = e')"
| "same_out L (Abort s) (Abort s') = (s = s')"
| "same_out L _ _ = False"

lemma same_out_refl [simp]: "same_out L (Throw e) (Throw e)" "same_out L (Abort s) (Abort s)"
  by simp_all

lemma same_out_bind:
  "(\<And>x. m = Ok x \<Longrightarrow> same_out L (f x) (g x)) \<Longrightarrow> same_out L (bindO m f) (bindO m g)"
  by (cases m) auto

lemma same_reads:
  assumes "same_db L r r'"
  shows "get_inode L r i = get_inode L r' i" "get_parent_inode L r i = get_parent_inode L r' i"
    "agg_rm L r p = agg_rm L r' p" "db_ready r = db_ready r'"
  using assms by (simp_all add: same_db_def get_inode_def get_parent_inode_def agg_rm_def cong: if_cong)

lemma same_read_parents: "same_db L r r' \<Longrightarrow> read_parents L r is ps = read_parents L r' is ps"
  by (induction "is" arbitrary: ps) (simp_all add: same_reads cong: if_cong)

lemma same_put_ok_loop: "same_db L r r' \<Longrightarrow> put_ok_loop L r is ps b = put_ok_loop L r' is ps b"
  by (induction "is" arbitrary: ps b) (simp_all add: same_reads [of L r r'])

lemma same_write:
  assumes "kv_ok L" "kv_live L" "same_db L r r'"
  shows "same_out L (db_write L r msg b) (db_write L r' msg b)"
proof -
  obtain d d' where "kv_write L (origin r) b = Inr d" "kv_write L (origin r') b = Inr d'"
    using assms(2) unfolding kv_live_def by metis
  with assms(1,3) show ?thesis
    by (auto simp: kv_ok_def same_db_def db_write_def fun_eq_iff split: option.splits)
qed

lemma same_ops:
  assumes "kv_ok L" "kv_live L" "same_db L r r'"
  shows "same_out L (internal_mkdir L r i) (internal_mkdir L r' i)"
    "same_out L (internal_put L r i) (internal_put L r' i)"
    "same_out L (internal_put_ok L r i) (internal_put_ok L r' i)"
    "same_out L (internal_rm L r i) (internal_rm L r' i)"
    "same_out L (internal_put_agg L r a) (internal_put_agg L r' a)"
    "same_out L (internal_put_batch L r is) (internal_put_batch L r' is)"
    "same_out L (internal_put_ok_batch L r is) (internal_put_ok_batch L r' is)"
  using same_write [OF assms] same_reads [OF assms(3)] same_read_parents [OF assms(3)]
    same_put_ok_loop [OF assms(3)]
  by (auto simp: internal_mkdir_def internal_put_def internal_put_ok_def internal_rm_def
      internal_put_agg_def internal_put_batch_def internal_put_ok_batch_def Let_def
      intro!: same_out_bind)

lemma same_apply_data:
  assumes "kv_ok L" "kv_live L" "same_db L r r'"
  shows "same_out L (apply_data L r data) (apply_data L r' data)"
  using same_ops [OF assms] assms(3)
  by (auto simp: apply_data_def Let_def split: prod.splits option.splits OpType.splits intro!: same_out_bind)

lemma same_on_apply:
  assumes "kv_ok L" "kv_live L" "same_db L r r'" "on_apply L r es = Ok (d, rs)"
  shows "\<exists>d'. on_apply L r' es = Ok (d', rs) \<and> same_db L d d'"
  using assms(3,4)
proof (induction es arbitrary: r r' d rs)
  case (Cons e es)
  obtain data c where e: "e = (data, c)" by fastforce
  note same = same_apply_data [OF assms(1,2) Cons.prems(1), of data]
  show ?case
  proof (cases "apply_data L r data")
    case (Ok r1)
    with same obtain r1' where "apply_data L r' data = Ok r1'" "same_db L r1 r1'"
      by (cases "apply_data L r' data") auto
    with Ok Cons.prems(2) Cons.IH [of r1 r1'] show ?thesis by (fastforce simp: e outcome_simps)
  next
    case (Throw x)
    with same have "apply_data L r' data = Throw x" by (cases "apply_data L r' data") auto
    with Throw Cons.prems Cons.IH [of r r'] show ?thesis by (fastforce simp: e outcome_simps)
  next
    case (Abort x)
    with Cons.prems(2) show ?thesis by (simp add: e)
  qed
qed simp

lemma db_write_backup: "db_write L r msg b = Ok r' \<Longrightarrow> backup_engine r' = backup_engine r"
  by (auto simp: db_write_def split: sum.splits)

lemma apply_data_backup: "apply_data L r data = Ok r' \<Longrightarrow> backup_engine r' = backup_engine r"
  by (auto simp: apply_data_def Let_def outcome_simps internal_mkdir_def internal_put_def
      internal_put_ok_def internal_rm_def internal_put_agg_def internal_put_batch_def
      internal_put_ok_batch_def db_write_backup
      split: prod.splits option.splits if_splits OpType.splits) (metis OpType.exhaust)

lemma on_apply_backup: "on_apply L r es = Ok (r', rs) \<Longrightarrow> backup_engine r' = backup_engine r"
  by (induction L r es arbitrary: rs rule: on_apply.induct)
    (auto simp: outcome_simps apply_data_backup split: outcome.splits)

text \<open>Taking a snapshot, applying some more entries, and then starting again from the snapshot and
  replaying those entries.\<close>

lemma recovery:
  assumes L: "kv_ok L" "kv_live L" "backup_ok L"
    and save: "on_snapshot_save L r = Ok r1" and run: "on_apply L r1 es = Ok (r2, rs)"
    and load: "on_snapshot_load L r2 = Ok (r3, ret)"
  shows "\<exists>r4. on_apply L r3 es = Ok (r4, rs) \<and> same_db L r2 r4"
proof -
  obtain b where b: "kv_backup L (origin r) (backup_engine r) = Inr b" "r1 = r\<lparr>backup_engine := b\<rparr>" "db_ready r"
    using save by (auto simp: on_snapshot_save_def db_snapshot_def outcome_simps split: sum.splits)
  obtain d where d: "kv_restore L b = Inr d" "kv_get L d = kv_get L (origin r)"
    using L(3) b(1) unfolding backup_ok_def by blast
  obtain d' where d': "kv_open L d = Inr d'" "origin r3 = d'" "db_ready r3"
    using load d(1) b(2) on_apply_backup [OF run]
    by (auto simp: on_snapshot_load_def load_snapshot_def db_close_def db_open_def outcome_simps split: sum.splits)
  have "kv_get L d' = kv_get L d" using L(3) d'(1) unfolding backup_ok_def by blast
  then have "same_db L r1 r3" using d d' b by (simp add: same_db_def)
  from same_on_apply [OF L(1,2) this run] show ?thesis .
qed

section \<open>A concrete store\<close>

text \<open>An association list with a list of backups: an instance of the parameters that satisfies every
  law, for concrete examples.\<close>

type_synonym mem_db = "(string \<times> string) list"

definition mem_libs :: "(mem_db, mem_db list) libs" where
  "mem_libs = \<lparr>jdump = jdump tiny_json, jparse = jparse tiny_json,
     kv_get = (\<lambda>d k. case map_of d k of Some v \<Rightarrow> Found v | None \<Rightarrow> NotFound),
     kv_write = (\<lambda>d b. Inr (rev b @ d)),
     kv_open = Inr,
     kv_backup = (\<lambda>d bs. Inr (d # bs)),
     kv_restore = (\<lambda>bs. case bs of [] \<Rightarrow> Inl ''no backup'' | d # _ \<Rightarrow> Inr d),
     um_order = (\<lambda>xs. xs)\<rparr>"

definition empty_db :: "(mem_db, mem_db list) RocksDB" where
  "empty_db = \<lparr>origin = [], db_ready = True, backup_engine = []\<rparr>"

lemma mem_libs_ok: "libs_ok mem_libs" "kv_live mem_libs" "backup_ok mem_libs"
proof -
  have "codec_ok mem_libs" using tiny_json_ok by (simp add: codec_ok_def mem_libs_def)
  moreover have "kv_ok mem_libs" by (auto simp: kv_ok_def mem_libs_def map_add_def split: option.splits)
  moreover have "order_ok mem_libs" by (simp add: order_ok_def mem_libs_def)
  ultimately show "libs_ok mem_libs" by (simp add: libs_ok_def)
  show "kv_live mem_libs" by (simp add: kv_live_def mem_libs_def)
  show "backup_ok mem_libs" by (simp add: backup_ok_def mem_libs_def)
qed

lemma empty_db_inv: "db_inv mem_libs empty_db" "fs mem_libs empty_db = Map.empty"
  using mem_libs_ok(1) by (auto simp: db_inv_def wf_db_def mem_libs_def empty_db_def fs_def fun_eq_iff)

end
