(* ===== verification/Namenodes.thy ===== *)
theory Namenodes
  imports Raft_Nn
begin

text \<open>
  The name node service: \<^verbatim>\<open>include/node/namenode.h\<close> and \<^verbatim>\<open>src/node/namenode.cpp\<close>.

  Each RPC handler is one definition. It reads the local store, and either fills in the response at
  once or proposes log entries to Raft; what it proposes is in the field \<open>tasks\<close> of its result.
  The environment (own address, the leader Raft reports, the time, the readings of the clock) is the record
  \<open>nn_env\<close>. \<open>commit\<close> is what happens when the proposed entries are applied at the leader, with
  the response that all of them share. \<open>nn_exec\<close> is a request that is handled and applied before
  the next one starts.
\<close>

record nn_env =
  my_ip :: string
  nn_port :: int
  leader_id :: "PeerId option"
  now :: u64
  clock :: "int list"

record nn_reply =
  tasks :: "string list"
  common :: Response
  rsp_data :: string

definition check_leader :: "nn_env \<Rightarrow> unit outcome" where
  "check_leader E =
     (let node = leader (my_ip E) (nn_port E) (leader_id E)
      in bindO (guardO (Node_valid node) (RuntimeError ''leader not ready'')) (\<lambda>_.
         guardO (ip node = my_ip E) (MessageException REDIRECT_TO_MASTER (ip node))))"

text \<open>The two \<^verbatim>\<open>catch\<close> blocks of every handler, for handlers that answer at once and for handlers
  that propose.\<close>

fun answering :: "string outcome \<Rightarrow> nn_reply outcome" where
  "answering (Ok d) = Ok \<lparr>tasks = [], common = succ_response new_Response, rsp_data = d\<rparr>"
| "answering (Throw e) = Ok \<lparr>tasks = [], common = fail_response new_Response e, rsp_data = []\<rparr>"
| "answering (Abort s) = Abort s"

fun proposing :: "string list outcome \<Rightarrow> nn_reply outcome" where
  "proposing (Ok ts) = Ok \<lparr>tasks = ts, common = new_Response, rsp_data = []\<rparr>"
| "proposing (Throw e) = Ok \<lparr>tasks = [], common = fail_response new_Response e, rsp_data = []\<rparr>"
| "proposing (Abort s) = Abort s"

definition path_required :: "path \<Rightarrow> unit outcome" where
  "path_required p = guardO (p \<noteq> []) (RuntimeError ''parameter path required'')"

section \<open>Handlers\<close>

definition nn_ls :: "('db, 'bk) libs \<Rightarrow> ('db, 'bk) RocksDB \<Rightarrow> path \<Rightarrow> nn_reply outcome" where
  "nn_ls L db p =
     answering (bindO (db_ls L db (new_inode (if p = [] then ''/'' else p))) (\<lambda>inode. Ok (Inode_value L inode)))"

definition nn_mkdir :: "('db, 'bk) libs \<Rightarrow> nn_env \<Rightarrow> ('db, 'bk) RocksDB \<Rightarrow> path \<Rightarrow> nn_reply outcome" where
  "nn_mkdir L E db p =
     proposing (
       bindO (check_leader E) (\<lambda>_.
       bindO (path_required p) (\<lambda>_.
       let path' = (if hd p \<noteq> CHR ''/'' then CHR ''/'' # p else p)
       in bindO (prepare_mkdir L db (get_default_dir path')) (\<lambda>inode.
          Ok [task_data OP_MKDIR (Inode_value L inode)]))))"

definition nn_rm :: "('db, 'bk) libs \<Rightarrow> nn_env \<Rightarrow> ('db, 'bk) RocksDB \<Rightarrow> path \<Rightarrow> nn_reply outcome" where
  "nn_rm L E db p =
     proposing (
       bindO (check_leader E) (\<lambda>_.
       bindO (path_required p) (\<lambda>_.
       bindO (prepare_rm L db (new_inode p)) (\<lambda>inode.
       Ok [task_data OP_RM (Inode_value L inode)]))))"

text \<open>What \<open>put\<close> and \<open>put_batch\<close> do for one file.\<close>

definition put_one ::
  "('db, 'bk) libs \<Rightarrow> nn_env \<Rightarrow> ('db, 'bk) RocksDB \<Rightarrow> path \<times> string \<Rightarrow> Inode outcome" where
  "put_one L E db req =
     bindO (path_required (fst req)) (\<lambda>_.
     bindO (prepare_put L (now E) db (new_inode (fst req))) (\<lambda>inode.
     bindO (StorageType_from_string (snd req)) (\<lambda>st.
     Ok (inode\<lparr>storage_type_ptr := Some st\<rparr>))))"

definition nn_put ::
  "('db, 'bk) libs \<Rightarrow> nn_env \<Rightarrow> ('db, 'bk) RocksDB \<Rightarrow> path \<Rightarrow> string \<Rightarrow> nn_reply outcome" where
  "nn_put L E db p storage_type =
     proposing (
       bindO (check_leader E) (\<lambda>_.
       bindO (put_one L E db (p, storage_type)) (\<lambda>inode.
       Ok [task_data OP_PUT (Inode_value L inode)])))"

definition nn_put_batch ::
  "('db, 'bk) libs \<Rightarrow> nn_env \<Rightarrow> ('db, 'bk) RocksDB \<Rightarrow> (path \<times> string) list \<Rightarrow> nn_reply outcome" where
  "nn_put_batch L E db reqs =
     proposing (
       bindO (check_leader E) (\<lambda>_.
       bindO (mapO (put_one L E db) reqs) (\<lambda>inodes.
       Ok [task_data OP_PUTBATCH (Inodes_value L inodes)])))"

text \<open>A \<open>put_ok\<close> request: path, fragments of each block, size.\<close>

type_synonym put_ok_req = "path \<times> string list \<times> u64"

definition put_ok_one ::
  "('db, 'bk) libs \<Rightarrow> ('db, 'bk) RocksDB \<Rightarrow> put_ok_req \<Rightarrow> Inode outcome" where
  "put_ok_one L db req =
     (case req of (p, subs, sz) \<Rightarrow>
       bindO (path_required p) (\<lambda>_.
       bindO (prepare_put_ok L db (new_inode p)) (\<lambda>inode.
       Ok (inode\<lparr>sub := subs, filesize := sz\<rparr>))))"

definition nn_put_ok ::
  "('db, 'bk) libs \<Rightarrow> nn_env \<Rightarrow> ('db, 'bk) RocksDB \<Rightarrow> put_ok_req \<Rightarrow> nn_reply outcome" where
  "nn_put_ok L E db req =
     proposing (
       bindO (check_leader E) (\<lambda>_.
       bindO (put_ok_one L db req) (\<lambda>inode.
       Ok [task_data OP_PUTOK (Inode_value L inode)])))"

text \<open>The position of a file in its aggregate: the last of the comma-separated pairs.\<close>

fun pair_error :: "'a outcome \<Rightarrow> 'a outcome" where
  "pair_error (Throw (InvalidArgument m)) = Throw (RuntimeError ''Invalid pair format'')"
| "pair_error (Throw (OutOfRange m)) = Throw (RuntimeError ''Number out of range in pair'')"
| "pair_error x = x"

definition getLastPair :: "string \<Rightarrow> (int \<times> int) outcome" where
  "getLastPair input =
     (let pairs = getlines (CHR '','') input
      in if pairs = [] then Throw (RuntimeError ''Empty input string.'')
         else
           let last_pair = last pairs
           in if CHR ''|'' \<in> set last_pair then
                (let (a, b) = getline1 (CHR ''|'') last_pair
                 in pair_error (bindO (stoi a) (\<lambda>first. bindO (stoi b) (\<lambda>second. Ok (first, second)))))
              else Throw (RuntimeError (''Invalid pair format, missing '' @
                [CHR 0x27, CHR ''|'', CHR 0x27] @ '' delimiter in last pair'')))"

text \<open>The machine number of the identifier: what follows the last dot of the address.\<close>

definition machine_id :: "string \<Rightarrow> int outcome" where
  "machine_id addr = stoi (last (split_on (CHR ''.'') addr))"

text \<open>\<^verbatim>\<open>*req.sub().begin()\<close> of an empty field is undefined.\<close>

definition put_ok_agg_one ::
  "('db, 'bk) libs \<Rightarrow> ('db, 'bk) RocksDB \<Rightarrow> string \<Rightarrow> put_ok_req \<Rightarrow> (Inode \<times> FileInfo) outcome" where
  "put_ok_agg_one L db aid req =
     (case req of (p, subs, sz) \<Rightarrow>
       bindO (put_ok_one L db req) (\<lambda>inode.
       bindO (case subs of [] \<Rightarrow> Abort ''begin of an empty field'' | s # _ \<Rightarrow> getLastPair s) (\<lambda>pos.
       Ok (inode\<lparr>agg_inode_id := aid\<rparr>,
           \<lparr>fi_path = p, fi_size = sz, fi_pos = pos, fi_task_ptr = None\<rparr>))))"

definition nn_put_ok_batch ::
  "('db, 'bk) libs \<Rightarrow> nn_env \<Rightarrow> ('db, 'bk) RocksDB \<Rightarrow> put_ok_req list \<Rightarrow> nn_reply outcome" where
  "nn_put_ok_batch L E db reqs =
     proposing (
       bindO (check_leader E) (\<lambda>_.
       bindO (machine_id (my_ip E)) (\<lambda>n.
       case generateID (new_generator n) (clock E) of
         None \<Rightarrow> Abort ''clock''
       | Some (aid, _, _) \<Rightarrow>
           bindO (mapO (put_ok_agg_one L db aid) reqs) (\<lambda>res.
           let aggInode = \<lparr>agg_id = aid, agg_files = map snd res,
                 aggregate_size = sum_list (map (snd \<circ> snd) reqs),
                 agg_valid = replicate (length reqs) True, valid_count = int (length reqs)\<rparr>
           in Ok [task_data OP_PUTOKBATCH (Inodes_value L (map fst res)),
                  task_data OP_PUTAGG (AggInode_value L aggInode)]))))"

definition nn_get_master :: "nn_env \<Rightarrow> nn_reply outcome" where
  "nn_get_master E =
     (let node = leader (my_ip E) (nn_port E) (leader_id E)
      in answering (bindO (guardO (Node_valid node) (RuntimeError ''leader not ready'')) (\<lambda>_.
           Ok (Node_to_string node))))"

text \<open>The loop of \<open>update_lock\<close>: what was proposed before an exception stays proposed.\<close>

fun lock_loop ::
  "('db, 'bk) libs \<Rightarrow> nn_env \<Rightarrow> ('db, 'bk) RocksDB \<Rightarrow> path list \<Rightarrow> string list \<Rightarrow> string list \<times> unit outcome" where
  "lock_loop L E db [] ts = (ts, Ok ())"
| "lock_loop L E db (s # ss) ts =
     (case db_ls L db (new_inode s) of
        Ok inode \<Rightarrow>
          lock_loop L E db ss (ts @ [task_data OP_PUT (Inode_value L (update_ddl_lock (now E) inode))])
      | Throw e \<Rightarrow> (ts, Throw e)
      | Abort a \<Rightarrow> (ts, Abort a))"

definition nn_update_lock ::
  "('db, 'bk) libs \<Rightarrow> nn_env \<Rightarrow> ('db, 'bk) RocksDB \<Rightarrow> path list \<Rightarrow> nn_reply outcome" where
  "nn_update_lock L E db paths =
     (case bindO (check_leader E) (\<lambda>_. guardO (paths \<noteq> []) (RuntimeError ''parameter paths required'')) of
        Throw e \<Rightarrow> proposing (Throw e)
      | Abort s \<Rightarrow> Abort s
      | Ok _ \<Rightarrow>
          (case lock_loop L E db paths [] of
             (ts, Ok _) \<Rightarrow> proposing (Ok ts)
           | (ts, Throw e) \<Rightarrow> Ok \<lparr>tasks = ts, common = fail_response new_Response e, rsp_data = []\<rparr>
           | (ts, Abort s) \<Rightarrow> Abort s))"

section \<open>Requests\<close>

datatype nn_request =
    Ls path
  | Mkdir path
  | Rm path
  | Put path string
  | PutBatch "(path \<times> string) list"
  | PutOk put_ok_req
  | PutOkBatch "put_ok_req list"
  | GetMaster
  | UpdateLock "path list"

fun nn_handle ::
  "('db, 'bk) libs \<Rightarrow> nn_env \<Rightarrow> ('db, 'bk) RocksDB \<Rightarrow> nn_request \<Rightarrow> nn_reply outcome" where
  "nn_handle L E db (Ls p) = nn_ls L db p"
| "nn_handle L E db (Mkdir p) = nn_mkdir L E db p"
| "nn_handle L E db (Rm p) = nn_rm L E db p"
| "nn_handle L E db (Put p st) = nn_put L E db p st"
| "nn_handle L E db (PutBatch reqs) = nn_put_batch L E db reqs"
| "nn_handle L E db (PutOk req) = nn_put_ok L E db req"
| "nn_handle L E db (PutOkBatch reqs) = nn_put_ok_batch L E db reqs"
| "nn_handle L E db GetMaster = nn_get_master E"
| "nn_handle L E db (UpdateLock ps) = nn_update_lock L E db ps"

text \<open>The entries of one request are applied in order; they write into the same response.\<close>

fun commit ::
  "('db, 'bk) libs \<Rightarrow> ('db, 'bk) RocksDB \<Rightarrow> Response \<Rightarrow> string list \<Rightarrow> (('db, 'bk) RocksDB \<times> Response) outcome" where
  "commit L db response [] = Ok (db, response)"
| "commit L db response (t # ts) =
     (case apply_data L db t of
        Ok db' \<Rightarrow> commit L db' (succ_response response) ts
      | Throw e \<Rightarrow> commit L db (fail_response response e) ts
      | Abort s \<Rightarrow> Abort s)"

definition nn_exec ::
  "('db, 'bk) libs \<Rightarrow> nn_env \<Rightarrow> ('db, 'bk) RocksDB \<Rightarrow> nn_request \<Rightarrow> (('db, 'bk) RocksDB \<times> nn_reply) outcome" where
  "nn_exec L E db req =
     bindO (nn_handle L E db req) (\<lambda>rp.
     bindO (commit L db (common rp) (tasks rp)) (\<lambda>(db', response).
     Ok (db', rp\<lparr>common := response\<rparr>)))"

end
