(* ===== verification/Namenode_Inv.thy ===== *)
theory Namenode_Inv
  imports Namenodes
begin

text \<open>
  Correctness of the name node service over sequences of requests.

  \<open>req_ok\<close> are the requests the clients of the repository send: absolute seven-bit paths, and in
  one \<open>put_ok_batch\<close> distinct files none of which contains another. \<open>nn_reach\<close> are the stores that
  requests executed one after the other lead to. The lemmas relate each handler to what it does to
  the map of inodes and show that listings stay right.
\<close>

section \<open>Requests\<close>

definition path_ok :: "path \<Rightarrow> bool" where
  "path_ok p \<longleftrightarrow> is_rooted p \<and> ascii p"

definition put_ok_req_ok :: "put_ok_req \<Rightarrow> bool" where
  "put_ok_req_ok req \<longleftrightarrow> path_ok (fst req) \<and> list_all ascii (fst (snd req))"

fun req_ok :: "nn_request \<Rightarrow> bool" where
  "req_ok (Ls p) = True"
| "req_ok (Mkdir p) = ascii p"
| "req_ok (Rm p) = path_ok p"
| "req_ok (Put p st) = path_ok p"
| "req_ok (PutBatch reqs) = list_all (path_ok \<circ> fst) reqs"
| "req_ok (PutOk req) = put_ok_req_ok req"
| "req_ok (PutOkBatch reqs) =
     (list_all put_ok_req_ok reqs \<and> distinct (map (simplify_path \<circ> fst) reqs) \<and>
      (\<forall>a\<in>set reqs. \<forall>b\<in>set reqs. simplify_path (fst a) \<noteq> get_parent_path (simplify_path (fst b))))"
| "req_ok GetMaster = True"
| "req_ok (UpdateLock ps) = list_all path_ok ps"

inductive nn_reach :: "('db, 'bk) libs \<Rightarrow> ('db, 'bk) RocksDB \<Rightarrow> bool" for L where
  nn_init: "db_inv L db \<Longrightarrow> fs L db = Map.empty \<Longrightarrow> nn_reach L db"
| nn_step: "nn_reach L db \<Longrightarrow> req_ok req \<Longrightarrow> nn_exec L E db req = Ok (db', rp) \<Longrightarrow> nn_reach L db'"

section \<open>The checks, in terms of the map\<close>

lemma abs_inode_path_ok: "path_ok p \<Longrightarrow> abs_inode (new_inode p)"
  using simplify_path_rooted [of p]
  by (auto simp: path_ok_def abs_inode_def inode_ok_new) (simp add: new_inode_def)

lemma new_inode_simps [simp]:
  "fullpath (new_inode p) = simplify_path p" "is_directory (new_inode p) = False" "sub (new_inode p) = []"
  "ddl_lock (new_inode p) = 0" "valid (new_inode p) = False"
  by (simp_all add: new_inode_def)

lemma prepare_mkdir_fs:
  assumes "db_inv L db" "abs_inode i"
  shows "prepare_mkdir L db i =
    (if Inode_parent_path i \<noteq> ''/'' \<and> kind (fs L db) (Inode_parent_path i) = None
     then Throw (MessageException PATH_NOT_EXISTS_EXCEPTION (Inode_parent_path i))
     else if fullpath i = ''/'' \<or> kind (fs L db) (fullpath i) \<noteq> None
     then Throw (MessageException PATH_EXISTS_EXCEPTION (fullpath i))
     else Ok i)"
  using assms abs_parent(1) [OF assms(2)] db_inv_ready [OF assms(1)]
  by (simp add: prepare_mkdir_def try_to_add_def path_exists_fs abs_inode_def guardO_def)

lemma get_inode_new:
  assumes "db_inv L db" "path_ok p"
  shows "get_inode L db (new_inode p) = Ok (ns_current (fs L db) (new_inode p))"
    "abs_inode (ns_current (fs L db) (new_inode p))"
    "fullpath (ns_current (fs L db) (new_inode p)) = simplify_path p"
  using assms get_inode_fs [OF assms(1), of "new_inode p"] ns_current_fs [OF assms(1) abs_inode_path_ok [OF assms(2)]]
    abs_inode_path_ok [OF assms(2)]
  by (simp_all add: abs_inode_def)

lemma prepare_put_fs:
  assumes "db_inv L db" "path_ok p"
  shows "prepare_put L t db (new_inode p) =
    (let c = ns_current (fs L db) (new_inode p)
     in if valid c \<and> is_directory c then Throw (MessageException PATH_EXISTS_EXCEPTION (fullpath c))
        else Inode_lock t (c\<lparr>is_directory := False, valid := True\<rparr>))"
  using get_inode_new [OF assms] db_inv_ready [OF assms(1)] by (simp add: prepare_put_def guardO_def Let_def)

lemma prepare_put_ok_fs:
  assumes "db_inv L db" "path_ok p"
  shows "prepare_put_ok L db (new_inode p) =
    (let c = ns_current (fs L db) (new_inode p)
     in if \<not> valid c then Throw (MessageException PATH_NOT_EXISTS_EXCEPTION (fullpath c))
        else if is_directory c then Throw (MessageException EXPECTED_FILE_EXCEPTION (fullpath c))
        else Ok c)"
  using get_inode_new [OF assms] db_inv_ready [OF assms(1)] by (simp add: prepare_put_ok_def guardO_def Let_def)

lemma prepare_rm_fs:
  assumes "db_inv L db" "path_ok p"
  shows "prepare_rm L db (new_inode p) =
    (if simplify_path p \<noteq> ''/'' \<and> kind (fs L db) (simplify_path p) = None
     then Throw (MessageException PATH_NOT_EXISTS_EXCEPTION (simplify_path p))
     else Ok (new_inode p))"
  using abs_inode_path_ok [OF assms(2)]
  by (simp add: prepare_rm_def try_to_rm_def path_exists_fs [OF assms(1)] abs_inode_def guardO_def)

text \<open>What an accepted request proposes meets the precondition of the operation.\<close>

lemma ns_current_kind_new:
  "valid (ns_current m (new_inode p)) \<Longrightarrow> \<not> is_directory (ns_current m (new_inode p)) \<Longrightarrow>
     kind m (simplify_path p) = Some False"
  by (auto simp: ns_current_def kind_def split: option.splits if_splits)

lemma put_one_pre:
  assumes "db_inv L db" "path_ok (fst req)" "put_one L E db req = Ok i"
  shows "put_pre i (fs L db)" "\<not> is_directory i" "fullpath i = simplify_path (fst req)"
    "ddl_lock i = now E + LOCK_REFRESH_INTERVAL"
proof -
  let ?c = "ns_current (fs L db) (new_inode (fst req))"
  obtain st where c: "\<not> (valid ?c \<and> is_directory ?c)" and st: "StorageType_from_string (snd req) = Ok st"
    and i: "i = ?c\<lparr>is_directory := False, valid := True, ddl_lock := now E + LOCK_REFRESH_INTERVAL,
      storage_type_ptr := Some st\<rparr>"
    using assms(3) by (auto simp: put_one_def prepare_put_fs [OF assms(1,2)] outcome_simps Let_def
        Inode_lock_def split: if_splits)
  have "abs_inode ?c" "fullpath ?c = simplify_path (fst req)" using get_inode_new [OF assms(1,2)] by simp_all
  then have abs: "abs_inode i" and fp: "fullpath i = simplify_path (fst req)"
    using from_string_ok [OF st] by (simp_all add: i abs_inode_def inode_ok_storage)
  have "kind (fs L db) (simplify_path (fst req)) \<in> {None, Some False}"
    using c by (auto simp: ns_current_def kind_def split: option.splits if_splits)
  then show "put_pre i (fs L db)" using abs fp by (simp add: put_pre_def i)
  show "\<not> is_directory i" "fullpath i = simplify_path (fst req)" "ddl_lock i = now E + LOCK_REFRESH_INTERVAL"
    using fp by (simp_all add: i)
qed

lemma put_ok_one_pre:
  assumes "db_inv L db" "put_ok_req_ok req" "put_ok_one L db req = Ok i"
  shows "put_ok_pre i (fs L db)" "fullpath i = simplify_path (fst req)" "sub i = fst (snd req)"
    "filesize i = snd (snd req)"
proof -
  obtain p subs sz where req: "req = (p, subs, sz)" by (cases req)
  have p: "path_ok p" "list_all ascii subs" using assms(2) by (simp_all add: req put_ok_req_ok_def)
  let ?c = "ns_current (fs L db) (new_inode p)"
  have c: "valid ?c" "\<not> is_directory ?c" and i: "i = ?c\<lparr>sub := subs, filesize := sz\<rparr>"
    using assms(3) by (auto simp: req put_ok_one_def prepare_put_ok_fs [OF assms(1) p(1)] outcome_simps Let_def
        split: if_splits)
  have "abs_inode ?c" "fullpath ?c = simplify_path p" using get_inode_new [OF assms(1) p(1)] by simp_all
  then show "put_ok_pre i (fs L db)" "fullpath i = simplify_path (fst req)"
    using c p(2) ns_current_kind_new [OF c] by (simp_all add: i req put_ok_pre_def abs_inode_def inode_ok_sub)
  show "sub i = fst (snd req)" "filesize i = snd (snd req)" by (simp_all add: i req)
qed

section \<open>One request\<close>

definition nn_inv :: "('db, 'bk) libs \<Rightarrow> ('db, 'bk) RocksDB \<Rightarrow> bool" where
  "nn_inv L db \<longleftrightarrow> db_inv L db \<and> listing_ok (fs L db)"

lemma nn_inv_good: "nn_inv L db = db.good L db"
  by (simp add: nn_inv_def db.good_def)

lemma nn_invD: "nn_inv L db \<Longrightarrow> db_inv L db" "nn_inv L db \<Longrightarrow> codec_ok L" "nn_inv L db \<Longrightarrow> listing_ok (fs L db)"
  by (simp_all add: nn_inv_def db_inv_def libs_ok_def)

lemma commit_single:
  "commit L db response [t] = Ok (db', response') \<longleftrightarrow>
     apply_data L db t = Ok db' \<and> response' = succ_response response \<or>
     db' = db \<and> (\<exists>e. apply_data L db t = Throw e \<and> response' = fail_response response e)"
  by (cases "apply_data L db t") auto

lemma proposing_exec:
  assumes "nn_exec L E db req = Ok (db', rp)" "nn_handle L E db req = proposing body"
  obtains ts where "body = Ok ts" "commit L db new_Response ts = Ok (db', common rp)"
  | e where "body = Throw e" "db' = db" "common rp = fail_response new_Response e"
  using assms by (cases body) (auto simp: nn_exec_def outcome_simps)

lemma abs_inode_ok: "abs_inode i \<Longrightarrow> inode_ok i"
  by (simp add: abs_inode_def)

lemma exec_mkdir:
  assumes inv: "nn_inv L db" and ok: "req_ok (Mkdir p)" and run: "nn_exec L E db (Mkdir p) = Ok (db', rp)"
  shows "nn_inv L db'"
proof -
  let ?p = "if hd p \<noteq> CHR ''/'' then CHR ''/'' # p else p"
  let ?i = "get_default_dir ?p"
  note h = nn_mkdir_def [of L E db p, folded nn_handle.simps]
  show ?thesis
    using run h
  proof (cases rule: proposing_exec)
    case (1 ts)
    then have ts: "ts = [task_data OP_MKDIR (Inode_value L ?i)]" and p: "p \<noteq> []" "prepare_mkdir L db ?i = Ok ?i"
      by (auto simp: outcome_simps path_required_def Let_def prepare_mkdir_def split: if_splits)
    have root: "is_rooted ?p" "ascii ?p" using ok p(1) by (auto simp: is_rooted_def ascii_Cons)
    then have abs: "abs_inode ?i"
      using simplify_path_rooted [of ?p] inode_ok_default_dir [of ?p]
      by (auto simp: abs_inode_def get_default_dir_def)
    have "mkdir_pre ?i (fs L db)"
      using p(2) abs unfolding prepare_mkdir_fs [OF nn_invD(1) [OF inv] abs]
      by (auto simp: mkdir_pre_def get_default_dir_def split: if_splits)
    with 1(2) inv db.good_mkdir [of L db ?i db'] show ?thesis
      by (auto simp: ts apply_data_inode [OF nn_invD(2) [OF inv] abs_inode_ok [OF abs]] nn_inv_good split: outcome.splits)
  qed (use inv in simp)
qed

lemma exec_rm:
  assumes inv: "nn_inv L db" and ok: "req_ok (Rm p)" and run: "nn_exec L E db (Rm p) = Ok (db', rp)"
  shows "nn_inv L db'"
proof -
  have p: "path_ok p" using ok by simp
  note abs = abs_inode_path_ok [OF p]
  note h = nn_rm_def [of L E db p, folded nn_handle.simps]
  show ?thesis
    using run h
  proof (cases rule: proposing_exec)
    case (1 ts)
    then have ts: "ts = [task_data OP_RM (Inode_value L (new_inode p))]"
      by (auto simp: outcome_simps prepare_rm_fs [OF nn_invD(1) [OF inv] p] split: if_splits)
    have "rm_pre (new_inode p) (fs L db)" using abs by (simp add: rm_pre_def)
    with 1(2) inv db.good_rm [of L db "new_inode p" db'] show ?thesis
      by (auto simp: ts apply_data_inode [OF nn_invD(2) [OF inv] abs_inode_ok [OF abs]] nn_inv_good split: outcome.splits)
  qed (use inv in simp)
qed

lemma exec_put:
  assumes inv: "nn_inv L db" and ok: "req_ok (Put p st)" and run: "nn_exec L E db (Put p st) = Ok (db', rp)"
  shows "nn_inv L db'"
proof -
  note h = nn_put_def [of L E db p st, folded nn_handle.simps]
  show ?thesis
    using run h
  proof (cases rule: proposing_exec)
    case (1 ts)
    then obtain i where i: "put_one L E db (p, st) = Ok i" and ts: "ts = [task_data OP_PUT (Inode_value L i)]"
      by (auto simp: outcome_simps)
    have pre: "put_pre i (fs L db)" using put_one_pre [OF nn_invD(1) [OF inv] _ i] ok by simp
    then have "inode_ok i" by (simp add: put_pre_def abs_inode_def)
    with 1(2) inv pre db.good_put [of L db i db'] show ?thesis
      by (auto simp: ts apply_data_inode [OF nn_invD(2) [OF inv]] nn_inv_good split: outcome.splits)
  qed (use inv in simp)
qed

lemma exec_put_ok:
  assumes inv: "nn_inv L db" and ok: "req_ok (PutOk req)" and run: "nn_exec L E db (PutOk req) = Ok (db', rp)"
  shows "nn_inv L db'"
proof -
  note h = nn_put_ok_def [of L E db req, folded nn_handle.simps]
  show ?thesis
    using run h
  proof (cases rule: proposing_exec)
    case (1 ts)
    then obtain i where i: "put_ok_one L db req = Ok i" and ts: "ts = [task_data OP_PUTOK (Inode_value L i)]"
      by (auto simp: outcome_simps)
    have pre: "put_ok_pre i (fs L db)" using put_ok_one_pre [OF nn_invD(1) [OF inv] _ i] ok by simp
    then have "inode_ok i" by (simp add: put_ok_pre_def abs_inode_def)
    with 1(2) inv pre db.good_put_ok [of L db i db'] show ?thesis
      by (auto simp: ts apply_data_inode [OF nn_invD(2) [OF inv]] nn_inv_good split: outcome.splits)
  qed (use inv in simp)
qed

section \<open>Batches\<close>

lemma listing_ok_put_all:
  assumes "listing_ok m" "\<And>i. i \<in> set is \<Longrightarrow> put_pre i m \<and> \<not> is_directory i"
  shows "listing_ok (put_all m is)"
  using assms
proof (induction "is" arbitrary: m)
  case (Cons i "is")
  have i: "put_pre i m" "\<not> is_directory i" using Cons.prems(2) by auto
  have "listing_ok (m(fullpath i \<mapsto> i))" by (rule listing_ok_put [OF Cons.prems(1) i(1)]) (simp add: ns_put_def)
  moreover have "put_pre j (m(fullpath i \<mapsto> i)) \<and> \<not> is_directory j" if "j \<in> set is" for j
    using Cons.prems(2) [of j] that i by (auto simp: put_pre_def)
  ultimately have "listing_ok (put_all (m(fullpath i \<mapsto> i)) is)" by (rule Cons.IH)
  then show ?case by simp
qed simp

lemma exec_put_batch:
  assumes inv: "nn_inv L db" and ok: "req_ok (PutBatch reqs)" and run: "nn_exec L E db (PutBatch reqs) = Ok (db', rp)"
  shows "nn_inv L db'"
proof -
  note h = nn_put_batch_def [of L E db reqs, folded nn_handle.simps]
  show ?thesis
    using run h
  proof (cases rule: proposing_exec)
    case (1 ts)
    then obtain "is" where reqs: "mapO (put_one L E db) reqs = Ok is" and ts: "ts = [task_data OP_PUTBATCH (Inodes_value L is)]"
      by (auto simp: outcome_simps)
    have pre: "put_pre i (fs L db) \<and> \<not> is_directory i" if "i \<in> set is" for i
    proof (rule mapO_all [OF reqs _ that])
      fix req j assume "req \<in> set reqs" "put_one L E db req = Ok j"
      moreover from this ok have "path_ok (fst req)" by (auto simp: list_all_iff)
      ultimately show "put_pre j (fs L db) \<and> \<not> is_directory j"
        using put_one_pre(1,2) [OF nn_invD(1) [OF inv]] by blast
    qed
    then have abs: "\<And>i. i \<in> set is \<Longrightarrow> abs_inode i" by (auto simp: put_pre_def)
    then have "list_all inode_ok is" by (auto simp: list_all_iff abs_inode_def)
    with 1(2) inv show ?thesis
      using db_write_inodes [OF nn_invD(1) [OF inv] abs] listing_ok_put_all [OF nn_invD(3) [OF inv] pre]
        db_inv_ready [OF nn_invD(1) [OF inv]]
      by (auto simp: ts apply_data_inodes [OF nn_invD(2) [OF inv]] internal_put_batch_def nn_inv_def
          split: outcome.splits)
  qed (use inv in simp)
qed

text \<open>Refreshing locks writes back the inodes that were read, with a later deadline.\<close>

lemma commit_puts:
  assumes "nn_inv L db" "commit L db response (map (\<lambda>i. task_data OP_PUT (Inode_value L i)) is) = Ok (db', response')"
    "\<And>i. i \<in> set is \<Longrightarrow> put_pre i (fs L db)"
    "\<And>i j. i \<in> set is \<Longrightarrow> j \<in> set is \<Longrightarrow> fullpath i = fullpath j \<Longrightarrow> i = j"
  shows "nn_inv L db'"
  using assms
proof (induction "is" arbitrary: db response)
  case (Cons i "is")
  have i: "put_pre i (fs L db)" using Cons.prems(3) by simp
  then have ad: "apply_data L db (task_data OP_PUT (Inode_value L i)) = internal_put L db i"
    using apply_data_inode(2) [OF nn_invD(2) [OF Cons.prems(1)]] by (simp add: put_pre_def abs_inode_def)
  show ?case
  proof (cases "internal_put L db i")
    case (Ok d)
    have d: "nn_inv L d" using db.good_put [OF _ i Ok] Cons.prems(1) by (simp add: nn_inv_good)
    have fs: "fs L d = (fs L db)(fullpath i \<mapsto> i)"
      using db.put_sim [OF nn_invD(1) [OF Cons.prems(1)] _ Ok] i by (simp add: ns_put_def put_pre_def)
    have "put_pre j (fs L d)" if "j \<in> set is" for j
      using Cons.prems(3) [of j] Cons.prems(4) [of j i] that i
      by (cases "fullpath j = fullpath i") (auto simp: fs put_pre_def)
    with Cons.IH [OF d] Cons.prems(2,4) Ok ad show ?thesis by simp
  next
    case (Throw e)
    with Cons.IH [OF Cons.prems(1)] Cons.prems(2-4) ad show ?thesis by simp
  next
    case (Abort a)
    with Cons.prems(2) ad show ?thesis by simp
  qed
qed simp

lemma db_ls_fs:
  assumes "db_inv L db" "path_ok p" "db_ls L db (new_inode p) = Ok i"
  shows "i = ns_current (fs L db) (new_inode p) \<and> valid i"
  using assms(3) by (auto simp: db_ls_def get_inode_new [OF assms(1,2)] outcome_simps)

definition relock :: "('db, 'bk) libs \<Rightarrow> nn_env \<Rightarrow> ('db, 'bk) RocksDB \<Rightarrow> path \<Rightarrow> Inode" where
  "relock L E db p = update_ddl_lock (now E) (ns_current (fs L db) (new_inode p))"

lemma lock_loop_tasks:
  assumes "db_inv L db" "list_all path_ok ps" "lock_loop L E db ps ts = (ts', res)"
  shows "\<exists>qs. set qs \<subseteq> set ps \<and> ts' = ts @ map (\<lambda>q. task_data OP_PUT (Inode_value L (relock L E db q))) qs \<and>
    (\<forall>q\<in>set qs. valid (ns_current (fs L db) (new_inode q)))"
  using assms(2,3)
proof (induction ps arbitrary: ts)
  case (Cons p ps)
  show ?case
  proof (cases "db_ls L db (new_inode p)")
    case (Ok i)
    then have i: "i = ns_current (fs L db) (new_inode p)" "valid i" using db_ls_fs [OF assms(1)] Cons.prems by auto
    from Cons.IH [of "ts @ [task_data OP_PUT (Inode_value L (relock L E db p))]"] Cons.prems Ok i obtain qs where
      "set qs \<subseteq> set ps" "\<forall>q\<in>set qs. valid (ns_current (fs L db) (new_inode q))"
      "ts' = (ts @ [task_data OP_PUT (Inode_value L (relock L E db p))])
         @ map (\<lambda>q. task_data OP_PUT (Inode_value L (relock L E db q))) qs"
      by (auto simp: relock_def)
    with i show ?thesis by (intro exI [of _ "p # qs"]) auto
  qed (use Cons.prems in auto)
qed simp

lemma relock_pre:
  assumes "db_inv L db" "path_ok p" "valid (ns_current (fs L db) (new_inode p))"
  shows "put_pre (relock L E db p) (fs L db)"
    "path_ok q \<Longrightarrow> fullpath (relock L E db p) = fullpath (relock L E db q) \<Longrightarrow> relock L E db p = relock L E db q"
proof -
  show "put_pre (relock L E db p) (fs L db)"
    using get_inode_new [OF assms(1,2)] assms(3)
    by (auto simp: relock_def update_ddl_lock_def put_pre_def abs_inode_def kind_def)
      (auto simp: ns_current_def split: option.splits if_splits)
  show "relock L E db p = relock L E db q"
    if "path_ok q" "fullpath (relock L E db p) = fullpath (relock L E db q)"
  proof -
    have "simplify_path p = simplify_path q"
      using that get_inode_new(3) [OF assms(1,2)] get_inode_new(3) [OF assms(1) that(1)]
      by (simp add: relock_def update_ddl_lock_def)
    then have "new_inode p = new_inode q" by (simp add: new_inode_def)
    then show ?thesis by (simp add: relock_def)
  qed
qed

lemma exec_update_lock:
  assumes inv: "nn_inv L db" and ok: "req_ok (UpdateLock ps)" and run: "nn_exec L E db (UpdateLock ps) = Ok (db', rp)"
  shows "nn_inv L db'"
proof -
  obtain ts res where ll: "lock_loop L E db ps [] = (ts, res)" by fastforce
  from lock_loop_tasks [OF nn_invD(1) [OF inv] _ ll] ok obtain qs where
    qs: "set qs \<subseteq> set ps" "ts = map (\<lambda>i. task_data OP_PUT (Inode_value L i)) (map (relock L E db) qs)"
    "\<forall>q\<in>set qs. valid (ns_current (fs L db) (new_inode q))" by (auto simp: comp_def)
  have path: "path_ok q" if "q \<in> set qs" for q using that qs(1) ok by (auto simp: list_all_iff)
  consider "db' = db" | response response' where "commit L db response ts = Ok (db', response')"
    using run ll
    by (auto simp: nn_exec_def nn_update_lock_def outcome_simps split: outcome.splits prod.splits if_splits)
  then show ?thesis
  proof cases
    case 2
    show ?thesis
      by (rule commit_puts [OF inv 2 [unfolded qs(2)]])
        (use path qs(3) relock_pre [OF nn_invD(1) [OF inv]] in auto)
  qed (use inv in simp)
qed

subsection \<open>put_ok_batch\<close>

lemma listing_ok_put_ok_seq:
  assumes "listing_ok m" "list_all (\<lambda>i. put_ok_pre i m) is" "ns_put_ok_seq is m = Some m'"
  shows "listing_ok m'"
  using assms
proof (induction "is" arbitrary: m)
  case (Cons i "is")
  have pre: "put_ok_pre i m" using Cons.prems(2) by simp
  then have "simplify_path (fullpath i) = fullpath i" by (simp add: put_ok_pre_def abs_inode_def inode_ok_def)
  then obtain j where j: "ns_current m (new_inode (fullpath i)) = j" "valid j" "\<not> is_directory j"
    using pre ns_current_kind by (auto simp: put_ok_pre_def)
  obtain par m1 where par: "ns_parent m i = Some par" and seq: "ns_put_ok_seq is m1 = Some m'"
    and m1: "m1 = m(Inode_parent_path i \<mapsto> push_sub (Inode_filename i) par, fullpath i \<mapsto> put_ok_agg_inode i j)"
    using Cons.prems(3) j(1) by (auto simp: ns_put_ok_agg_def bind_eq_Some_conv)
  note step = put_ok_step [OF Cons.prems(1) pre par _ _ m1]
  have "list_all (\<lambda>i. put_ok_pre i m1) is"
    using Cons.prems(2) step(2) j by (auto simp: list_all_iff put_ok_pre_def)
  with step(1) seq j Cons.IH show ?case by simp
qed simp

text \<open>The identifier of an aggregate is hexadecimal, so it is no path.\<close>

lemma slash_less: "(47 :: nat) \<noteq> (if n < 10 then 48 + n else 87 + n)"
  by simp

lemma hex_digit_ascii: "n < 16 \<Longrightarrow> (of_char (hex_digit n) :: nat) < 128 \<and> hex_digit n \<noteq> CHR ''/''"
proof -
  assume "n < 16"
  then have v: "(of_char (hex_digit n) :: nat) = (if n < 10 then 48 + n else 87 + n)" by simp
  have "(of_char (CHR ''/'') :: nat) = 47" by simp
  with v have "hex_digit n \<noteq> CHR ''/''" by (metis slash_less)
  with v \<open>n < 16\<close> show ?thesis by simp
qed

lemma nat_to_hex_chars: "c \<in> set (nat_to_hex n) \<Longrightarrow> (of_char c :: nat) < 128 \<and> c \<noteq> CHR ''/''"
proof (induction n rule: nat_to_hex.induct)
  case (1 n)
  then show ?case
    using hex_digit_ascii by (subst (asm) (2) nat_to_hex.simps) (auto split: if_splits simp del: hex_digit.simps)
qed

lemma generateID_chars:
  assumes "generateID g clk = Some (s, g', clk')"
  shows "ascii s" "\<not> is_rooted s" "s \<noteq> []"
proof -
  obtain n where n: "s = nat_to_hex n"
    using assms by (auto simp: generateID_def Let_def split: list.splits if_splits option.splits)
  show "ascii s" "s \<noteq> []" using nat_to_hex_chars nat_to_hex_nonempty by (auto simp: n ascii_def)
  then show "\<not> is_rooted s" using nat_to_hex_chars [of "hd s" n] hd_in_set n by (auto simp: is_rooted_def)
qed

lemma internal_put_agg_inv:
  assumes "nn_inv L db" "\<not> is_rooted (agg_id a)" "agg_id a \<noteq> []" "internal_put_agg L db a = Ok db'"
  shows "nn_inv L db' \<and> fs L db' = fs L db"
proof -
  obtain d where d: "kv_write L (origin db) [(agg_id a, AggInode_value L a)] = Inr d" "db' = db\<lparr>origin := d\<rparr>"
    using assms(4) by (auto simp: internal_put_agg_def db_write_def outcome_simps split: sum.splits)
  have get: "kv_get L d k = (if k = agg_id a then Found (AggInode_value L a) else kv_get L (origin db) k)" for k
    using assms(1) d(1) by (auto simp: nn_inv_def db_inv_def libs_ok_def kv_ok_def)
  have neq: "p \<noteq> agg_id a" if "is_rooted p" for p using that assms(2) by blast
  have "fs L db' = fs L db" by (rule ext) (auto simp: fs_def d(2) get dest: neq)
  moreover have "db_inv L db'"
    using assms(1,3) neq by (auto simp: nn_inv_def db_inv_def wf_db_def d(2) get)
  ultimately show ?thesis using assms(1) by (simp add: nn_inv_def)
qed

lemma AggInode_from_json_id: "AggInode_from_json (AggInode_to_json a) = Ok b \<Longrightarrow> agg_id b = agg_id a"
  by (auto simp: AggInode_from_json_def AggInode_to_json_def outcome_simps)

lemma apply_agg_inv:
  assumes "nn_inv L db" "\<not> is_rooted (agg_id a)" "agg_id a \<noteq> []" "json_ok (AggInode_to_json a)"
    "apply_data L db (task_data OP_PUTAGG (AggInode_value L a)) = Ok db'"
  shows "nn_inv L db' \<and> fs L db' = fs L db"
proof -
  have "jparse L (AggInode_value L a) = Some (AggInode_to_json a)"
    using assms(1,4) by (simp add: AggInode_value_def nn_inv_def db_inv_def libs_ok_def codec_ok_def)
  then obtain b where b: "AggInode_from_json (AggInode_to_json a) = Ok b" "internal_put_agg L db b = Ok db'"
    using assms(5) by (auto simp: apply_data_def outcome_simps)
  with assms(2,3) AggInode_from_json_id [OF b(1)] internal_put_agg_inv [OF assms(1) _ _ b(2)] show ?thesis by simp
qed

lemma mapO_map: "mapO f xs = Ok ys \<Longrightarrow> (\<And>x y. x \<in> set xs \<Longrightarrow> f x = Ok y \<Longrightarrow> g y = h x) \<Longrightarrow> map g ys = map h xs"
  by (induction xs arbitrary: ys) (auto simp: outcome_simps)

lemma put_ok_agg_one_pre:
  assumes "db_inv L db" "put_ok_req_ok req" "put_ok_agg_one L db aid req = Ok (i, f)" "ascii aid"
  shows "put_ok_pre i (fs L db)" "fullpath i = simplify_path (fst req)" "fi_path f = fst req"
proof -
  obtain p subs sz j where req: "req = (p, subs, sz)" and j: "put_ok_one L db req = Ok j" "i = j\<lparr>agg_inode_id := aid\<rparr>"
    and f: "fi_path f = p"
    using assms(3) by (cases req) (auto simp: put_ok_agg_one_def outcome_simps split: list.splits)
  from put_ok_one_pre [OF assms(1,2) j(1)] assms(4)
  show "put_ok_pre i (fs L db)" "fullpath i = simplify_path (fst req)"
    by (simp_all add: j(2) put_ok_pre_def abs_inode_def inode_ok_agg)
  show "fi_path f = fst req" by (simp add: f req)
qed

lemma exec_put_ok_batch:
  assumes inv: "nn_inv L db" and ok: "req_ok (PutOkBatch reqs)"
    and run: "nn_exec L E db (PutOkBatch reqs) = Ok (db', rp)"
  shows "nn_inv L db'"
proof -
  note h = nn_put_ok_batch_def [of L E db reqs, folded nn_handle.simps]
  show ?thesis
    using run h
  proof (cases rule: proposing_exec)
    case (1 ts)
    then obtain n aid g clk res where gen: "generateID (new_generator n) (clock E) = Some (aid, g, clk)"
      and res: "mapO (put_ok_agg_one L db aid) reqs = Ok res"
      and ts: "ts = [task_data OP_PUTOKBATCH (Inodes_value L (map fst res)), task_data OP_PUTAGG (AggInode_value L
         \<lparr>agg_id = aid, agg_files = map snd res, aggregate_size = sum_list (map (snd \<circ> snd) reqs),
          agg_valid = replicate (length reqs) True, valid_count = int (length reqs)\<rparr>)]"
      by (auto simp: outcome_simps Let_def split: option.splits)
    let ?a = "\<lparr>agg_id = aid, agg_files = map snd res, aggregate_size = sum_list (map (snd \<circ> snd) reqs),
          agg_valid = replicate (length reqs) True, valid_count = int (length reqs)\<rparr>"
    note aid = generateID_chars [OF gen]
    note pre = put_ok_agg_one_pre [OF nn_invD(1) [OF inv] _ _ aid(1)]
    have req: "put_ok_req_ok r" if "r \<in> set reqs" for r using ok that by (simp add: list_all_iff)
    have all: "put_ok_pre (fst x) (fs L db) \<and> ascii (fi_path (snd x))" if "x \<in> set res" for x
    proof (rule mapO_all [OF res _ that])
      fix r y assume "r \<in> set reqs" "put_ok_agg_one L db aid r = Ok y"
      with pre [OF req, of r "fst y" "snd y"] req [of r]
      show "put_ok_pre (fst y) (fs L db) \<and> ascii (fi_path (snd y))"
        by (simp add: put_ok_req_ok_def path_ok_def)
    qed
    have paths: "map (fullpath \<circ> fst) res = map (simplify_path \<circ> fst) reqs"
      using mapO_map [OF res, of "fullpath \<circ> fst" "simplify_path \<circ> fst"] pre(2) [OF req] by force
    have "fullpath i \<noteq> Inode_parent_path j" if "i \<in> set (map fst res)" "j \<in> set (map fst res)" for i j
    proof -
      have "fullpath ` set (map fst res) = (simplify_path \<circ> fst) ` set reqs"
        using paths by (metis image_image list.set_map map_map)
      with that have "fullpath i \<in> (simplify_path \<circ> fst) ` set reqs" "fullpath j \<in> (simplify_path \<circ> fst) ` set reqs"
        by (metis imageI)+
      then obtain a b where "a \<in> set reqs" "b \<in> set reqs" "fullpath i = simplify_path (fst a)"
        "fullpath j = simplify_path (fst b)" by auto
      with ok show ?thesis by (simp add: Inode_parent_path_def)
    qed
    moreover have "distinct (map fullpath (map fst res))" using ok paths by (simp add: comp_def)
    moreover have "list_all abs_inode (map fst res)" using all by (auto simp: list_all_iff put_ok_pre_def)
    ultimately have batch: "batch_ok (map fst res)" unfolding batch_ok_def by blast
    then have iok: "list_all inode_ok (map fst res)" by (auto simp: batch_ok_def list_all_iff abs_inode_def)
    have pre_all: "list_all (\<lambda>i. put_ok_pre i (fs L db)) (map fst res)" using all by (auto simp: list_all_iff)
    have first: "nn_inv L d" if "internal_put_ok_batch L db (map fst res) = Ok d" for d
      using internal_put_ok_batch_seq [OF nn_invD(1) [OF inv] batch that]
        listing_ok_put_ok_seq [OF nn_invD(3) [OF inv] pre_all] by (auto simp: nn_inv_def)
    have js: "json_ok (AggInode_to_json ?a)"
      using all aid(1) by (intro json_ok_AggInode) auto
    have second: "nn_inv L d'" if "nn_inv L d" "apply_data L d (task_data OP_PUTAGG (AggInode_value L ?a)) = Ok d'" for d d'
      using apply_agg_inv [OF that(1) _ _ js that(2)] aid by simp
    show ?thesis
      using 1(2) inv first second
      by (auto simp: ts apply_data_inodes [OF nn_invD(2) [OF inv] iok] split: outcome.splits)
  qed (use inv in simp)
qed

section \<open>Sequences of requests\<close>

lemma exec_inv:
  assumes inv: "nn_inv L db" and ok: "req_ok req" and run: "nn_exec L E db req = Ok (db', rp)"
  shows "nn_inv L db'"
proof (cases req)
  case (Ls p)
  with assms show ?thesis
    by (cases "db_ls L db (new_inode (if p = [] then ''/'' else p))") (auto simp: nn_exec_def nn_ls_def)
next
  case (Mkdir p)
  show ?thesis by (rule exec_mkdir [OF inv ok [unfolded Mkdir] run [unfolded Mkdir]])
next
  case (Rm p)
  show ?thesis by (rule exec_rm [OF inv ok [unfolded Rm] run [unfolded Rm]])
next
  case (Put p st)
  show ?thesis by (rule exec_put [OF inv ok [unfolded Put] run [unfolded Put]])
next
  case (PutBatch reqs)
  show ?thesis by (rule exec_put_batch [OF inv ok [unfolded PutBatch] run [unfolded PutBatch]])
next
  case (PutOk r)
  show ?thesis by (rule exec_put_ok [OF inv ok [unfolded PutOk] run [unfolded PutOk]])
next
  case (PutOkBatch reqs)
  show ?thesis by (rule exec_put_ok_batch [OF inv ok [unfolded PutOkBatch] run [unfolded PutOkBatch]])
next
  case GetMaster
  with assms show ?thesis by (auto simp: nn_exec_def nn_get_master_def Let_def guardO_def split: if_splits)
next
  case (UpdateLock ps)
  show ?thesis by (rule exec_update_lock [OF inv ok [unfolded UpdateLock] run [unfolded UpdateLock]])
qed

lemma nn_reach_inv: "nn_reach L db \<Longrightarrow> nn_inv L db"
proof (induction rule: nn_reach.induct)
  case (nn_init db)
  then show ?case by (simp add: nn_inv_def listing_ok_def)
next
  case (nn_step db req E db' rp)
  then show ?case by (blast intro: exec_inv)
qed

end
