(* ===== verification/Namenode_Props.thy ===== *)
theory Namenode_Props
  imports Namenode_Inv
begin

text \<open>
  What a client of the name node can rely on, request by request: the effect of \<open>mkdir\<close>, \<open>put\<close>
  followed by \<open>put_ok\<close>, and \<open>rm\<close> on what \<open>ls\<close> returns afterwards; the exclusion of writers by the
  lock of a file; redirection at a replica that is not the leader; recovery from a snapshot. Two
  theorems show behaviour the code does not intend: a file accepted under a missing directory
  stops the process when its upload is confirmed, and removing the root hides it.
\<close>

section \<open>Successful requests\<close>

lemma success_simps [simp]:
  "success (succ_response r)" "\<not> success (fail_response r e)" "\<not> success new_Response"
  by (simp_all add: succ_response_def fail_response_def new_Response_def)

lemma exec_success:
  assumes "nn_exec L E db req = Ok (db', rp)" "nn_handle L E db req = proposing body" "success (common rp)"
    and single: "\<And>ts. body = Ok ts \<Longrightarrow> length ts = 1"
  obtains t where "body = Ok [t]" "apply_data L db t = Ok db'"
  using assms(1,2)
proof (cases rule: proposing_exec)
  case (1 ts)
  then obtain t where "ts = [t]" using single by (metis length_0_conv length_Suc_conv One_nat_def)
  with 1 assms(3) that commit_single [of L db new_Response t] show ?thesis by (metis success_simps(2))
next
  case (2 e)
  with assms(3) show ?thesis by simp
qed

lemma get_default_dir_simps [simp]:
  "fullpath (get_default_dir p) = simplify_path p" "is_directory (get_default_dir p)" "valid (get_default_dir p)"
  "sub (get_default_dir p) = []"
  by (simp_all add: get_default_dir_def)

lemma mkdir_success:
  assumes inv: "nn_inv L db" and p: "path_ok p" and run: "nn_exec L E db (Mkdir p) = Ok (db', rp)"
    and ok: "success (common rp)"
  shows "mkdir_pre (get_default_dir p) (fs L db) \<and> internal_mkdir L db (get_default_dir p) = Ok db'"
proof -
  have hd: "hd p = CHR ''/''" "p \<noteq> []" using p by (simp_all add: path_ok_def is_rooted_def)
  have abs: "abs_inode (get_default_dir p)"
    using p simplify_path_rooted [of p] inode_ok_default_dir [of p] by (auto simp: path_ok_def abs_inode_def)
  note h = nn_mkdir_def [of L E db p, folded nn_handle.simps]
  obtain t where t: "apply_data L db t = Ok db'" "t = task_data OP_MKDIR (Inode_value L (get_default_dir p))"
      and pre: "prepare_mkdir L db (get_default_dir p) = Ok (get_default_dir p)"
    using run h ok
  proof (rule exec_success)
    fix t assume *: "bindO (check_leader E) (\<lambda>_. bindO (path_required p) (\<lambda>_.
       let path' = (if hd p \<noteq> CHR ''/'' then CHR ''/'' # p else p)
       in bindO (prepare_mkdir L db (get_default_dir path')) (\<lambda>inode.
          Ok [task_data OP_MKDIR (Inode_value L inode)]))) = Ok [t]" "apply_data L db t = Ok db'"
    then show thesis using that hd by (auto simp: outcome_simps prepare_mkdir_def)
  qed (auto simp: outcome_simps Let_def)
  have "mkdir_pre (get_default_dir p) (fs L db)"
    using pre abs unfolding prepare_mkdir_fs [OF nn_invD(1) [OF inv] abs]
    by (auto simp: mkdir_pre_def split: if_splits)
  with t show ?thesis by (simp add: apply_data_inode [OF nn_invD(2) [OF inv] abs_inode_ok [OF abs]])
qed

lemma rm_success:
  assumes inv: "nn_inv L db" and p: "path_ok p" and run: "nn_exec L E db (Rm p) = Ok (db', rp)"
    and ok: "success (common rp)"
  shows "internal_rm L db (new_inode p) = Ok db'"
proof -
  note abs = abs_inode_path_ok [OF p]
  note h = nn_rm_def [of L E db p, folded nn_handle.simps]
  obtain t where "apply_data L db t = Ok db'" "t = task_data OP_RM (Inode_value L (new_inode p))"
    using run h ok by (rule exec_success)
      (auto simp: outcome_simps prepare_rm_fs [OF nn_invD(1) [OF inv] p] split: if_splits)
  then show ?thesis by (simp add: apply_data_inode [OF nn_invD(2) [OF inv] abs_inode_ok [OF abs]])
qed

lemma put_success:
  assumes inv: "nn_inv L db" and p: "path_ok p" and run: "nn_exec L E db (Put p st) = Ok (db', rp)"
    and ok: "success (common rp)"
  obtains i where "put_one L E db (p, st) = Ok i" "put_pre i (fs L db)" "internal_put L db i = Ok db'"
proof -
  note h = nn_put_def [of L E db p st, folded nn_handle.simps]
  obtain t i where t: "apply_data L db t = Ok db'" "t = task_data OP_PUT (Inode_value L i)"
    and i: "put_one L E db (p, st) = Ok i"
    using run h ok by (rule exec_success) (auto simp: outcome_simps)
  have pre: "put_pre i (fs L db)" using put_one_pre [OF nn_invD(1) [OF inv] _ i] p by simp
  then have "inode_ok i" by (simp add: put_pre_def abs_inode_def)
  with t have "internal_put L db i = Ok db'" by (simp add: apply_data_inode [OF nn_invD(2) [OF inv]])
  with that i pre show thesis by blast
qed

lemma put_ok_success:
  assumes inv: "nn_inv L db" and req: "put_ok_req_ok req" and run: "nn_exec L E db (PutOk req) = Ok (db', rp)"
    and ok: "success (common rp)"
  obtains i where "put_ok_one L db req = Ok i" "put_ok_pre i (fs L db)" "internal_put_ok L db i = Ok db'"
proof -
  note h = nn_put_ok_def [of L E db req, folded nn_handle.simps]
  obtain t i where t: "apply_data L db t = Ok db'" "t = task_data OP_PUTOK (Inode_value L i)"
    and i: "put_ok_one L db req = Ok i"
    using run h ok by (rule exec_success) (auto simp: outcome_simps)
  have pre: "put_ok_pre i (fs L db)" using put_ok_one_pre [OF nn_invD(1) [OF inv] req i] by simp
  then have "inode_ok i" by (simp add: put_ok_pre_def abs_inode_def)
  with t have "internal_put_ok L db i = Ok db'" by (simp add: apply_data_inode [OF nn_invD(2) [OF inv]])
  with that i pre show thesis by blast
qed

text \<open>The answer of \<open>ls\<close>.\<close>

definition ls_answer :: "('db, 'bk) libs \<Rightarrow> Inode \<Rightarrow> nn_reply" where
  "ls_answer L i = \<lparr>tasks = [], common = succ_response new_Response, rsp_data = Inode_value L i\<rparr>"

lemma ls_found:
  assumes "db_inv L db" "path_ok p" "fs L db (simplify_path p) = Some i" "valid i"
  shows "nn_handle L E db (Ls p) = Ok (ls_answer L i)"
proof -
  have "p \<noteq> []" using assms(2) by (auto simp: path_ok_def is_rooted_def)
  moreover have "ns_current (fs L db) (new_inode p) = i" using assms(3) by (simp add: ns_current_def)
  ultimately show ?thesis
    using assms(4) by (simp add: nn_ls_def db_ls_def get_inode_new [OF assms(1,2)] ls_answer_def)
qed

lemma ls_missing:
  assumes "db_inv L db" "path_ok p" "kind (fs L db) (simplify_path p) = None"
    "simplify_path p \<noteq> ''/'' \<or> fs L db ''/'' \<noteq> None"
  shows "\<exists>rp. nn_handle L E db (Ls p) = Ok rp \<and> \<not> success (common rp) \<and>
    fail_info (common rp) = Some (PATH_NOT_EXISTS_EXCEPTION, simplify_path p)"
proof -
  have "p \<noteq> []" using assms(2) by (auto simp: path_ok_def is_rooted_def)
  moreover have "\<not> valid (ns_current (fs L db) (new_inode p))"
    using assms(3,4) by (auto simp: ns_current_def kind_def split: option.splits if_splits)
  ultimately show ?thesis
    using get_inode_new [OF assms(1,2)] by (simp add: nn_ls_def db_ls_def fail_response_def new_Response_def)
qed

lemma ascii_get_parent: "path_ok p \<Longrightarrow> path_ok (get_parent_path (simplify_path p))"
  using abs_parent(1,2) [OF abs_inode_path_ok] by (simp add: path_ok_def Inode_parent_path_def)

section \<open>A concrete run\<close>

text \<open>The state after a request, and whether the request succeeded.\<close>

definition exec_state ::
  "('db, 'bk) libs \<Rightarrow> nn_env \<Rightarrow> ('db, 'bk) RocksDB \<Rightarrow> nn_request \<Rightarrow> ('db, 'bk) RocksDB" where
  "exec_state L E db req = (case nn_exec L E db req of Ok (d, _) \<Rightarrow> d | _ \<Rightarrow> db)"

definition exec_good :: "('db, 'bk) libs \<Rightarrow> nn_env \<Rightarrow> ('db, 'bk) RocksDB \<Rightarrow> nn_request \<Rightarrow> bool" where
  "exec_good L E db req = (case nn_exec L E db req of Ok (_, rp) \<Rightarrow> success (common rp) | _ \<Rightarrow> False)"

lemma exec_goodE:
  assumes "exec_good L E db req"
  obtains rp where "nn_exec L E db req = Ok (exec_state L E db req, rp)" "success (common rp)"
  using assms by (auto simp: exec_good_def exec_state_def split: outcome.splits)

lemma exec_state_reach:
  "nn_reach L db \<Longrightarrow> req_ok req \<Longrightarrow> exec_good L E db req \<Longrightarrow> nn_reach L (exec_state L E db req)"
  by (erule exec_goodE) (rule nn_step)

definition demo_env :: nn_env where
  "demo_env = \<lparr>my_ip = ''10.0.0.7'', nn_port = 8000, leader_id = None, now = 9, clock = [5]\<rparr>"

definition demo_dir :: "(mem_db, mem_db list) RocksDB" where
  "demo_dir = exec_state mem_libs demo_env empty_db (Mkdir ''/a'')"

definition demo_put :: "(mem_db, mem_db list) RocksDB" where
  "demo_put = exec_state mem_libs demo_env demo_dir (Put ''/a/f'' ''RE<2,4>'')"

definition demo_file :: "(mem_db, mem_db list) RocksDB" where
  "demo_file = exec_state mem_libs demo_env demo_put (PutOk (''/a/f'', [''n|h''], 3))"

lemma demo_good:
  "exec_good mem_libs demo_env empty_db (Mkdir ''/a'')"
  "exec_good mem_libs demo_env demo_dir (Put ''/a/f'' ''RE<2,4>'')"
  "exec_good mem_libs demo_env demo_put (PutOk (''/a/f'', [''n|h''], 3))"
  "exec_good mem_libs demo_env demo_file (Rm ''/a/f'')"
  by code_simp+

lemma demo_paths: "path_ok ''/a''" "path_ok ''/a/f''" "put_ok_req_ok (''/a/f'', [''n|h''], 3)"
  "simplify_path ''/a/f'' \<noteq> ''/''"
  by code_simp+

lemma demo_reach:
  "nn_reach mem_libs empty_db" "nn_reach mem_libs demo_dir" "nn_reach mem_libs demo_put" "nn_reach mem_libs demo_file"
proof -
  show 0: "nn_reach mem_libs empty_db" using empty_db_inv by (rule nn_init)
  show 1: "nn_reach mem_libs demo_dir"
    unfolding demo_dir_def by (rule exec_state_reach [OF 0 _ demo_good(1)]) (simp add: ascii_Cons)
  show 2: "nn_reach mem_libs demo_put"
    unfolding demo_put_def by (rule exec_state_reach [OF 1 _ demo_good(2)]) (simp add: demo_paths)
  show "nn_reach mem_libs demo_file"
    unfolding demo_file_def by (rule exec_state_reach [OF 2 _ demo_good(3)]) (simp add: demo_paths)
qed

section \<open>Properties\<close>





text \<open>C23: After a successful \<open>put_ok\<close> of a file other than the root, \<open>ls\<close> returns the file with the
  blocks and the size that were sent, unlocked, and the parent lists it.\<close>

theorem put_ok_then_ls:
  assumes "nn_reach L db" "put_ok_req_ok (p, subs, sz)" "simplify_path p \<noteq> ''/''"
    "nn_exec L E db (PutOk (p, subs, sz)) = Ok (db', rp)" "success (common rp)"
  shows "\<exists>i par. nn_handle L E db' (Ls p) = Ok (ls_answer L i) \<and> \<not> is_directory i \<and> sub i = subs \<and>
    filesize i = sz \<and> ddl_lock i = 0 \<and>
    fs L db' (get_parent_path (simplify_path p)) = Some par \<and> filename_of (simplify_path p) \<in> set (sub par)"
proof -
  have inv: "nn_inv L db" using nn_reach_inv [OF assms(1)] .
  obtain i where i: "put_ok_one L db (p, subs, sz) = Ok i" "put_ok_pre i (fs L db)" "internal_put_ok L db i = Ok db'"
    using put_ok_success [OF inv assms(2,4,5)] .
  note pre = put_ok_one_pre [OF nn_invD(1) [OF inv] assms(2) i(1)]
  have p: "path_ok p" using assms(2) by (simp add: put_ok_req_ok_def)
  have "db_inv L db'" using exec_inv [OF inv _ assms(4)] assms(2) by (simp add: nn_inv_def)
  moreover have "\<not> is_directory i" using i(2) by (simp add: put_ok_pre_def)
  then obtain f par where "fs L db' (simplify_path p) = Some f" "valid f" "\<not> is_directory f" "sub f = subs"
    "filesize f = sz" "ddl_lock f = 0"
    "fs L db' (get_parent_path (simplify_path p)) = Some par" "filename_of (simplify_path p) \<in> set (sub par)"
    using db.put_ok_effect [OF nn_invD(1) [OF inv] i(2) _ i(3)] pre assms(3)
    by (auto simp: Inode_parent_path_def Inode_filename_def)
  ultimately show ?thesis using ls_found [OF _ p] by metis
qed

theorem put_ok_then_ls_witness:
  "\<exists>i par. nn_handle mem_libs demo_env demo_file (Ls ''/a/f'') = Ok (ls_answer mem_libs i) \<and> \<not> is_directory i \<and>
    sub i = [''n|h''] \<and> filesize i = 3 \<and> ddl_lock i = 0 \<and>
    fs mem_libs demo_file (get_parent_path (simplify_path ''/a/f'')) = Some par \<and>
    filename_of (simplify_path ''/a/f'') \<in> set (sub par)"
  using demo_good(3) unfolding demo_file_def
  by (rule exec_goodE) (rule put_ok_then_ls [OF demo_reach(3) demo_paths(3,4)])

text \<open>C25: After a successful \<open>rm\<close>, \<open>ls\<close> answers that the path does not exist, and the parent no longer
  lists it, neither as a file nor as a directory.\<close>

theorem rm_then_ls:
  assumes "nn_reach L db" "path_ok p" "simplify_path p \<noteq> ''/''"
    "nn_exec L E db (Rm p) = Ok (db', rp)" "success (common rp)"
  shows "\<exists>rp' par. nn_handle L E db' (Ls p) = Ok rp' \<and>
    fail_info (common rp') = Some (PATH_NOT_EXISTS_EXCEPTION, simplify_path p) \<and>
    fs L db' (get_parent_path (simplify_path p)) = Some par \<and>
    filename_of (simplify_path p) \<notin> set (sub par) \<and> filename_of (simplify_path p) @ ''/'' \<notin> set (sub par)"
proof -
  have inv: "nn_inv L db" using nn_reach_inv [OF assms(1)] .
  have "rm_pre (new_inode p) (fs L db)" using abs_inode_path_ok [OF assms(2)] by (simp add: rm_pre_def)
  from db.rm_effect [OF nn_invD(1) [OF inv] this rm_success [OF inv assms(2,4,5)]] assms(3)
  obtain par where par: "kind (fs L db') (simplify_path p) = None"
    "fs L db' (get_parent_path (simplify_path p)) = Some par" "filename_of (simplify_path p) \<notin> set (sub par)"
    "filename_of (simplify_path p) @ ''/'' \<notin> set (sub par)"
    by (auto simp: Inode_parent_path_def)
  have "db_inv L db'" using exec_inv [OF inv _ assms(4)] assms(2) by (simp add: nn_inv_def)
  from ls_missing [OF this assms(2) par(1)] assms(3) par show ?thesis by metis
qed

theorem rm_then_ls_witness:
  "\<exists>rp' par. nn_handle mem_libs demo_env (exec_state mem_libs demo_env demo_file (Rm ''/a/f'')) (Ls ''/a/f'') = Ok rp' \<and>
    fail_info (common rp') = Some (PATH_NOT_EXISTS_EXCEPTION, simplify_path ''/a/f'') \<and>
    fs mem_libs (exec_state mem_libs demo_env demo_file (Rm ''/a/f'')) (get_parent_path (simplify_path ''/a/f'')) = Some par \<and>
    filename_of (simplify_path ''/a/f'') \<notin> set (sub par) \<and>
    filename_of (simplify_path ''/a/f'') @ ''/'' \<notin> set (sub par)"
  using demo_good(4) by (rule exec_goodE) (rule rm_then_ls [OF demo_reach(4) demo_paths(2,4)])

text \<open>C26: A file that is being written is locked: once a \<open>put\<close> has been accepted, another \<open>put\<close> of the
  same file is refused with a lock conflict until the deadline, 60 seconds later, has passed.\<close>

theorem put_excludes_put:
  assumes "nn_reach L db" "path_ok p" "nn_exec L E db (Put p st) = Ok (db', rp)" "success (common rp)"
    "check_leader E' = Ok ()" "now E' \<le> now E + LOCK_REFRESH_INTERVAL"
  shows "\<exists>rp' msg. nn_handle L E' db' (Put p st') = Ok rp' \<and> tasks rp' = [] \<and>
    fail_info (common rp') = Some (EXPECTED_LOCK_CONFLICT, msg)"
proof -
  have inv: "nn_inv L db" using nn_reach_inv [OF assms(1)] .
  obtain i where i: "put_one L E db (p, st) = Ok i" "put_pre i (fs L db)" "internal_put L db i = Ok db'"
    using put_success [OF inv assms(2-4)] .
  note pre = put_one_pre [OF nn_invD(1) [OF inv] _ i(1)]
  have inv': "db_inv L db'" and fs: "fs L db' = (fs L db)(fullpath i \<mapsto> i)"
    using db.put_sim [OF nn_invD(1) [OF inv] _ i(3)] i(2) by (simp_all add: put_pre_def ns_put_def)
  have p: "p \<noteq> []" using assms(2) by (auto simp: path_ok_def is_rooted_def)
  have "ns_current (fs L db') (new_inode p) = i" using pre(3) assms(2) by (simp add: ns_current_def fs)
  then have "\<exists>msg. put_one L E' db' (p, st') = Throw (MessageException EXPECTED_LOCK_CONFLICT msg)"
    using pre assms(2,6) p
    by (simp add: put_one_def path_required_def prepare_put_fs [OF inv' assms(2)] Inode_lock_def)
  then show ?thesis using assms(5) by (auto simp: nn_put_def fail_response_def)
qed

theorem put_excludes_put_witness:
  "\<exists>rp' msg. nn_handle mem_libs (demo_env\<lparr>now := 60\<rparr>) demo_put (Put ''/a/f'' ''RE<3,4>'') = Ok rp' \<and>
    tasks rp' = [] \<and> fail_info (common rp') = Some (EXPECTED_LOCK_CONFLICT, msg)"
proof -
  have l: "check_leader (demo_env\<lparr>now := 60\<rparr>) = Ok ()" by code_simp
  have t: "now (demo_env\<lparr>now := 60\<rparr>) \<le> now demo_env + LOCK_REFRESH_INTERVAL" by code_simp
  show ?thesis
    using demo_good(2) unfolding demo_put_def
    by (rule exec_goodE) (rule put_excludes_put [OF demo_reach(2) demo_paths(2) _ _ l t])
qed

text \<open>C27: A replica that is not the leader changes nothing: it answers every writing request with the
  address of the leader and proposes no entry.\<close>

theorem redirect_to_leader:
  assumes "leader_id E = Some (a, n)" "a \<noteq> my_ip E" "a \<noteq> ip INVALID_NODE"
    "req \<in> {Mkdir p, Rm p, Put p st, PutBatch ps, PutOk r, PutOkBatch rs, UpdateLock qs}"
  shows "\<exists>rp. nn_handle L E db req = Ok rp \<and> tasks rp = [] \<and>
    common rp = \<lparr>success = False, fail_info = Some (REDIRECT_TO_MASTER, a)\<rparr>"
proof -
  have "check_leader E = Throw (MessageException REDIRECT_TO_MASTER a)"
    using assms(1-3) by (simp add: check_leader_def leader_def from_peerId_def default_Node_def Node_valid_def Node_eq_def)
  with assms(4) show ?thesis
    by (auto simp: nn_mkdir_def nn_rm_def nn_put_def nn_put_batch_def nn_put_ok_def nn_put_ok_batch_def
        nn_update_lock_def fail_response_def new_Response_def)
qed

theorem redirect_to_leader_witness:
  "\<exists>rp. nn_handle mem_libs (demo_env\<lparr>leader_id := Some (''10.0.0.8'', 8000)\<rparr>) empty_db (Mkdir ''/a'') = Ok rp \<and>
    tasks rp = [] \<and> common rp = \<lparr>success = False, fail_info = Some (REDIRECT_TO_MASTER, ''10.0.0.8'')\<rparr>"
  by (rule redirect_to_leader [where n = 8000 and p = "''/a''"])
    (simp_all add: demo_env_def INVALID_NODE_def)

text \<open>C15: A replica that takes a snapshot, applies more entries, restarts from the snapshot and applies
  the same entries again ends with a store that reads the same, and gives the same responses.\<close>

theorem snapshot_recovery:
  assumes "kv_ok L" "kv_live L" "backup_ok L" "on_snapshot_save L r = Ok r1" "on_apply L r1 es = Ok (r2, rs)"
    "on_snapshot_load L r2 = Ok (r3, ret)"
  shows "\<exists>r4. on_apply L r3 es = Ok (r4, rs) \<and> fs L r4 = fs L r2"
proof -
  obtain r4 where "on_apply L r3 es = Ok (r4, rs)" "same_db L r2 r4" using recovery [OF assms] by blast
  then show ?thesis by (auto simp: same_db_def fs_def fun_eq_iff)
qed

theorem snapshot_recovery_witness:
  "\<exists>r4. on_apply mem_libs (empty_db\<lparr>backup_engine := [[]]\<rparr>) [(''x'', None)] = Ok (r4, [None]) \<and>
    fs mem_libs r4 = fs mem_libs (empty_db\<lparr>backup_engine := [[]]\<rparr>)"
proof (rule snapshot_recovery [OF _ mem_libs_ok(2,3)])
  show "kv_ok mem_libs" using mem_libs_ok(1) by (simp add: libs_ok_def)
  show "on_snapshot_save mem_libs empty_db = Ok (empty_db\<lparr>backup_engine := [[]]\<rparr>)"
    "on_apply mem_libs (empty_db\<lparr>backup_engine := [[]]\<rparr>) [(''x'', None)] = Ok (empty_db\<lparr>backup_engine := [[]]\<rparr>, [None])"
    "on_snapshot_load mem_libs (empty_db\<lparr>backup_engine := [[]]\<rparr>) = Ok (empty_db\<lparr>backup_engine := [[]]\<rparr>, 0)"
    by code_simp+
qed

text \<open>\<open>put\<close> does not look at the parent directory, but \<open>put_ok\<close> needs it. A file under a directory that
  was never made is accepted, and confirming its upload fails the assertion in
  \<open>get_parent_inode\<close>: the process that applies the entry stops.\<close>

theorem put_under_missing_directory_aborts:
  assumes "nn_reach L db" "kv_live L" "path_ok p" "fs L db (simplify_path p) = None"
    "fs L db (get_parent_path (simplify_path p)) = None" "get_parent_path (simplify_path p) \<noteq> ''/''"
    "check_leader E = Ok ()" "0 < now E" "StorageType_from_string st = Ok t" "list_all ascii subs"
  shows "\<exists>db' rp. nn_exec L E db (Put p st) = Ok (db', rp) \<and> success (common rp) \<and>
    (\<exists>msg. nn_exec L E db' (PutOk (p, subs, sz)) = Abort msg)"
proof -
  have inv: "nn_inv L db" using nn_reach_inv [OF assms(1)] .
  have root: "simplify_path p \<noteq> ''/''" using assms(6) by (auto simp: get_parent_path_def)
  have pne: "p \<noteq> []" using assms(3) by (auto simp: path_ok_def is_rooted_def)
  let ?i = "(new_inode p)\<lparr>is_directory := False, valid := True, ddl_lock := now E + LOCK_REFRESH_INTERVAL, storage_type_ptr := Some t\<rparr>"
  have cur: "ns_current (fs L db) (new_inode p) = new_inode p"
    using assms(4) root by (simp add: ns_current_def)
  have one: "put_one L E db (p, st) = Ok ?i"
    using assms(8,9) pne
    by (simp add: Let_def put_one_def path_required_def prepare_put_fs [OF nn_invD(1) [OF inv] assms(3)] cur Inode_lock_def)
  have pre: "put_pre ?i (fs L db)" "inode_ok ?i"
    using put_one_pre(1) [OF nn_invD(1) [OF inv] _ one] assms(3) by (simp_all add: put_pre_def abs_inode_def)
  obtain db' where put: "internal_put L db ?i = Ok db'"
    using db_write_live [OF assms(2), of db "''internal put not ok''" "[inode_kv L ?i]"]
      db_inv_ready [OF nn_invD(1) [OF inv]] by (auto simp: internal_put_def)
  have exec: "nn_exec L E db (Put p st) = Ok (db', \<lparr>tasks = [task_data OP_PUT (Inode_value L ?i)],
      common = succ_response new_Response, rsp_data = []\<rparr>)"
    using one put assms(7) by (simp add: nn_exec_def nn_put_def apply_data_inode [OF nn_invD(2) [OF inv] pre(2)])
  have inv': "db_inv L db'" "fs L db' = (fs L db)(simplify_path p \<mapsto> ?i)"
    using db.put_sim [OF nn_invD(1) [OF inv] _ put] pre(1) by (simp_all add: put_pre_def ns_put_def)
  let ?j = "?i\<lparr>sub := subs, filesize := sz\<rparr>"
  have "ns_current (fs L db') (new_inode p) = ?i" by (simp add: ns_current_def inv'(2))
  then have ok: "put_ok_one L db' (p, subs, sz) = Ok ?j"
    using pne by (simp add: put_ok_one_def path_required_def prepare_put_ok_fs [OF inv'(1) assms(3)])
  have req: "put_ok_req_ok (p, subs, sz)" using assms(3,10) by (simp add: put_ok_req_ok_def)
  have abs: "abs_inode ?j" using put_ok_one_pre(1) [OF inv'(1) req ok] by (simp add: put_ok_pre_def)
  have "get_parent_path (simplify_path p) \<noteq> simplify_path p" using assms(4,5,6) abs_parent(4) [OF abs] root
    by (simp add: Inode_parent_path_def)
  then have "ns_parent (fs L db') ?j = None"
    using assms(5,6) by (simp add: ns_parent_def inv'(2) Inode_parent_path_def)
  then have "internal_put_ok L db' ?j = Abort ''inode.parent_path() == \"/\"''"
    by (simp add: internal_put_ok_write [OF inv'(1) abs])
  then have "nn_exec L E db' (PutOk (p, subs, sz)) = Abort ''inode.parent_path() == \"/\"''"
    using ok assms(7) abs
    by (simp add: nn_exec_def nn_put_ok_def apply_data_inode [OF nn_invD(2) [OF inv]] abs_inode_def)
  with exec show ?thesis by auto
qed

theorem put_under_missing_directory_aborts_witness:
  "\<exists>db' rp. nn_exec mem_libs demo_env empty_db (Put ''/a/f'' ''RE<2,4>'') = Ok (db', rp) \<and> success (common rp) \<and>
    (\<exists>msg. nn_exec mem_libs demo_env db' (PutOk (''/a/f'', [''n|h''], 3)) = Abort msg)"
  by (rule put_under_missing_directory_aborts [OF demo_reach(1) mem_libs_ok(2) demo_paths(2)], unfold empty_db_inv)
    (simp, simp, code_simp+)

text \<open>The root may be removed: \<open>rm\<close> of the root succeeds, and from then on \<open>ls\<close> of the root answers
  that it does not exist.\<close>

theorem rm_root_hides_root:
  assumes "nn_reach L db" "kv_live L" "check_leader E = Ok ()"
  shows "\<exists>db' rp rp'. nn_exec L E db (Rm ''/'') = Ok (db', rp) \<and> success (common rp) \<and>
    nn_handle L E db' (Ls ''/'') = Ok rp' \<and> fail_info (common rp') = Some (PATH_NOT_EXISTS_EXCEPTION, ''/'')"
proof -
  have inv: "nn_inv L db" using nn_reach_inv [OF assms(1)] .
  have root: "simplify_path ''/'' = ''/''" "path_ok ''/''" "get_parent_path ''/'' = ''/''"
    using simplify_abs_path [of "[]"]
    by (simp_all add: abs_names_def path_ok_def is_rooted_def ascii_Cons get_parent_path_def)
  let ?i = "new_inode ''/''"
  note abs = abs_inode_path_ok [OF root(2)]
  have pp: "Inode_parent_path ?i = ''/''" by (simp add: Inode_parent_path_def root)
  obtain par where par: "ns_parent (fs L db) ?i = Some par"
    by (cases "fs L db ''/''") (auto simp: ns_parent_def pp)
  obtain db' where rm: "internal_rm L db ?i = Ok db'"
    using db_write_live [OF assms(2), of db] unfolding internal_rm_write [OF nn_invD(1) [OF inv] abs] par
    by (metis option.case(2))
  have exec: "nn_exec L E db (Rm ''/'') = Ok (db', \<lparr>tasks = [task_data OP_RM (Inode_value L ?i)],
      common = succ_response new_Response, rsp_data = []\<rparr>)"
    using rm assms(3) by (simp add: nn_exec_def nn_rm_def path_required_def
        prepare_rm_fs [OF nn_invD(1) [OF inv] root(2)] root
        apply_data_inode [OF nn_invD(2) [OF inv] abs_inode_ok [OF abs]])
  have "db_inv L db'" "fs L db' ''/'' = Some ?i"
    using db.rm_sim [OF nn_invD(1) [OF inv] abs rm] root by (auto simp: ns_rm_def dest!: sym [of _ "fs L db'"])
  with ls_missing [OF _ root(2), of L db' E] exec show ?thesis by (auto simp: root kind_def)
qed

theorem rm_root_hides_root_witness:
  "\<exists>db' rp rp'. nn_exec mem_libs demo_env demo_file (Rm ''/'') = Ok (db', rp) \<and> success (common rp) \<and>
    nn_handle mem_libs demo_env db' (Ls ''/'') = Ok rp' \<and>
    fail_info (common rp') = Some (PATH_NOT_EXISTS_EXCEPTION, ''/'')"
  by (rule rm_root_hides_root [OF demo_reach(4) mem_libs_ok(2)]) code_simp

end
