(* ===== verification/Datanodes.thy ===== *)
theory Datanodes
  imports Prelude
begin

text \<open>
  Moving one fragment to or from a data node: \<^verbatim>\<open>src/node/datanode.cpp\<close> (\<open>put\<close>, \<open>get\<close>),
  \<^verbatim>\<open>src/common/stream.cpp\<close>, and the client side in \<^verbatim>\<open>src/client/sdk.cpp\<close> (\<open>put_to_datanode\<close>,
  \<open>get_from_datanode\<close>).

  The RPC and stream library is outside the repository. What it does during one call is the record
  \<open>call_env\<close>: whether the stream could be created and closed, the error the call reported, and the
  answers to the successive stream writes. A write that is answered \<open>Again\<close> is repeated; when the
  answers run out while data is left the call has not returned, and the result is \<open>None\<close>. The
  digest (\<^verbatim>\<open>cal_sha256sum\<close>, from Crypto++) is the argument \<open>sha\<close>. The disk of a node maps file names to contents.
\<close>

type_synonym disk = "string \<rightharpoonup> string"

datatype stream_status = Written | Again | Broken

record call_env =
  create_ok :: bool
  rpc_error :: "exn option"
  accepted :: bool
  start_ok :: bool
  statuses :: "stream_status list"
  close_ok :: bool
  file_ok :: bool

section \<open>Streams\<close>

definition BRPC_STREAM_CHUNK_SIZE :: nat where
  "BRPC_STREAM_CHUNK_SIZE = 16 * 1024"

text \<open>The pieces in which a block is sent. The loop variable \<^verbatim>\<open>offset\<close> of the source is what has been
  dropped.\<close>

function chunks :: "nat \<Rightarrow> string \<Rightarrow> string list" where
  "chunks n s = (if s = [] \<or> n = 0 then [] else take n s # chunks n (drop n s))"
  by pat_completeness auto
termination by (relation "measure (length \<circ> snd)") auto

declare chunks.simps [simp del]

text \<open>One message after the other; the inner \<^verbatim>\<open>while (true)\<close> repeats a write answered \<^verbatim>\<open>EAGAIN\<close>, any other
  error ends the sending.\<close>

fun stream_send :: "stream_status list \<Rightarrow> string list \<Rightarrow> string list option" where
  "stream_send ss [] = Some []"
| "stream_send [] (c # cs) = None"
| "stream_send (Written # ss) (c # cs) = map_option ((#) c) (stream_send ss cs)"
| "stream_send (Again # ss) (c # cs) = stream_send ss (c # cs)"
| "stream_send (Broken # ss) (c # cs) = Some []"

text \<open>\<open>StreamReceiver\<close>: messages are collected and handed on when the stream is closed.\<close>

record StreamReceiver =
  rx_ss :: string
  rx_finished :: bool

definition new_StreamReceiver :: StreamReceiver where
  "new_StreamReceiver = \<lparr>rx_ss = [], rx_finished = False\<rparr>"

definition on_received_messages :: "StreamReceiver \<Rightarrow> string list \<Rightarrow> StreamReceiver" where
  "on_received_messages rx messages = rx\<lparr>rx_ss := rx_ss rx @ concat messages\<rparr>"

definition on_closed :: "(string \<Rightarrow> 'a) \<Rightarrow> StreamReceiver \<Rightarrow> 'a \<times> StreamReceiver" where
  "on_closed lambda rx = (lambda (rx_ss rx), rx\<lparr>rx_finished := True\<rparr>)"

definition receive_all :: "(string \<Rightarrow> 'a) \<Rightarrow> string list \<Rightarrow> 'a" where
  "receive_all lambda messages = fst (on_closed lambda (on_received_messages new_StreamReceiver messages))"

section \<open>The data node\<close>

definition blk_file :: "string \<Rightarrow> string \<Rightarrow> string" where
  "blk_file data_dir blkid = data_dir @ ''/blk_'' @ blkid"

text \<open>What \<open>put\<close> does with the received data when the stream is closed.\<close>

definition dn_store :: "string \<Rightarrow> call_env \<Rightarrow> disk \<Rightarrow> string \<Rightarrow> string \<Rightarrow> disk" where
  "dn_store data_dir E d blkid data =
     (if file_ok E then d(blk_file data_dir blkid \<mapsto> data) else d)"

text \<open>The messages \<open>get\<close> sends: none if the file cannot be opened or is empty.\<close>

definition dn_messages :: "string \<Rightarrow> call_env \<Rightarrow> disk \<Rightarrow> string \<Rightarrow> string list" where
  "dn_messages data_dir E d blkid =
     (case d (blk_file data_dir blkid) of
        None \<Rightarrow> []
      | Some content \<Rightarrow> if file_ok E \<and> content \<noteq> [] then chunks BRPC_STREAM_CHUNK_SIZE content else [])"

section \<open>The client\<close>

text \<open>A call that fails may have been accepted by the node: then the node sees a stream that is closed
  without data.\<close>

definition put_to_datanode ::
  "(string \<Rightarrow> string) \<Rightarrow> string \<Rightarrow> call_env \<Rightarrow> disk \<Rightarrow> string \<Rightarrow> (string outcome \<times> disk) option" where
  "put_to_datanode sha data_dir E d block =
     (let sha256sum = sha block
      in if \<not> create_ok E then Some (Throw (RuntimeError ''Fail to create stream''), d)
         else case rpc_error E of
           Some e \<Rightarrow> Some (Throw e, if accepted E then dn_store data_dir E d sha256sum [] else d)
         | None \<Rightarrow>
             (case stream_send (statuses E) (chunks BRPC_STREAM_CHUNK_SIZE block) of
                None \<Rightarrow> None
              | Some messages \<Rightarrow>
                  (let d' = receive_all (dn_store data_dir E d sha256sum) messages
                   in if close_ok E then Some (Ok sha256sum, d')
                      else Some (Throw (RuntimeError ''stream close fail''), d'))))"

definition get_from_datanode ::
  "(string \<Rightarrow> string) \<Rightarrow> string \<Rightarrow> call_env \<Rightarrow> disk \<Rightarrow> string \<Rightarrow> string outcome option" where
  "get_from_datanode sha data_dir E d blkid =
     (if \<not> create_ok E then Some (Throw (RuntimeError ''Fail to create stream''))
      else case rpc_error E of
        Some e \<Rightarrow> Some (Throw e)
      | None \<Rightarrow>
          if \<not> start_ok E then Some (Throw (RuntimeError ''stream start write failed''))
          else case stream_send (statuses E) (dn_messages data_dir E d blkid) of
            None \<Rightarrow> None
          | Some messages \<Rightarrow>
              (let res = receive_all (\<lambda>data. data) messages
               in if sha res \<noteq> blkid then Some (Throw (RuntimeError ''sha256sum check fail'')) else Some (Ok res)))"

section \<open>Lemmas\<close>

lemma concat_chunks: "0 < n \<Longrightarrow> concat (chunks n s) = s"
  by (induction n s rule: chunks.induct) (subst chunks.simps, auto)

lemma chunk_length: "c \<in> set (chunks n s) \<Longrightarrow> c \<noteq> [] \<and> length c \<le> n"
proof (induction n s rule: chunks.induct)
  case (1 n s)
  then show ?case by (subst (asm) (2) chunks.simps) (auto split: if_splits)
qed

lemma receive_all_concat [simp]: "receive_all f ms = f (concat ms)"
  by (simp add: receive_all_def on_closed_def on_received_messages_def new_StreamReceiver_def)

text \<open>What arrives is always a prefix of what was sent, in order.\<close>

lemma stream_send_prefix: "stream_send ss cs = Some ms \<Longrightarrow> \<exists>rest. cs = ms @ rest"
  by (induction ss cs arbitrary: ms rule: stream_send.induct) auto

lemma stream_send_all:
  "Broken \<notin> set ss \<Longrightarrow> stream_send ss cs = Some ms \<Longrightarrow> ms = cs"
  by (induction ss cs arbitrary: ms rule: stream_send.induct) auto

text \<open>The sending ends when there are enough positive answers.\<close>

lemma stream_send_returns:
  "Broken \<notin> set ss \<Longrightarrow> length cs \<le> length (filter (\<lambda>s. s = Written) ss) \<Longrightarrow> stream_send ss cs = Some cs"
  by (induction ss cs rule: stream_send.induct) (auto split: if_splits)

lemma chunk_size_pos [simp]: "0 < BRPC_STREAM_CHUNK_SIZE"
  by (simp add: BRPC_STREAM_CHUNK_SIZE_def)

lemma put_to_datanode_stored:
  assumes "put_to_datanode sha dir E d block = Some (Ok h, d')" "Broken \<notin> set (statuses E)" "file_ok E"
  shows "h = sha block \<and> d' = d(blk_file dir h \<mapsto> block)"
  using assms
  by (auto simp: put_to_datanode_def Let_def dn_store_def concat_chunks dest!: stream_send_all
      split: if_splits option.splits)

lemma get_from_datanode_digest: "get_from_datanode sha dir E d blkid = Some (Ok data) \<Longrightarrow> sha data = blkid"
  by (auto simp: get_from_datanode_def Let_def split: if_splits option.splits)

text \<open>Calls in which nothing goes wrong.\<close>

definition good_call :: "call_env \<Rightarrow> bool" where
  "good_call E \<longleftrightarrow> create_ok E \<and> rpc_error E = None \<and> start_ok E \<and> close_ok E \<and> file_ok E \<and> Broken \<notin> set (statuses E)"

definition enough :: "call_env \<Rightarrow> string \<Rightarrow> bool" where
  "enough E s \<longleftrightarrow> length (chunks BRPC_STREAM_CHUNK_SIZE s) \<le> length (filter (\<lambda>x. x = Written) (statuses E))"

lemma put_good:
  assumes "good_call E" "enough E block"
  shows "put_to_datanode sha dir E d block = Some (Ok (sha block), d(blk_file dir (sha block) \<mapsto> block))"
  using assms stream_send_returns [of "statuses E" "chunks BRPC_STREAM_CHUNK_SIZE block"]
  by (simp add: Let_def put_to_datanode_def good_call_def enough_def dn_store_def concat_chunks)

lemma get_good:
  assumes "good_call E" "enough E content" "d (blk_file dir blkid) = Some content" "sha content = blkid"
  shows "get_from_datanode sha dir E d blkid = Some (Ok content)"
proof (cases "content = []")
  case True
  then show ?thesis
    using assms by (simp add: get_from_datanode_def good_call_def dn_messages_def)
next
  case False
  then show ?thesis
    using assms stream_send_returns [of "statuses E" "chunks BRPC_STREAM_CHUNK_SIZE content"]
    by (simp add: get_from_datanode_def good_call_def enough_def dn_messages_def concat_chunks)
qed

end
