(* ===== verification/Sdk_Blocks.thy ===== *)
theory Sdk_Blocks
  imports Inodes Datanodes
begin

text \<open>
  How the client stores and reads the contents of files: \<^verbatim>\<open>src/client/sdk.cpp\<close>
  (\<open>encode_one_block\<close>, \<open>decode_one_block\<close>, \<open>get\<close>) and \<^verbatim>\<open>include/common/data_retrive.hpp\<close>
  (\<open>split_all_block\<close>, \<open>encode_content\<close>, \<open>datanode_put\<close>).

  A file is cut into blocks, each block is encoded into fragments, and the fragments are put on the
  online data nodes in turn; a failed call is tried again on the next node. This loop need not end,
  so it has fuel; \<open>None\<close> is a loop that has not returned. \<open>env n\<close> is what happens during the \<open>n\<close>-th call.
\<close>

type_synonym cluster = "string \<Rightarrow> disk"

record client =
  cl_sha :: "string \<Rightarrow> string"
  cl_dir :: string
  cl_ec :: ec_lib

section \<open>Cutting a file into blocks\<close>

text \<open>The buffer \<^verbatim>\<open>tmp\<close> is reused, so the last block ends with what the block before it left there.
  Division by a block size of zero stops the process.\<close>

fun full_blocks :: "nat \<Rightarrow> nat \<Rightarrow> string \<Rightarrow> string \<Rightarrow> string list \<times> string" where
  "full_blocks 0 bs raw tmp = ([], tmp)"
| "full_blocks (Suc n) bs raw tmp =
     (let tmp' = take bs raw; (vec, t) = full_blocks n bs (drop bs raw) tmp' in (tmp' # vec, t))"

definition split_all_block :: "nat \<Rightarrow> string \<Rightarrow> string list outcome" where
  "split_all_block blockSize raw_data =
     (if blockSize = 0 then Abort ''division by zero''
      else
        let block_nums = length raw_data div blockSize;
            bytes_remained = length raw_data mod blockSize;
            (vec, tmp) = full_blocks block_nums blockSize raw_data (replicate blockSize (CHR 0x00))
        in Ok (if bytes_remained > 0
               then vec @ [drop (block_nums * blockSize) raw_data @ drop bytes_remained tmp]
               else vec))"

text \<open>The block size is a \<^verbatim>\<open>size_t\<close> made from an \<^verbatim>\<open>int\<close>; a negative value becomes huge, and the allocation
  of the buffer fails.\<close>

definition encode_content :: "client \<Rightarrow> StorageType \<Rightarrow> string \<Rightarrow> string list list outcome" where
  "encode_content C st content =
     (if get_block_size st < 0 then Throw (RuntimeError ''std::bad_alloc'')
      else bindO (split_all_block (nat (get_block_size st)) content) (mapO (st_encode (cl_ec C) st)))"

section \<open>Placing fragments\<close>

record placing =
  pl_index :: nat
  pl_succ :: nat
  pl_fail :: nat
  pl_hashs :: "(string \<times> string) list"
  pl_cluster :: cluster
  pl_calls :: nat

text \<open>One call of \<open>put_to_datanode\<close> and the bookkeeping around it; the result says whether the
  fragment was placed.\<close>

definition place_call ::
  "client \<Rightarrow> (nat \<Rightarrow> call_env) \<Rightarrow> string list \<Rightarrow> string \<Rightarrow> placing \<Rightarrow> (bool \<times> placing) option" where
  "place_call C env nodes frag s =
     (let node = nodes ! pl_index s
      in case put_to_datanode (cl_sha C) (cl_dir C) (env (pl_calls s)) (pl_cluster s node) frag of
           None \<Rightarrow> None
         | Some (r, d) \<Rightarrow>
             (let s1 = s\<lparr>pl_cluster := (pl_cluster s)(node := d), pl_calls := Suc (pl_calls s),
                         pl_index := (pl_index s + 1) mod length nodes\<rparr>
              in case r of
                   Ok h \<Rightarrow> Some (True, s1\<lparr>pl_hashs := pl_hashs s @ [(node, h)], pl_succ := Suc (pl_succ s)\<rparr>)
                 | _ \<Rightarrow> Some (False, s1\<lparr>pl_fail := Suc (pl_fail s)\<rparr>)))"

fun place ::
  "nat \<Rightarrow> client \<Rightarrow> StorageType \<Rightarrow> (nat \<Rightarrow> call_env) \<Rightarrow> string list \<Rightarrow> string list \<Rightarrow> placing \<Rightarrow> placing option" where
  "place fuel C st env nodes [] s = Some s"
| "place 0 C st env nodes (v # vs) s = None"
| "place (Suc fuel) C st env nodes (v # vs) s =
     (case place_call C env nodes v s of
        None \<Rightarrow> None
      | Some (placed, s1) \<Rightarrow>
          (let rest = (if placed then vs else v # vs)
           in if pl_index s1 = 0 \<and> \<not> st_check st (int (pl_succ s1)) then
                (if pl_fail s1 = length nodes then Some s1
                 else place fuel C st env nodes rest (s1\<lparr>pl_fail := 0\<rparr>))
              else place fuel C st env nodes rest s1))"

text \<open>\<open>SDK::encode_one_block\<close>. Indexing an empty vector of nodes is undefined; encoding may throw.\<close>

definition encode_one_block ::
  "nat \<Rightarrow> client \<Rightarrow> StorageType \<Rightarrow> (nat \<Rightarrow> call_env) \<Rightarrow> string list \<Rightarrow> nat \<Rightarrow> cluster \<Rightarrow> string
     \<Rightarrow> (string outcome \<times> cluster \<times> nat) option" where
  "encode_one_block fuel C st env nodes n cl block =
     (case st_encode (cl_ec C) st block of
        Throw e \<Rightarrow> Some (Throw e, cl, n)
      | Abort a \<Rightarrow> Some (Abort a, cl, n)
      | Ok vec \<Rightarrow>
          if vec \<noteq> [] \<and> nodes = [] then Some (Abort ''nodes[0] of an empty vector'', cl, n)
          else
            map_option (\<lambda>s. (encode_one_sub (pl_hashs s), pl_cluster s, pl_calls s))
              (place fuel C st env nodes vec \<lparr>pl_index = 0, pl_succ = 0, pl_fail = 0, pl_hashs = [],
                 pl_cluster = cl, pl_calls = n\<rparr>))"

text \<open>\<open>DataRetrive::datanode_put\<close>: the counters are kept from block to block.\<close>

fun datanode_put ::
  "nat \<Rightarrow> client \<Rightarrow> StorageType \<Rightarrow> (nat \<Rightarrow> call_env) \<Rightarrow> string list \<Rightarrow> string list list \<Rightarrow> placing
     \<Rightarrow> (string list outcome \<times> placing) option" where
  "datanode_put fuel C st env nodes [] s = Some (Ok [], s)"
| "datanode_put fuel C st env nodes (vec # vecs) s =
     (if vec \<noteq> [] \<and> nodes = [] then Some (Abort ''nodes[0] of an empty vector'', s)
      else case place fuel C st env nodes vec (s\<lparr>pl_hashs := []\<rparr>) of
        None \<Rightarrow> None
      | Some s1 \<Rightarrow>
          (case encode_one_sub (pl_hashs s1) of
             Throw e \<Rightarrow> Some (Throw e, s1)
           | Abort a \<Rightarrow> Some (Abort a, s1)
           | Ok one \<Rightarrow>
               map_option (\<lambda>(r, s2). (bindO r (\<lambda>subs. Ok (one # subs)), s2))
                 (datanode_put fuel C st env nodes vecs s1)))"

section \<open>Reading blocks\<close>

text \<open>\<^verbatim>\<open>datas[succ++] = ...\<close>: the right-hand side is evaluated first. When decoding throws, the loop goes on
  with a full vector, and the next fragment would be stored past its end. The source ends an unsuccessful loop
  with the empty string.\<close>

fun fetch_loop ::
  "client \<Rightarrow> StorageType \<Rightarrow> (nat \<Rightarrow> call_env) \<Rightarrow> cluster \<Rightarrow> nat \<Rightarrow> (string \<times> string) list \<Rightarrow> string list
     \<Rightarrow> string outcome option" where
  "fetch_loop C st env cl n [] datas = Some (Ok [])"
| "fetch_loop C st env cl n ((node, blkid) # ps) datas =
     (case get_from_datanode (cl_sha C) (cl_dir C) (env n) (cl node) blkid of
        None \<Rightarrow> None
      | Some (Abort a) \<Rightarrow> Some (Abort a)
      | Some (Throw e) \<Rightarrow> fetch_loop C st env cl (Suc n) ps datas
      | Some (Ok data) \<Rightarrow>
          if int (length datas) \<ge> getDecodeBlocks st then Some (Abort ''datas[succ] out of range'')
          else if int (Suc (length datas)) = getDecodeBlocks st then
            (case st_decode (cl_ec C) st (datas @ [data]) of
               Throw e \<Rightarrow> fetch_loop C st env cl (Suc n) ps (datas @ [data])
             | r \<Rightarrow> Some r)
          else fetch_loop C st env cl (Suc n) ps (datas @ [data]))"

text \<open>\<^verbatim>\<open>datas.resize\<close> of a negative number of blocks throws.\<close>

definition decode_one_block ::
  "client \<Rightarrow> StorageType \<Rightarrow> (nat \<Rightarrow> call_env) \<Rightarrow> cluster \<Rightarrow> nat \<Rightarrow> string \<Rightarrow> string outcome option" where
  "decode_one_block C st env cl n s =
     (if getDecodeBlocks st < 0 then Some (Throw (RuntimeError ''std::length_error''))
      else fetch_loop C st env cl n (decode_one_sub s) [])"

text \<open>The blocks of a file, in order. The calls are numbered by the fragments they are for.\<close>

fun get_blocks ::
  "client \<Rightarrow> StorageType \<Rightarrow> (nat \<Rightarrow> call_env) \<Rightarrow> cluster \<Rightarrow> nat \<Rightarrow> string list \<Rightarrow> string outcome option" where
  "get_blocks C st env cl n [] = Some (Ok [])"
| "get_blocks C st env cl n (s # ss) =
     (case decode_one_block C st env cl n s of
        None \<Rightarrow> None
      | Some (Throw e) \<Rightarrow> Some (Throw e)
      | Some (Abort a) \<Rightarrow> Some (Abort a)
      | Some (Ok b) \<Rightarrow>
          map_option (\<lambda>r. bindO r (\<lambda>rest. Ok (b @ rest)))
            (get_blocks C st env cl (n + length (decode_one_sub s)) ss))"

section \<open>Reading a file\<close>

text \<open>\<^verbatim>\<open>ss >> i\<close> on a string stream: white space, sign, digits; \<open>None\<close> when it fails.\<close>

definition extract_int :: "string \<Rightarrow> (int \<times> string) option" where
  "extract_int s =
     (let (neg, t) = strip_sign (dropWhile is_space s); ds = takeWhile is_digit t;
          v = (if neg then - int (digits_val ds) else int (digits_val ds))
      in if ds = [] \<or> \<not> in_int v then None else Some (v, dropWhile is_digit t))"

text \<open>\<^verbatim>\<open>ss >> begin >> delimiter >> end\<close>\<close>

definition extract_range :: "string \<Rightarrow> (int \<times> int) option" where
  "extract_range s =
     (case extract_int s of
        None \<Rightarrow> None
      | Some (b, rest) \<Rightarrow>
          (case dropWhile is_space rest of
             [] \<Rightarrow> None
           | d # rest' \<Rightarrow> map_option (\<lambda>(e, _). (b, e)) (extract_int rest')))"

text \<open>The text before and after the last comma, if there is one.\<close>

definition rsplit_comma :: "string \<Rightarrow> (string \<times> string) option" where
  "rsplit_comma s =
     (if CHR '','' \<in> set s
      then Some (rev (tl (dropWhile (\<lambda>c. c \<noteq> CHR '','') (rev s))), rev (takeWhile (\<lambda>c. c \<noteq> CHR '','') (rev s)))
      else None)"

text \<open>The part of \<open>get\<close> for a file inside an aggregate. The fragments are those of the aggregate; the text
  after the last comma is the position of the file in it.\<close>

definition get_agg_part ::
  "client \<Rightarrow> StorageType \<Rightarrow> (nat \<Rightarrow> call_env) \<Rightarrow> cluster \<Rightarrow> string list \<Rightarrow> string outcome option" where
  "get_agg_part C st env cl subs =
     (case subs of
        [] \<Rightarrow> Some (Throw (RuntimeError ''agg file sub is empty''))
      | s # _ \<Rightarrow>
          (let parsed = (case rsplit_comma s of
                           None \<Rightarrow> Some (0, 0, s)
                         | Some (front, pos) \<Rightarrow> map_option (\<lambda>(b, e). (b, e, front)) (extract_range pos))
           in case parsed of
                None \<Rightarrow> Some (Throw (RuntimeError ''Invalid format: Unable to parse begin|end''))
              | Some (b, e, front) \<Rightarrow>
                  (case decode_one_block C st env cl 0 front of
                     Some (Ok block) \<Rightarrow>
                       if b < 0 \<or> (e < 0 \<or> e > int (length block)) \<or> b \<ge> e
                       then Some (Throw (RuntimeError ''Invalid range: begin or end out of bounds''))
                       else Some (Ok (take (nat (e - b + 1)) (drop (nat b) block)))
                   | r \<Rightarrow> r)))"

definition resize_file :: "string \<Rightarrow> nat \<Rightarrow> string" where
  "resize_file s n = take n s @ replicate (n - length s) (CHR 0x00)"

text \<open>\<open>SDK::get\<close> from the inode on: the contents of the local file. Reading through a null pointer stops
  the process.\<close>

definition sdk_get ::
  "client \<Rightarrow> (nat \<Rightarrow> call_env) \<Rightarrow> cluster \<Rightarrow> bool \<Rightarrow> Inode \<Rightarrow> string outcome option" where
  "sdk_get C env cl dst_open inode =
     (case storage_type_ptr inode of
        None \<Rightarrow> Some (Abort ''null storage_type_ptr'')
      | Some st \<Rightarrow>
          if \<not> dst_open then Some (Throw (RuntimeError ''Failed to open file''))
          else
            map_option (\<lambda>r. bindO r (\<lambda>data. Ok (resize_file data (unat (filesize inode)))))
              (if agg_inode_id inode \<noteq> [] then get_agg_part C st env cl (sub inode)
               else get_blocks C st env cl 0 (sub inode)))"

section \<open>Blocks of a file\<close>

lemma full_blocks_props:
  assumes "n * bs \<le> length raw" "length tmp = bs" "full_blocks n bs raw tmp = (vec, t)"
  shows "concat vec = take (n * bs) raw \<and> length vec = n \<and> (\<forall>b\<in>set vec. length b = bs) \<and> length t = bs"
  using assms
proof (induction n arbitrary: raw tmp vec t)
  case (Suc n)
  obtain vec' where v: "full_blocks n bs (drop bs raw) (take bs raw) = (vec', t)" "vec = take bs raw # vec'"
    using Suc.prems(3) by (auto simp: Let_def split: prod.splits)
  have "length (take bs raw) = bs" "n * bs \<le> length (drop bs raw)" using Suc.prems(1) by simp_all
  from Suc.IH [OF this(2) this(1) v(1)] Suc.prems(1) v(2) show ?case
    by (simp add: take_add [symmetric])
qed auto

lemma div_block: "x < bs \<Longrightarrow> (q * bs + x) div bs = q" for x :: nat
  by simp

lemma split_all_block_props:
  assumes "0 < bs"
  obtains vec where "split_all_block bs raw = Ok vec" "\<forall>b\<in>set vec. length b = bs"
    "take (length raw) (concat vec) = raw" "length vec = (length raw + bs - 1) div bs"
proof -
  let ?n = "length raw div bs" and ?r = "length raw mod bs"
  obtain v t where v: "full_blocks ?n bs raw (replicate bs (CHR 0x00)) = (v, t)" by fastforce
  have n: "?n * bs \<le> length raw" by simp
  from full_blocks_props [OF n _ v] have p: "concat v = take (?n * bs) raw" "length v = ?n"
    "\<forall>b\<in>set v. length b = bs" "length t = bs" by simp_all
  show thesis
  proof (cases "?r = 0")
    case True
    then have eq: "length raw + bs - 1 = ?n * bs + (bs - 1)"
      using assms div_mult_mod_eq [of "length raw" bs] by simp
    show thesis
    proof (rule that [of v])
      show "split_all_block bs raw = Ok v" using v True assms by (simp add: split_all_block_def)
      show "take (length raw) (concat v) = raw"
        using p(1) True div_mult_mod_eq [of "length raw" bs] by simp
      show "length v = (length raw + bs - 1) div bs" unfolding eq p(2) using assms by (simp only: div_block diff_less)
    qed (rule p(3))
  next
    case False
    let ?last = "drop (?n * bs) raw @ drop ?r t"
    have eq: "length raw + bs - 1 = Suc ?n * bs + (?r - 1)"
      using False div_mult_mod_eq [of "length raw" bs] by simp
    have r: "?r < bs" using assms by (rule mod_less_divisor)
    then have r1: "?r - 1 < bs" by simp
    show thesis
    proof (rule that [of "v @ [?last]"])
      show "split_all_block bs raw = Ok (v @ [?last])" using v False assms by (simp add: split_all_block_def)
      have "length raw - ?n * bs = ?r" by (simp add: minus_div_mult_eq_mod)
      then show "\<forall>b\<in>set (v @ [?last]). length b = bs" using p(3,4) r by simp
      show "take (length raw) (concat (v @ [?last])) = raw" using p(1) n by simp
      show "length (v @ [?last]) = (length raw + bs - 1) div bs" unfolding eq using r1 p(2) by (simp only: div_block length_append list.size)
    qed
  qed
qed

section \<open>Decoding gives the block or nothing\<close>

text \<open>The fragments of a block: decoding any \<open>getDecodeBlocks\<close> of them gives the block back.\<close>

definition frags_of :: "client \<Rightarrow> StorageType \<Rightarrow> string \<Rightarrow> string list \<Rightarrow> bool" where
  "frags_of C st block frags \<longleftrightarrow> 1 \<le> getDecodeBlocks st \<and> getDecodeBlocks st \<le> int (length frags) \<and>
     (\<forall>is. distinct is \<and> int (length is) = getDecodeBlocks st \<and> (\<forall>i\<in>set is. i < length frags) \<longrightarrow>
        st_decode (cl_ec C) st (map (\<lambda>i. frags ! i) is) = Ok block)"

text \<open>The storage types for which the erasure code keeps its promise.\<close>

fun st_works :: "client \<Rightarrow> StorageType \<Rightarrow> bool" where
  "st_works C (RSStorageType k m b) = ec_law (cl_ec C) k m"
| "st_works C (REStorageType r b) = (1 \<le> r)"
| "st_works C (AggStorageType k m b) = ec_law (cl_ec C) k m"

lemma st_encode_frags:
  assumes "st_works C st"
  obtains frags where "st_encode (cl_ec C) st block = Ok frags" "frags_of C st block frags"
proof (cases st)
  case (RSStorageType k m b)
  with assms have law: "ec_law (cl_ec C) k m" by simp
  then have km: "1 \<le> k" "0 \<le> m" by (simp_all add: ec_law_def)
  show ?thesis
  proof (rule rs_encode_law [OF law, of block])
    fix fs len
    assume fs: "rs_encode (cl_ec C) block k m = Ok fs" "length fs = nat (k + m)"
      and dec: "\<And>is. distinct is \<Longrightarrow> length is = nat k \<Longrightarrow> \<forall>i\<in>set is. i < length fs \<Longrightarrow>
       rs_decode (cl_ec C) (map (\<lambda>i. fs ! i) is) k m = Ok block"
    have "st_decode (cl_ec C) st (map (\<lambda>i. fs ! i) is) = Ok block"
      if "distinct is" "int (length is) = k" "\<forall>i\<in>set is. i < length fs" for "is"
      using dec [of "is"] that RSStorageType km by auto
    then have "frags_of C st block fs"
      using RSStorageType fs(2) km by (simp add: frags_of_def)
    with fs(1) that RSStorageType show ?thesis by simp
  qed
next
  case (REStorageType r b)
  with assms have "1 \<le> r" by simp
  moreover have "st_decode (cl_ec C) st (map (\<lambda>i. replicate (nat r) block ! i) is) = Ok block"
    if "length is = 1" "\<forall>i\<in>set is. i < nat r" for "is"
    using that REStorageType by (cases "is") auto
  ultimately show ?thesis
    using that [of "replicate (nat r) block"] REStorageType by (auto simp: frags_of_def)
next
  case (AggStorageType k m b)
  with assms have law: "ec_law (cl_ec C) k m" by simp
  then have km: "1 \<le> k" "0 \<le> m" by (simp_all add: ec_law_def)
  show ?thesis
  proof (rule rs_encode_law [OF law, of block])
    fix fs len
    assume fs: "rs_encode (cl_ec C) block k m = Ok fs" "length fs = nat (k + m)"
      and dec: "\<And>is. distinct is \<Longrightarrow> length is = nat k \<Longrightarrow> \<forall>i\<in>set is. i < length fs \<Longrightarrow>
       rs_decode (cl_ec C) (map (\<lambda>i. fs ! i) is) k m = Ok block"
    have "st_decode (cl_ec C) st (map (\<lambda>i. fs ! i) is) = Ok block"
      if "distinct is" "int (length is) = k" "\<forall>i\<in>set is. i < length fs" for "is"
      using dec [of "is"] that AggStorageType km by auto
    then have "frags_of C st block fs"
      using AggStorageType fs(2) km by (simp add: frags_of_def)
    with fs(1) that AggStorageType show ?thesis by simp
  qed
qed

text \<open>No other text has the digest of one of these.\<close>

definition digest_safe :: "client \<Rightarrow> string list \<Rightarrow> bool" where
  "digest_safe C frags \<longleftrightarrow> (\<forall>f\<in>set frags. \<forall>d. cl_sha C d = cl_sha C f \<longrightarrow> d = f)"

text \<open>What is recorded for a block: for a prefix of its fragments, a node and the digest.\<close>

definition recorded :: "client \<Rightarrow> string list \<Rightarrow> nat \<Rightarrow> (string \<times> string) list \<Rightarrow> bool" where
  "recorded C frags j ps \<longleftrightarrow> j + length ps \<le> length frags \<and>
     (\<forall>i<length ps. snd (ps ! i) = cl_sha C (frags ! (j + i)))"

lemma recorded_Cons:
  "recorded C frags j (p # ps) \<longleftrightarrow> j < length frags \<and> snd p = cl_sha C (frags ! j) \<and> recorded C frags (Suc j) ps"
  by (auto simp: recorded_def less_Suc_eq_0_disj nth_Cons split: nat.splits)

lemma fetch_loop_integrity:
  assumes frags: "frags_of C st block frags" and safe: "digest_safe C frags"
    and ps: "recorded C frags j ps" and js: "distinct js" "\<forall>i\<in>set js. i < j"
    and k: "int (length js) < getDecodeBlocks st"
    and run: "fetch_loop C st env cl n ps (map (\<lambda>i. frags ! i) js) = Some r"
  shows "r = Ok block \<or> r = Ok []"
  using ps js k run
proof (induction ps arbitrary: n j js)
  case (Cons p ps)
  obtain node blkid where p: "p = (node, blkid)" by fastforce
  have rec: "j < length frags" "blkid = cl_sha C (frags ! j)" "recorded C frags (Suc j) ps"
    using Cons.prems(1) by (simp_all add: recorded_Cons p)
  let ?g = "get_from_datanode (cl_sha C) (cl_dir C) (env n) (cl node) blkid"
  consider "?g = None" | a where "?g = Some (Abort a)" | e where "?g = Some (Throw e)" | d where "?g = Some (Ok d)"
    by (metis not_Some_eq outcome.exhaust)
  then show ?case
  proof cases
    case 2
    then show ?thesis by (auto simp: get_from_datanode_def Let_def split: if_splits option.splits)
  next
    case 3
    with Cons.prems p have "fetch_loop C st env cl (Suc n) ps (map (\<lambda>i. frags ! i) js) = Some r" by simp
    moreover have "\<forall>i\<in>set js. i < Suc j" using Cons.prems(3) by auto
    ultimately show ?thesis using Cons.IH [OF rec(3) Cons.prems(2) _ Cons.prems(4)] by blast
  next
    case 4
    then have "d = frags ! j"
      using get_from_datanode_digest [OF 4] rec(1,2) safe nth_mem [OF rec(1)] unfolding digest_safe_def by metis
    then have ext: "map (\<lambda>i. frags ! i) js @ [d] = map (\<lambda>i. frags ! i) (js @ [j])" by simp
    have js: "distinct (js @ [j])" "\<forall>i\<in>set (js @ [j]). i < Suc j" using Cons.prems(2,3) by auto
    show ?thesis
    proof (cases "int (Suc (length js)) = getDecodeBlocks st")
      case True
      then have "int (length (js @ [j])) = getDecodeBlocks st" by simp
      moreover have "\<forall>i\<in>set (js @ [j]). i < length frags" using js(2) rec(1) by auto
      ultimately have "st_decode (cl_ec C) st (map (\<lambda>i. frags ! i) (js @ [j])) = Ok block"
        using frags js(1) unfolding frags_of_def by blast
      then show ?thesis using Cons.prems(4,5) 4 p True ext by simp
    next
      case False
      then have "fetch_loop C st env cl (Suc n) ps (map (\<lambda>i. frags ! i) (js @ [j])) = Some r"
        using Cons.prems(4,5) 4 p ext by simp
      moreover have "int (length (js @ [j])) < getDecodeBlocks st" using Cons.prems(4) False by simp
      ultimately show ?thesis using Cons.IH [OF rec(3) js] by blast
    qed
  qed (use Cons.prems p in simp)
qed simp

section \<open>Enough fragments are enough\<close>

definition readable :: "client \<Rightarrow> (nat \<Rightarrow> call_env) \<Rightarrow> cluster \<Rightarrow> nat \<Rightarrow> (string \<times> string) list \<Rightarrow> nat \<Rightarrow> bool" where
  "readable C env cl n ps i \<longleftrightarrow>
     (\<exists>d. get_from_datanode (cl_sha C) (cl_dir C) (env (n + i)) (cl (fst (ps ! i))) (snd (ps ! i)) = Some (Ok d))"

definition all_return :: "client \<Rightarrow> (nat \<Rightarrow> call_env) \<Rightarrow> cluster \<Rightarrow> nat \<Rightarrow> (string \<times> string) list \<Rightarrow> bool" where
  "all_return C env cl n ps \<longleftrightarrow> (\<forall>i<length ps.
     get_from_datanode (cl_sha C) (cl_dir C) (env (n + i)) (cl (fst (ps ! i))) (snd (ps ! i)) \<noteq> None)"

lemma readable_Cons:
  "{i. i < length (p # ps) \<and> readable C env cl n (p # ps) i} =
     (if readable C env cl n [p] 0 then {0} else {}) \<union> Suc ` {i. i < length ps \<and> readable C env cl (Suc n) ps i}"
proof -
  have zero: "readable C env cl n (p # ps) 0 = readable C env cl n [p] 0" by (simp add: readable_def)
  have suc: "readable C env cl n (p # ps) (Suc i) = readable C env cl (Suc n) ps i" for i by (simp add: readable_def)
  show ?thesis
    by (rule set_eqI, rename_tac i, case_tac i) (auto simp: zero suc)
qed

lemma card_readable_Cons:
  "card {i. i < length (p # ps) \<and> readable C env cl n (p # ps) i} =
     (if readable C env cl n [p] 0 then 1 else 0) + card {i. i < length ps \<and> readable C env cl (Suc n) ps i}"
  unfolding readable_Cons by (subst card_Un_disjoint) (auto simp: card_image)

lemma all_return_Cons:
  "all_return C env cl n (p # ps) \<longleftrightarrow> all_return C env cl n [p] \<and> all_return C env cl (Suc n) ps"
  by (auto simp: all_return_def nth_Cons less_Suc_eq_0_disj split: nat.splits)

lemma all_return_single:
  "all_return C env cl n [(node, blkid)] \<longleftrightarrow>
     get_from_datanode (cl_sha C) (cl_dir C) (env n) (cl node) blkid \<noteq> None"
  unfolding all_return_def by fastforce

lemma fetch_loop_available:
  assumes frags: "frags_of C st block frags" and safe: "digest_safe C frags"
    and ps: "recorded C frags j ps" and js: "distinct js" "\<forall>i\<in>set js. i < j"
    and k: "int (length js) < getDecodeBlocks st"
    and ret: "all_return C env cl n ps"
    and enough: "getDecodeBlocks st \<le> int (length js + card {i. i < length ps \<and> readable C env cl n ps i})"
  shows "fetch_loop C st env cl n ps (map (\<lambda>i. frags ! i) js) = Some (Ok block)"
  using ps js k ret enough
proof (induction ps arbitrary: n j js)
  case (Cons p ps)
  obtain node blkid where p: "p = (node, blkid)" by fastforce
  have rec: "j < length frags" "blkid = cl_sha C (frags ! j)" "recorded C frags (Suc j) ps"
    using Cons.prems(1) by (simp_all add: recorded_Cons p)
  have ret: "all_return C env cl n [p]" "all_return C env cl (Suc n) ps"
    using Cons.prems(5) by (simp_all add: all_return_Cons [of _ _ _ _ p ps])
  note cnt = Cons.prems(6) [unfolded card_readable_Cons]
  let ?g = "get_from_datanode (cl_sha C) (cl_dir C) (env n) (cl node) blkid"
  consider "?g = None" | a where "?g = Some (Abort a)" | e where "?g = Some (Throw e)" | d where "?g = Some (Ok d)"
    by (metis not_Some_eq outcome.exhaust)
  then show ?case
  proof cases
    case 1
    with ret(1) show ?thesis by (simp add: all_return_single p)
  next
    case 2
    then show ?thesis by (auto simp: get_from_datanode_def Let_def split: if_splits option.splits)
  next
    case (3 e)
    then have "\<not> readable C env cl n [p] 0" by (simp add: readable_def p)
    with cnt have "getDecodeBlocks st \<le> int (length js + card {i. i < length ps \<and> readable C env cl (Suc n) ps i})"
      by simp
    moreover have "\<forall>i\<in>set js. i < Suc j" using Cons.prems(3) by auto
    ultimately show ?thesis using Cons.IH [OF rec(3) Cons.prems(2) _ Cons.prems(4) ret(2)] 3 p by simp
  next
    case (4 d)
    then have "d = frags ! j"
      using get_from_datanode_digest [OF 4] rec(1,2) safe nth_mem [OF rec(1)] unfolding digest_safe_def by metis
    then have ext: "map (\<lambda>i. frags ! i) js @ [d] = map (\<lambda>i. frags ! i) (js @ [j])" by simp
    have js: "distinct (js @ [j])" "\<forall>i\<in>set (js @ [j]). i < Suc j" using Cons.prems(2,3) by auto
    show ?thesis
    proof (cases "int (Suc (length js)) = getDecodeBlocks st")
      case True
      then have "int (length (js @ [j])) = getDecodeBlocks st" by simp
      moreover have "\<forall>i\<in>set (js @ [j]). i < length frags" using js(2) rec(1) by auto
      ultimately have "st_decode (cl_ec C) st (map (\<lambda>i. frags ! i) (js @ [j])) = Ok block"
        using frags js(1) unfolding frags_of_def by blast
      then show ?thesis using Cons.prems(4) 4 p True ext by simp
    next
      case False
      then have "int (length (js @ [j])) < getDecodeBlocks st" using Cons.prems(4) by simp
      moreover have "getDecodeBlocks st \<le> int (length (js @ [j]) + card {i. i < length ps \<and> readable C env cl (Suc n) ps i})"
        using cnt by (simp split: if_splits)
      ultimately have "fetch_loop C st env cl (Suc n) ps (map (\<lambda>i. frags ! i) (js @ [j])) = Some (Ok block)"
        using Cons.IH [OF rec(3) js _ ret(2)] by blast
      then show ?thesis using Cons.prems(4) 4 p ext False by simp
    qed
  qed
qed simp

section \<open>Placement\<close>

lemma place_call_cases:
  assumes "place_call C env nodes v s = Some (placed, s1)"
  shows "pl_index s1 = (pl_index s + 1) mod length nodes" "pl_calls s1 = Suc (pl_calls s)"
    "placed \<Longrightarrow> pl_hashs s1 = pl_hashs s @ [(nodes ! pl_index s, cl_sha C v)] \<and> pl_succ s1 = Suc (pl_succ s)
       \<and> pl_fail s1 = pl_fail s"
    "\<not> placed \<Longrightarrow> pl_hashs s1 = pl_hashs s \<and> pl_succ s1 = pl_succ s \<and> pl_fail s1 = Suc (pl_fail s)"
  using assms
  by (auto simp: place_call_def put_to_datanode_def Let_def split: option.splits prod.splits outcome.splits if_splits)

lemma place_call_good:
  assumes "good_call (env (pl_calls s))" "enough (env (pl_calls s)) v"
  shows "\<exists>s1. place_call C env nodes v s = Some (True, s1) \<and>
    pl_cluster s1 = (pl_cluster s)(nodes ! pl_index s :=
      (pl_cluster s (nodes ! pl_index s))(blk_file (cl_dir C) (cl_sha C v) \<mapsto> v))"
  using put_good [OF assms] by (simp add: place_call_def Let_def)

text \<open>Whatever the calls do, what is recorded is a prefix of the fragments, with their digests, on
  nodes of the list.\<close>

definition placed_ok :: "client \<Rightarrow> string list \<Rightarrow> string list \<Rightarrow> placing \<Rightarrow> bool" where
  "placed_ok C nodes frags s \<longleftrightarrow> recorded C frags 0 (pl_hashs s) \<and> pl_index s < length nodes \<and>
     fst ` set (pl_hashs s) \<subseteq> set nodes"

lemma placed_ok_call:
  assumes "placed_ok C nodes frags s" "v # vs = drop (length (pl_hashs s)) frags"
    "place_call C env nodes v s = Some (placed, s1)"
  shows "placed_ok C nodes frags s1 \<and> (if placed then vs else v # vs) = drop (length (pl_hashs s1)) frags"
proof -
  let ?j = "length (pl_hashs s)"
  note c = place_call_cases [OF assms(3)]
  have j: "?j < length frags" using assms(2) by (metis drop_all leI list.simps(3))
  then have v: "v = frags ! ?j" "vs = drop (Suc ?j) frags"
    using assms(2) by (metis Cons_nth_drop_Suc list.inject)+
  have n: "0 < length nodes" using assms(1) by (auto simp: placed_ok_def)
  show ?thesis
  proof (cases placed)
    case True
    have "snd ((pl_hashs s @ [(nodes ! pl_index s, cl_sha C v)]) ! i) = cl_sha C (frags ! i)" if "i \<le> ?j" for i
      using that assms(1) v(1) by (cases "i = ?j") (auto simp: placed_ok_def recorded_def nth_append)
    with True c n assms(1) v j show ?thesis
      by (auto simp: placed_ok_def recorded_def less_Suc_eq_le)
  next
    case False
    with c n assms(1,2) show ?thesis by (simp add: placed_ok_def)
  qed
qed

lemma place_recorded:
  assumes "place fuel C st env nodes vs s = Some s'" "placed_ok C nodes frags s" "vs = drop (length (pl_hashs s)) frags"
  shows "placed_ok C nodes frags s'"
  using assms
proof (induction fuel C st env nodes vs s rule: place.induct)
  case (2 C st env nodes v vs s)
  then show ?case by (metis place.simps(2) option.distinct(1))
next
  case (3 fuel C st env nodes v vs s)
  obtain placed s1 where c: "place_call C env nodes v s = Some (placed, s1)"
    using "3.prems"(1) by (auto split: option.splits)
  note ok = placed_ok_call [OF "3.prems"(2,3) c]
  then have "placed_ok C nodes frags (s1\<lparr>pl_fail := 0\<rparr>)" by (simp add: placed_ok_def)
  with "3.IH" [OF c refl refl] "3.prems"(1) c ok show ?case by (simp add: Let_def split: if_splits)
qed simp_all

subsection \<open>One live node is enough\<close>

lemma st_check_mono: "st_check st a \<Longrightarrow> a \<le> b \<Longrightarrow> st_check st b"
  by (cases st) auto

text \<open>The calls that the node at position \<open>g\<close> gets are good; all calls return.\<close>

definition live_node :: "client \<Rightarrow> (nat \<Rightarrow> call_env) \<Rightarrow> nat \<Rightarrow> nat \<Rightarrow> nat \<Rightarrow> string list \<Rightarrow> bool" where
  "live_node C env n0 N g vs \<longleftrightarrow> g < N \<and>
     (\<forall>n. n mod N = g \<longrightarrow> good_call (env (n0 + n)) \<and> (\<forall>v\<in>set vs. enough (env (n0 + n)) v)) \<and>
     (\<forall>n d. \<forall>v\<in>set vs. put_to_datanode (cl_sha C) (cl_dir C) (env n) d v \<noteq> None)"

text \<open>As long as too few fragments are placed, the failures since the last turn of node 0 are fewer than
  the calls since then, and one of these was for node \<open>g\<close>.\<close>

definition place_inv :: "StorageType \<Rightarrow> nat \<Rightarrow> nat \<Rightarrow> nat \<Rightarrow> placing \<Rightarrow> bool" where
  "place_inv st n0 N g s \<longleftrightarrow> pl_index s < N \<and> n0 \<le> pl_calls s \<and> (pl_calls s - n0) mod N = pl_index s \<and>
     (\<not> st_check st (int (pl_succ s)) \<longrightarrow> pl_fail s + (if g < pl_index s then 1 else 0) \<le> pl_index s)"

definition calls_needed :: "nat \<Rightarrow> nat \<Rightarrow> nat \<Rightarrow> nat \<Rightarrow> nat" where
  "calls_needed N g r index = (if r = 0 then 0 else (r - 1) * N + (if index \<le> g then g - index else g + N - index) + 1)"

lemma calls_needed_step:
  assumes "g < N" "index < N" "0 < r" "r' \<le> r" "index = g \<Longrightarrow> r' < r"
  shows "Suc (calls_needed N g r' ((index + 1) mod N)) \<le> calls_needed N g r index"
proof -
  have m: "(index + 1) mod N = (if index + 1 = N then 0 else index + 1)" using assms(2) by auto
  show ?thesis
  proof (cases "r' = r")
    case True
    with assms m show ?thesis by (auto simp: calls_needed_def)
  next
    case False
    then have "r' \<le> r - 1" using assms(4) by simp
    then have "(r' - 1) * N + N \<le> (r - 1) * N" if "0 < r'"
      using that by (metis Suc_diff_1 add.commute mult_Suc mult_le_mono1)
    with assms m show ?thesis by (auto simp: calls_needed_def)
  qed
qed

lemma place_live:
  assumes "live_node C env n0 (length nodes) g vs" "place_inv st n0 (length nodes) g s"
    "calls_needed (length nodes) g (length vs) (pl_index s) \<le> fuel"
  shows "\<exists>s'. place fuel C st env nodes vs s = Some s' \<and> length (pl_hashs s') = length (pl_hashs s) + length vs"
  using assms
proof (induction fuel C st env nodes vs s rule: place.induct)
  case (2 C st env nodes v vs s)
  then show ?case by (simp add: calls_needed_def)
next
  case (3 fuel C st env nodes v vs s)
  let ?N = "length nodes"
  have inv: "pl_index s < ?N" "n0 \<le> pl_calls s" "(pl_calls s - n0) mod ?N = pl_index s"
    using "3.prems"(2) by (simp_all add: place_inv_def)
  have "place_call C env nodes v s \<noteq> None"
    using "3.prems"(1) by (auto simp: live_node_def place_call_def Let_def split: option.splits outcome.splits)
  then obtain placed s1 where c: "place_call C env nodes v s = Some (placed, s1)" by auto
  have "placed" if "pl_index s = g"
  proof -
    have "good_call (env (n0 + (pl_calls s - n0)))" "enough (env (n0 + (pl_calls s - n0))) v"
      using "3.prems"(1) inv that unfolding live_node_def by auto
    with place_call_good [of env s v C nodes] c inv(2) show ?thesis by auto
  qed
  note cc = place_call_cases [OF c]
  let ?rest = "if placed then vs else v # vs"
  have idx: "pl_index s1 = (if pl_index s + 1 = ?N then 0 else pl_index s + 1)" using cc(1) inv(1) by auto
  have calls: "n0 \<le> pl_calls s1" "(pl_calls s1 - n0) mod ?N = pl_index s1"
    using cc(1,2) inv by (auto simp: Suc_diff_le mod_Suc)
  have fail: "pl_fail s1 + (if g \<le> pl_index s then 1 else 0) \<le> Suc (pl_index s)"
    if "\<not> st_check st (int (pl_succ s1))"
  proof -
    have "\<not> st_check st (int (pl_succ s))"
      using that cc(3,4) st_check_mono [of st "int (pl_succ s)" "int (pl_succ s1)"] by (cases placed) auto
    then show ?thesis
      using "3.prems"(2) cc(3,4) \<open>pl_index s = g \<Longrightarrow> placed\<close> by (cases placed) (auto simp: place_inv_def split: if_splits)
  qed
  have live: "live_node C env n0 ?N g ?rest" using "3.prems"(1) by (auto simp: live_node_def)
  have g: "g < ?N" using "3.prems"(1) by (simp add: live_node_def)
  have fuel: "calls_needed ?N g (length ?rest) (pl_index s1) \<le> fuel"
    using calls_needed_step [of g ?N "pl_index s" "length (v # vs)" "length ?rest"] g inv(1) "3.prems"(3) cc(1)
      \<open>pl_index s = g \<Longrightarrow> placed\<close> by (auto split: if_splits)
  have len: "length (pl_hashs s1) + length ?rest = length (pl_hashs s) + length (v # vs)" using cc(3,4) by (cases placed) auto
  show ?case
  proof (cases "pl_index s1 = 0 \<and> \<not> st_check st (int (pl_succ s1))")
    case True
    then have "pl_index s + 1 = ?N" using idx by (auto split: if_splits)
    with fail True g have "pl_fail s1 \<noteq> ?N" by auto
    moreover have "place_inv st n0 ?N g (s1\<lparr>pl_fail := 0\<rparr>)" using True calls inv(1) by (auto simp: place_inv_def)
    ultimately show ?thesis using "3.IH"(1) [OF c refl refl True] live fuel c True len by (auto simp: Let_def)
  next
    case False
    have "place_inv st n0 ?N g s1"
      using False calls idx inv(1) fail by (auto simp: place_inv_def split: if_splits)
    then show ?thesis using "3.IH"(2) [OF c refl refl False] live fuel c False len by (auto simp: Let_def)
  qed
qed auto

subsection \<open>No live node, and the loop goes on\<close>

lemma place_endless:
  assumes "st_check st (int (pl_succ s))" "\<And>n d. n \<ge> pl_calls s \<Longrightarrow>
      \<exists>e d'. put_to_datanode (cl_sha C) (cl_dir C) (env n) d v = Some (Throw e, d')"
  shows "place fuel C st env nodes (v # vs) s = None"
  using assms
proof (induction fuel arbitrary: s)
  case (Suc fuel)
  obtain e d' where "put_to_datanode (cl_sha C) (cl_dir C) (env (pl_calls s)) (pl_cluster s (nodes ! pl_index s)) v
      = Some (Throw e, d')"
    using Suc.prems(2) by blast
  then obtain s1 where c: "place_call C env nodes v s = Some (False, s1)" by (simp add: place_call_def Let_def)
  note cc = place_call_cases(2,4) [OF c]
  have "place fuel C st env nodes (v # vs) s1 = None"
    using Suc.prems cc by (intro Suc.IH) auto
  with c Suc.prems(1) cc show ?case by (simp add: Let_def)
qed simp

section \<open>Writing and reading back\<close>

text \<open>Every recorded fragment is on its node, under its digest.\<close>

definition on_nodes :: "client \<Rightarrow> cluster \<Rightarrow> string list \<Rightarrow> (string \<times> string) list \<Rightarrow> bool" where
  "on_nodes C cl F hs \<longleftrightarrow> (\<forall>(node, h)\<in>set hs. \<forall>f\<in>set F. cl_sha C f = h \<longrightarrow> cl node (blk_file (cl_dir C) h) = Some f)"

definition all_good :: "(nat \<Rightarrow> call_env) \<Rightarrow> string list \<Rightarrow> bool" where
  "all_good env F \<longleftrightarrow> (\<forall>n. good_call (env n) \<and> (\<forall>f\<in>set F. enough (env n) f))"

lemma blk_file_inject: "blk_file dir a = blk_file dir b \<longleftrightarrow> a = b"
  by (simp add: blk_file_def)

lemma place_good:
  assumes "all_good env F" "digest_safe C F" "set vs \<subseteq> set F" "nodes \<noteq> []" "pl_fail s = 0"
    "length vs \<le> fuel" "pl_index s < length nodes" "on_nodes C (pl_cluster s) F (pl_hashs s @ old)"
  shows "\<exists>s'. place fuel C st env nodes vs s = Some s' \<and> pl_fail s' = 0 \<and> pl_index s' < length nodes \<and>
    length (pl_hashs s') = length (pl_hashs s) + length vs \<and> on_nodes C (pl_cluster s') F (pl_hashs s' @ old)"
  using assms
proof (induction fuel C st env nodes vs s rule: place.induct)
  case (3 fuel C st env nodes v vs s)
  let ?node = "nodes ! pl_index s"
  have v: "v \<in> set F" using "3.prems"(3) by simp
  obtain s1 where c: "place_call C env nodes v s = Some (True, s1)"
    and cl: "pl_cluster s1 = (pl_cluster s)(?node := (pl_cluster s ?node)(blk_file (cl_dir C) (cl_sha C v) \<mapsto> v))"
    using place_call_good [of env s v C nodes] "3.prems"(1) v by (auto simp: all_good_def)
  note cc = place_call_cases [OF c]
  have idx: "pl_index s1 < length nodes" using cc(1) "3.prems"(4) by simp
  have same: "f = v" if "f \<in> set F" "cl_sha C f = cl_sha C v" for f
    using that "3.prems"(2) v unfolding digest_safe_def by blast
  have on: "on_nodes C (pl_cluster s1) F (pl_hashs s1 @ old)"
    using "3.prems"(8) cc(3) same unfolding on_nodes_def cl by (fastforce simp: blk_file_inject)
  have nodes: "pl_fail s1 \<noteq> length nodes" using cc(3) "3.prems"(4,5) by simp
  show ?case
  proof (cases "pl_index s1 = 0 \<and> \<not> st_check st (int (pl_succ s1))")
    case True
    with "3.IH"(1) [OF c refl refl True nodes] "3.prems" c cc(3) on nodes show ?thesis by (auto simp: Let_def)
  next
    case False
    with "3.IH"(2) [OF c refl refl False] "3.prems" c cc(3) on idx show ?thesis by (auto simp: Let_def)
  qed
qed auto

text \<open>Addresses and digests that \<open>encode_one_sub\<close> can write down.\<close>

definition node_text :: "string \<Rightarrow> bool" where
  "node_text a \<longleftrightarrow> (\<exists>n. node_ok n \<and> CHR ''|'' \<notin> set (ip n) \<and> a = Node_to_string n)"

definition sha_clean :: "client \<Rightarrow> bool" where
  "sha_clean C \<longleftrightarrow> (\<forall>x. CHR '','' \<notin> set (cl_sha C x) \<and> CHR ''|'' \<notin> set (cl_sha C x))"

lemma encode_recorded:
  assumes "recorded C frags 0 hs" "fst ` set hs \<subseteq> set nodes" "\<forall>a\<in>set nodes. node_text a" "sha_clean C" "hs \<noteq> []"
  obtains one where "encode_one_sub hs = Ok one" "decode_one_sub one = hs"
proof -
  have ok: "frag_ok p" if "p \<in> set hs" for p
  proof -
    from that obtain i where i: "i < length hs" "p = hs ! i" by (metis in_set_conv_nth)
    then have "snd p = cl_sha C (frags ! i)" using assms(1) by (simp add: recorded_def)
    moreover have "node_text (fst p)" using that assms(2,3) by auto
    ultimately show ?thesis using assms(4) by (simp add: frag_ok_def node_text_def sha_clean_def)
  qed
  with encode_one_sub_ok [OF assms(5)] obtain one where "encode_one_sub hs = Ok one" by blast
  with decode_encode_sub [OF assms(5) ok] that show thesis by blast
qed

definition written :: "client \<Rightarrow> string list \<Rightarrow> string \<Rightarrow> bool" where
  "written C vec one \<longleftrightarrow> recorded C vec 0 (decode_one_sub one) \<and> length (decode_one_sub one) = length vec"

lemma on_nodes_append: "on_nodes C cl F (xs @ ys) \<longleftrightarrow> on_nodes C cl F xs \<and> on_nodes C cl F ys"
  by (auto simp: on_nodes_def)

lemma datanode_put_good:
  assumes "all_good env F" "digest_safe C F" "nodes \<noteq> []" "\<forall>a\<in>set nodes. node_text a" "sha_clean C"
    "\<forall>vec\<in>set vecs. set vec \<subseteq> set F \<and> vec \<noteq> [] \<and> length vec \<le> fuel"
    "pl_fail s = 0" "pl_index s < length nodes" "on_nodes C (pl_cluster s) F old"
  shows "\<exists>subs s'. datanode_put fuel C st env nodes vecs s = Some (Ok subs, s') \<and>
    list_all2 (written C) vecs subs \<and> on_nodes C (pl_cluster s') F (concat (map decode_one_sub subs) @ old)"
  using assms(6-9)
proof (induction vecs arbitrary: s old)
  case (Cons vec vecs)
  let ?s = "s\<lparr>pl_hashs := []\<rparr>"
  have vec: "set vec \<subseteq> set F" "vec \<noteq> []" "length vec \<le> fuel" using Cons.prems(1) by simp_all
  obtain s1 where s1: "place fuel C st env nodes vec ?s = Some s1" "pl_fail s1 = 0" "pl_index s1 < length nodes"
    "length (pl_hashs s1) = length vec" "on_nodes C (pl_cluster s1) F (pl_hashs s1 @ old)"
    using place_good [OF assms(1,2) vec(1) assms(3), of ?s fuel old st] vec(3) Cons.prems(2-4) by auto
  have "placed_ok C nodes vec s1"
    by (rule place_recorded [OF s1(1)]) (use Cons.prems(3) in \<open>simp_all add: placed_ok_def recorded_def\<close>)
  then have rec: "recorded C vec 0 (pl_hashs s1)" "fst ` set (pl_hashs s1) \<subseteq> set nodes"
    by (simp_all add: placed_ok_def)
  obtain one where one: "encode_one_sub (pl_hashs s1) = Ok one" "decode_one_sub one = pl_hashs s1"
    using encode_recorded [OF rec assms(4,5)] s1(4) vec(2) by (metis length_0_conv)
  obtain subs s' where "datanode_put fuel C st env nodes vecs s1 = Some (Ok subs, s')" "list_all2 (written C) vecs subs"
    "on_nodes C (pl_cluster s') F (concat (map decode_one_sub subs) @ pl_hashs s1 @ old)"
    using Cons.IH [of s1 "pl_hashs s1 @ old"] Cons.prems(1) s1 by auto
  moreover have "written C vec one" using one rec(1) s1(4) by (simp add: written_def)
  ultimately show ?case
    using s1(1) one assms(3) by (intro exI [of _ "one # subs"] exI [of _ s']) (auto simp: on_nodes_append)
qed (auto simp: on_nodes_append on_nodes_def)

lemma decode_good:
  assumes "frags_of C st block frags" "digest_safe C F" "set frags \<subseteq> set F" "written C frags one"
    "on_nodes C cl F (decode_one_sub one)" "all_good env F"
  shows "decode_one_block C st env cl n one = Some (Ok block)"
proof -
  let ?ps = "decode_one_sub one"
  have ps: "recorded C frags 0 ?ps" "length ?ps = length frags" using assms(4) by (simp_all add: written_def)
  have get: "get_from_datanode (cl_sha C) (cl_dir C) (env (n + i)) (cl (fst (?ps ! i))) (snd (?ps ! i)) = Some (Ok (frags ! i))"
    if i: "i < length ?ps" for i
  proof -
    have f: "frags ! i \<in> set F" using i ps(2) assms(3) by auto
    have h: "snd (?ps ! i) = cl_sha C (frags ! i)" using i ps(1) by (simp add: recorded_def)
    have "(fst (?ps ! i), snd (?ps ! i)) \<in> set ?ps" using i by simp
    then have "cl (fst (?ps ! i)) (blk_file (cl_dir C) (snd (?ps ! i))) = Some (frags ! i)"
      using assms(5) f h unfolding on_nodes_def by fastforce
    with f h assms(6) show ?thesis by (intro get_good) (auto simp: all_good_def)
  qed
  have safe: "digest_safe C frags" using assms(2,3) by (auto simp: digest_safe_def)
  have "{i. i < length ?ps \<and> readable C env cl n ?ps i} = {..<length ?ps}" using get by (auto simp: readable_def)
  then have "getDecodeBlocks st \<le> int (card {i. i < length ?ps \<and> readable C env cl n ?ps i})"
    using assms(1) ps(2) by (simp add: frags_of_def)
  moreover have "all_return C env cl n ?ps" using get by (simp add: all_return_def)
  ultimately show ?thesis
    using fetch_loop_available [OF assms(1) safe ps(1), of "[]" env cl n] assms(1)
    by (simp add: decode_one_block_def frags_of_def)
qed

lemma get_blocks_good:
  assumes "list_all2 (frags_of C st) blocks vecs" "list_all2 (written C) vecs subs" "digest_safe C F"
    "\<forall>vec\<in>set vecs. set vec \<subseteq> set F" "on_nodes C cl F (concat (map decode_one_sub subs))" "all_good env F"
  shows "get_blocks C st env cl n subs = Some (Ok (concat blocks))"
  using assms(1,2,4,5)
proof (induction blocks vecs arbitrary: subs n rule: list_all2_induct)
  case (Cons b bs v vs)
  then obtain one rest where subs: "subs = one # rest" "written C v one" "list_all2 (written C) vs rest"
    by (auto simp: list_all2_Cons1)
  have "decode_one_block C st env cl n one = Some (Ok b)"
    by (rule decode_good [OF Cons.hyps(1) assms(3) _ subs(2) _ assms(6)])
      (use Cons.prems subs in \<open>auto simp: on_nodes_append\<close>)
  with Cons.IH [OF subs(3)] Cons.prems subs show ?case by (simp add: on_nodes_append)
qed simp

lemma st_encode_blocks:
  assumes "st_works C st"
  shows "\<exists>vecs. mapO (st_encode (cl_ec C) st) blocks = Ok vecs \<and> list_all2 (frags_of C st) blocks vecs"
proof (induction blocks)
  case (Cons b bs)
  obtain frags where "st_encode (cl_ec C) st b = Ok frags" "frags_of C st b frags" using st_encode_frags [OF assms] .
  with Cons.IH show ?case by auto
qed simp

lemma resize_file_exact: "length s \<ge> n \<Longrightarrow> resize_file s n = take n s"
  by (simp add: resize_file_def)

lemma length_chunks: "length (chunks n s) \<le> length s"
proof (induction n s rule: chunks.induct)
  case (1 n s)
  show ?case
  proof (cases "s = [] \<or> n = 0")
    case False
    then have "length (drop n s) < length s" by simp
    with "1.IH" [OF False] have "Suc (length (chunks n (drop n s))) \<le> length s" by linarith
    with False show ?thesis by (subst chunks.simps) simp
  qed (subst chunks.simps, simp)
qed

section \<open>A concrete client\<close>

text \<open>Every call succeeds; the digest tells one given text from all others.\<close>

definition demo_call :: "nat \<Rightarrow> call_env" where
  "demo_call n = \<lparr>create_ok = True, rpc_error = None, accepted = True, start_ok = True,
     statuses = replicate n Written, close_ok = True, file_ok = True\<rparr>"

definition demo_down :: call_env where
  "demo_down = (demo_call 0)\<lparr>rpc_error := Some (RuntimeError ''brpc not success: ''), accepted := False\<rparr>"

definition demo_client :: "string \<Rightarrow> client" where
  "demo_client f = \<lparr>cl_sha = (\<lambda>x. if x = f then ''A'' else ''B''), cl_dir = ''/data'', cl_ec = ec_copy\<rparr>"

lemma demo_call_good: "good_call (demo_call n)" "length f \<le> n \<Longrightarrow> enough (demo_call n) f"
  using length_chunks [of BRPC_STREAM_CHUNK_SIZE f]
  by (simp_all add: good_call_def enough_def demo_call_def filter_replicate)

lemma demo_client_facts: "digest_safe (demo_client f) [f]" "sha_clean (demo_client f)"
  "st_works (demo_client f) (REStorageType 2 1)" "cl_ec (demo_client f) = ec_copy"
  by (simp_all add: digest_safe_def sha_clean_def demo_client_def)

lemma demo_node_text: "node_text ''n:1''"
proof -
  have "node_ok \<lparr>ip = ''n'', port = 1, nodeStatus = ONLINE\<rparr>"
    "''n:1'' = Node_to_string \<lparr>ip = ''n'', port = 1, nodeStatus = ONLINE\<rparr>"
    "CHR ''|'' \<notin> set (ip \<lparr>ip = ''n'', port = 1, nodeStatus = ONLINE\<rparr>)" by code_simp+
  then show ?thesis unfolding node_text_def by blast
qed

lemma demo_down_put: "put_to_datanode sha dir demo_down d v = Some (Throw (RuntimeError ''brpc not success: ''), d)"
  by (simp add: put_to_datanode_def demo_down_def demo_call_def)

lemma demo_down_get: "get_from_datanode sha dir demo_down d b = Some (Throw (RuntimeError ''brpc not success: ''))"
  by (simp add: get_from_datanode_def demo_down_def demo_call_def)

definition demo_block :: string where
  "demo_block = ''abc'' @ replicate 1048573 (CHR 0x00)"

lemma demo_content: "encode_content (demo_client demo_block) (REStorageType 2 1) ''abc'' = Ok [[demo_block, demo_block]]"
proof -
  have "get_block_size (REStorageType 2 1) = 1048576" by (simp add: get_block_size_def to_int32_def)
  then show ?thesis
    by (simp add: encode_content_def split_all_block_def demo_block_def numeral_2_eq_2)
qed

section \<open>Properties\<close>

text \<open>Cutting a file into blocks loses nothing: every block has the block size, there are as many as
  needed, and the blocks one after the other, cut to the size of the file, are the file.\<close>

theorem split_all_block_complete:
  assumes "0 < blockSize"
  shows "\<exists>vec. split_all_block blockSize content = Ok vec \<and> (\<forall>b\<in>set vec. length b = blockSize) \<and>
    take (length content) (concat vec) = content \<and> length vec = (length content + blockSize - 1) div blockSize"
  using split_all_block_props [OF assms, of content] by metis

theorem split_all_block_complete_witness:
  "\<exists>vec. split_all_block 2 ''abc'' = Ok vec \<and> (\<forall>b\<in>set vec. length b = 2) \<and>
    take (length ''abc'') (concat vec) = ''abc'' \<and> length vec = (length ''abc'' + 2 - 1) div 2"
  by (rule split_all_block_complete) simp

text \<open>C8: Whatever the data nodes and the network do, a block that is read is the block that was written, or
  nothing: no corrupted fragment gets into the result. The digests of the fragments must not
  collide with those of other texts.\<close>

theorem read_block_integrity:
  assumes "st_works C st" "st_encode (cl_ec C) st block = Ok frags" "digest_safe C frags"
    "recorded C frags 0 (decode_one_sub one)" "decode_one_block C st env cl n one = Some r"
  shows "r = Ok block \<or> r = Ok []"
proof -
  obtain fs where "st_encode (cl_ec C) st block = Ok fs" "frags_of C st block fs" using st_encode_frags [OF assms(1)] .
  with assms(2) have f: "frags_of C st block frags" by simp
  then have k: "int (length []) < getDecodeBlocks st" by (simp add: frags_of_def)
  from fetch_loop_integrity [OF f assms(3,4) _ _ k, of env cl n r] assms(5) k show ?thesis
    by (simp add: decode_one_block_def)
qed

theorem read_block_integrity_witness:
  "\<exists>r. decode_one_block (demo_client ''x'') (REStorageType 2 1) (\<lambda>n. demo_call 9) (\<lambda>a. [''/data/blk_A'' \<mapsto> ''x'']) 0 ''n:1|A'' = Some r
     \<and> (r = Ok ''x'' \<or> r = Ok [])"
proof -
  have "decode_one_sub ''n:1|A'' = [(''n:1'', ''A'')]" by code_simp
  moreover from this have "recorded (demo_client ''x'') [''x'', ''x''] 0 (decode_one_sub ''n:1|A'')"
    by (simp add: recorded_def demo_client_def)
  moreover have "get_from_datanode (cl_sha (demo_client ''x'')) (cl_dir (demo_client ''x'')) (demo_call 9)
      [''/data/blk_A'' \<mapsto> ''x''] ''A'' = Some (Ok ''x'')"
    by (rule get_good [OF demo_call_good(1) demo_call_good(2)]) (simp_all add: demo_client_def blk_file_def)
  ultimately have "decode_one_block (demo_client ''x'') (REStorageType 2 1) (\<lambda>n. demo_call 9)
      (\<lambda>a. [''/data/blk_A'' \<mapsto> ''x'']) 0 ''n:1|A'' = Some (Ok ''x'')"
    and rec: "recorded (demo_client ''x'') [''x'', ''x''] 0 (decode_one_sub ''n:1|A'')"
    by (simp_all add: decode_one_block_def demo_client_facts)
  moreover have "digest_safe (demo_client ''x'') [''x'', ''x'']" by (simp add: digest_safe_def demo_client_def)
  ultimately show ?thesis
    using read_block_integrity [OF demo_client_facts(3) _ _ rec] by (simp add: numeral_2_eq_2)
qed





text \<open>The comment in the source says that counting failures avoids an endless loop. It does not once
  \<open>check\<close> is satisfied: if the first fragments were stored and from then on every call fails, storing
  the block never returns.\<close>

theorem encode_one_block_endless:
  assumes "nodes \<noteq> []" "st_encode (cl_ec C) st block = Ok (us @ v # vs)" "st_check st (int (length us))"
    "\<And>i. i < length us \<Longrightarrow> good_call (env (n + i)) \<and> enough (env (n + i)) (us ! i)"
    "\<And>m d. m \<ge> n + length us \<Longrightarrow> \<exists>e d'. put_to_datanode (cl_sha C) (cl_dir C) (env m) d v = Some (Throw e, d')"
  shows "encode_one_block fuel C st env nodes n cl block = None"
proof -
  have "place fuel C st env nodes (ws @ v # vs) s = None"
    if "pl_fail s < length nodes" "pl_calls s + length ws = n + length us" "pl_succ s + length ws = length us"
      "\<And>i. i < length ws \<Longrightarrow> good_call (env (pl_calls s + i)) \<and> enough (env (pl_calls s + i)) (ws ! i)"
      "pl_fail s = 0" for ws s
    using that
  proof (induction ws arbitrary: fuel s)
    case Nil
    with assms(3,5) show ?case by (auto intro!: place_endless)
  next
    case (Cons w ws)
    show ?case
    proof (cases fuel)
      case (Suc f)
      obtain s1 where c: "place_call C env nodes w s = Some (True, s1)"
        using place_call_good [of env s w C nodes] Cons.prems(4) [of 0] by auto
      note cc = place_call_cases [OF c]
      have good: "good_call (env (pl_calls s1 + i)) \<and> enough (env (pl_calls s1 + i)) (ws ! i)" if "i < length ws" for i
        using Cons.prems(4) [of "Suc i"] that cc(2) by simp
      have "place f C st env nodes (ws @ v # vs) (s1\<lparr>pl_fail := 0\<rparr>) = None"
        "place f C st env nodes (ws @ v # vs) s1 = None"
        using Cons.IH [of "s1\<lparr>pl_fail := 0\<rparr>" f] Cons.IH [of s1 f] Cons.prems good cc assms(1) by auto
      with c cc Cons.prems(1) Suc show ?thesis by (simp add: Let_def)
    qed simp
  qed
  from this [of "\<lparr>pl_index = 0, pl_succ = 0, pl_fail = 0, pl_hashs = [], pl_cluster = cl, pl_calls = n\<rparr>" us] assms
  show ?thesis by (simp add: encode_one_block_def)
qed

theorem encode_one_block_endless_witness:
  "\<forall>fuel. encode_one_block fuel (demo_client ''x'') (REStorageType 2 1) (\<lambda>n. if n = 0 then demo_call 9 else demo_down)
     [''n:1''] 0 (\<lambda>a. Map.empty) ''x'' = None"
  using encode_one_block_endless [of "[''n:1'']" "demo_client ''x''" "REStorageType 2 1" "''x''" "[''x'']" "''x''" "[]"
      "\<lambda>n. if n = 0 then demo_call 9 else demo_down" 0]
  by (simp add: demo_call_good demo_down_put numeral_2_eq_2)

end
