(* ===== verification/Sdk_Props.thy ===== *)
theory Sdk_Props
  imports Sdk_Blocks
begin

text \<open>
  A whole file through the client: what \<open>DataRetrive\<close> puts on the data nodes, \<open>SDK::get\<close> reads back; and what
  \<open>SDK::get\<close> returns when it can read nothing.
\<close>

section \<open>Shared steps\<close>

lemma encode_content_blocks:
  assumes "st_works C st" "0 < get_block_size st" "encode_content C st content = Ok vecs"
  obtains blocks where "list_all2 (frags_of C st) blocks vecs" "take (length content) (concat blocks) = content"
proof -
  obtain blocks where b: "split_all_block (nat (get_block_size st)) content = Ok blocks"
    "take (length content) (concat blocks) = content"
    using split_all_block_props [of "nat (get_block_size st)" content] assms(2) by (metis zero_less_nat_eq)
  with assms have "mapO (st_encode (cl_ec C) st) blocks = Ok vecs" by (simp add: encode_content_def)
  with st_encode_blocks [OF assms(1), of blocks] have "list_all2 (frags_of C st) blocks vecs" by auto
  with b(2) that show thesis by blast
qed

lemma frags_of_nonempty: "list_all2 (frags_of C st) blocks vecs \<Longrightarrow> vec \<in> set vecs \<Longrightarrow> vec \<noteq> []"
  by (induction rule: list_all2_induct) (auto simp: frags_of_def)

definition start_placing :: "cluster \<Rightarrow> placing" where
  "start_placing cl = \<lparr>pl_index = 0, pl_succ = 0, pl_fail = 0, pl_hashs = [], pl_cluster = cl, pl_calls = 0\<rparr>"

lemma fetch_loop_none:
  assumes "\<And>i. i < length ps \<Longrightarrow>
    \<exists>e. get_from_datanode (cl_sha C) (cl_dir C) (env (n + i)) (cl (fst (ps ! i))) (snd (ps ! i)) = Some (Throw e)"
  shows "fetch_loop C st env cl n ps datas = Some (Ok [])"
  using assms
proof (induction ps arbitrary: n)
  case (Cons p ps)
  have "\<exists>e. get_from_datanode (cl_sha C) (cl_dir C) (env (Suc n + i)) (cl (fst (ps ! i))) (snd (ps ! i)) = Some (Throw e)"
    if "i < length ps" for i using Cons.prems [of "Suc i"] that by simp
  with Cons.IH [of "Suc n"] Cons.prems [of 0] show ?case by (cases p) auto
qed simp

lemma get_blocks_none:
  assumes "0 \<le> getDecodeBlocks st" "\<And>n d b. \<exists>e. get_from_datanode (cl_sha C) (cl_dir C) (env n) d b = Some (Throw e)"
  shows "get_blocks C st env cl n subs = Some (Ok [])"
proof (induction subs arbitrary: n)
  case (Cons s ss)
  have "decode_one_block C st env cl n s = Some (Ok [])"
    using assms(1) fetch_loop_none [of "decode_one_sub s" C env n cl st "[]"] assms(2) by (simp add: decode_one_block_def)
  with Cons.IH show ?case by simp
qed simp

lemma placed_then_read:
  assumes "st_works C st" "0 < get_block_size st" "encode_content C st content = Ok vecs" "nodes \<noteq> []"
    "\<forall>a\<in>set nodes. node_text a" "sha_clean C" "digest_safe C (concat vecs)"
    "all_good env (concat vecs)" "all_good env' (concat vecs)"
    "\<forall>vec\<in>set vecs. length vec \<le> fuel" "length content < 2 ^ 64"
    "storage_type_ptr inode = Some st" "filesize inode = of_nat (length content)" "agg_inode_id inode = []"
  shows "\<exists>subs s'. datanode_put fuel C st env nodes vecs (start_placing cl) = Some (Ok subs, s') \<and> list_all2 (written C) vecs subs \<and>
    sdk_get C env' (pl_cluster s') True (inode\<lparr>sub := subs\<rparr>) = Some (Ok content)"
proof -
  obtain blocks where b: "list_all2 (frags_of C st) blocks vecs" "take (length content) (concat blocks) = content"
    using encode_content_blocks [OF assms(1-3)] .
  have vecs: "\<forall>vec\<in>set vecs. set vec \<subseteq> set (concat vecs) \<and> vec \<noteq> [] \<and> length vec \<le> fuel"
    using frags_of_nonempty [OF b(1)] assms(10) by auto
  have start: "pl_fail (start_placing cl) = 0" "pl_index (start_placing cl) < length nodes"
    "on_nodes C (pl_cluster (start_placing cl)) (concat vecs) []"
    using assms(4) by (simp_all add: start_placing_def on_nodes_def)
  obtain subs s' where p: "datanode_put fuel C st env nodes vecs (start_placing cl) = Some (Ok subs, s')"
    "list_all2 (written C) vecs subs" "on_nodes C (pl_cluster s') (concat vecs) (concat (map decode_one_sub subs))"
    using datanode_put_good [OF assms(8,7,4-6) vecs start, of st] by auto
  have "get_blocks C st env' (pl_cluster s') 0 subs = Some (Ok (concat blocks))"
    using get_blocks_good [OF b(1) p(2) assms(7) _ p(3) assms(9)] vecs by blast
  moreover have "length content \<le> length (concat blocks)"
    using arg_cong [OF b(2), of length] by simp
  moreover have "unat (of_nat (length content) :: u64) = length content"
    using assms(11) by (simp add: unat_of_nat)
  ultimately have "sdk_get C env' (pl_cluster s') True (inode\<lparr>sub := subs\<rparr>) = Some (Ok content)"
    using assms(12-14) b(2) by (simp add: sdk_get_def resize_file_exact)
  with p(1,2) show ?thesis by blast
qed

section \<open>Properties\<close>

text \<open>C5: A file that was put on the data nodes is read back byte for byte, for each storage type whose
  erasure code works: when every call succeeds and the digests of the fragments do not collide, \<open>datanode_put\<close>
  returns the texts to record, and \<open>get\<close> with these texts and the size of the file gives its contents.\<close>

theorem put_then_get:
  assumes "st_works C st" "0 < get_block_size st" "encode_content C st content = Ok vecs" "nodes \<noteq> []"
    "\<forall>a\<in>set nodes. node_text a" "sha_clean C" "digest_safe C (concat vecs)"
    "all_good env (concat vecs)" "all_good env' (concat vecs)"
    "\<forall>vec\<in>set vecs. length vec \<le> fuel" "length content < 2 ^ 64"
    "storage_type_ptr inode = Some st" "filesize inode = of_nat (length content)" "agg_inode_id inode = []"
  shows "\<exists>subs s'. datanode_put fuel C st env nodes vecs (start_placing cl) = Some (Ok subs, s') \<and>
    sdk_get C env' (pl_cluster s') True (inode\<lparr>sub := subs\<rparr>) = Some (Ok content)"
  using placed_then_read [OF assms, of cl] by blast

theorem put_then_get_witness:
  "\<exists>subs s'. datanode_put 2 (demo_client demo_block) (REStorageType 2 1) (\<lambda>n. demo_call (length demo_block)) [''n:1'']
      [[demo_block, demo_block]] (start_placing (\<lambda>a. Map.empty)) = Some (Ok subs, s') \<and>
    sdk_get (demo_client demo_block) (\<lambda>n. demo_call (length demo_block)) (pl_cluster s') True
      ((new_inode ''/f'')\<lparr>storage_type_ptr := Some (REStorageType 2 1), filesize := 3, sub := subs\<rparr>) = Some (Ok ''abc'')"
proof -
  let ?C = "demo_client demo_block" and ?e = "\<lambda>n. demo_call (length demo_block)"
  have safe: "digest_safe ?C (concat [[demo_block, demo_block]])"
    by (simp add: digest_safe_def demo_client_def)
  have good: "all_good ?e (concat [[demo_block, demo_block]])"
    using demo_call_good(1) demo_call_good(2) [OF order_refl] by (simp add: all_good_def)
  have bs: "0 < get_block_size (REStorageType 2 1)" by (simp add: get_block_size_def to_int32_def)
  have three: "of_nat (length ''abc'') = (3 :: u64)" by simp
  show ?thesis
    using put_then_get [OF demo_client_facts(3) bs demo_content _ _ demo_client_facts(2) safe good good,
        of "[''n:1'']" 2 "(new_inode ''/f'')\<lparr>storage_type_ptr := Some (REStorageType 2 1), filesize := 3\<rparr>" "\<lambda>a. Map.empty"]
      demo_node_text three by (simp add: new_inode_def)
qed

text \<open>When no fragment can be read, \<open>get\<close> does not fail: it reports success and leaves a file of the
  recorded size that holds only zero bytes, because \<open>decode_one_block\<close> returns the empty string.\<close>

theorem get_without_datanodes_gives_zeros:
  assumes "storage_type_ptr inode = Some st" "agg_inode_id inode = []" "0 \<le> getDecodeBlocks st"
    "\<And>n d b. \<exists>e. get_from_datanode (cl_sha C) (cl_dir C) (env n) d b = Some (Throw e)"
  shows "sdk_get C env cl True inode = Some (Ok (replicate (unat (filesize inode)) (CHR 0x00)))"
  using assms(1,2) get_blocks_none [OF assms(3,4)] by (simp add: sdk_get_def resize_file_def)

theorem get_without_datanodes_gives_zeros_witness:
  "sdk_get (demo_client ''x'') (\<lambda>n. demo_down) (\<lambda>a. Map.empty) True
     ((new_inode ''/f'')\<lparr>storage_type_ptr := Some (REStorageType 2 1), filesize := 3, sub := [''n:1|A'']\<rparr>)
   = Some (Ok [CHR 0x00, CHR 0x00, CHR 0x00])"
  using get_without_datanodes_gives_zeros
    [of "(new_inode ''/f'')\<lparr>storage_type_ptr := Some (REStorageType 2 1), filesize := 3, sub := [''n:1|A'']\<rparr>"
      "REStorageType 2 1" "demo_client ''x''" "\<lambda>n. demo_down" "\<lambda>a. Map.empty"]
  by (simp add: demo_down_get new_inode_def) (simp add: numeral_3_eq_3)

end
