(* ===== verification/Data_Props.thy ===== *)
theory Data_Props
  imports Raft_Nn
begin

text \<open>
  Properties of the data the name node and the client exchange and store: paths, storage types, nodes,
  inodes, identifiers of aggregates; and of the store of inodes as a refinement of the abstract name space.
\<close>

section \<open>The store\<close>

lemma write_total:
  assumes "kv_live L" "f = (case x of None \<Rightarrow> Abort a | Some par \<Rightarrow> db_write L r msg (b par))" "x \<noteq> None"
  shows "\<exists>r'. f = Ok r'"
  using assms db_write_live [OF assms(1)] by auto

lemma ns_total:
  "ns_mkdir i m \<noteq> None \<longleftrightarrow> ns_parent m i \<noteq> None" "ns_put_ok i m \<noteq> None \<longleftrightarrow> ns_parent m i \<noteq> None"
  "ns_rm i m \<noteq> None \<longleftrightarrow> ns_parent m i \<noteq> None"
  by (auto simp: ns_mkdir_def ns_put_ok_def ns_rm_def)

text \<open>C3: The operations of the store implement the abstract name space, a map from paths to inodes: \<open>mkdir\<close>, \<open>put\<close>,
  \<open>put_ok\<close> and \<open>rm\<close> return exactly when the abstract operation is defined (the key-value store being up), and
  the store then holds the abstract result.\<close>

theorem store_refines_namespace:
  assumes "db_inv L r" "abs_inode i" "kv_live L"
  shows "(case ns_mkdir i (fs L r) of None \<Rightarrow> \<nexists>r'. internal_mkdir L r i = Ok r'
            | Some m \<Rightarrow> \<exists>r'. internal_mkdir L r i = Ok r' \<and> db_inv L r' \<and> fs L r' = m) \<and>
         (\<exists>r'. internal_put L r i = Ok r' \<and> db_inv L r' \<and> ns_put i (fs L r) = Some (fs L r')) \<and>
         (case ns_put_ok i (fs L r) of None \<Rightarrow> \<nexists>r'. internal_put_ok L r i = Ok r'
            | Some m \<Rightarrow> \<exists>r'. internal_put_ok L r i = Ok r' \<and> db_inv L r' \<and> fs L r' = m) \<and>
         (case ns_rm i (fs L r) of None \<Rightarrow> \<nexists>r'. internal_rm L r i = Ok r'
            | Some m \<Rightarrow> \<exists>r'. internal_rm L r i = Ok r' \<and> db_inv L r' \<and> fs L r' = m)"
proof (intro conjI)
  note total = write_total [OF assms(3)]
  show "case ns_mkdir i (fs L r) of None \<Rightarrow> \<nexists>r'. internal_mkdir L r i = Ok r'
      | Some m \<Rightarrow> \<exists>r'. internal_mkdir L r i = Ok r' \<and> db_inv L r' \<and> fs L r' = m"
    using db.mkdir_sim [OF assms(1,2)] total [OF internal_mkdir_write [OF assms(1,2)]] ns_total(1) [of i "fs L r"]
    by (auto split: option.splits)
  have "\<exists>r'. internal_put L r i = Ok r'"
    using db_write_live [OF assms(3)] db_inv_ready [OF assms(1)] by (simp add: internal_put_def)
  then show "\<exists>r'. internal_put L r i = Ok r' \<and> db_inv L r' \<and> ns_put i (fs L r) = Some (fs L r')"
    using db.put_sim [OF assms(1,2)] by blast
  show "case ns_put_ok i (fs L r) of None \<Rightarrow> \<nexists>r'. internal_put_ok L r i = Ok r'
      | Some m \<Rightarrow> \<exists>r'. internal_put_ok L r i = Ok r' \<and> db_inv L r' \<and> fs L r' = m"
    using db.put_ok_sim [OF assms(1,2)] total [OF internal_put_ok_write [OF assms(1,2)]] ns_total(2) [of i "fs L r"]
    by (auto split: option.splits)
  show "case ns_rm i (fs L r) of None \<Rightarrow> \<nexists>r'. internal_rm L r i = Ok r'
      | Some m \<Rightarrow> \<exists>r'. internal_rm L r i = Ok r' \<and> db_inv L r' \<and> fs L r' = m"
    using db.rm_sim [OF assms(1,2)] total [OF internal_rm_write [OF assms(1,2)]] ns_total(3) [of i "fs L r"]
    by (auto split: option.splits)
qed

lemma demo_abs_inode: "abs_inode (new_inode ''/f'')" "abs_inode (new_inode ''/g'')"
  by (simp_all add: abs_inode_def inode_ok_new ascii_Cons less_char_def) code_simp+

lemma demo_batch_ok: "batch_ok [new_inode ''/f'', new_inode ''/g'']"
proof -
  have "fullpath (new_inode ''/f'') = ''/f''" "fullpath (new_inode ''/g'') = ''/g''"
    "Inode_parent_path (new_inode ''/f'') = ''/''" "Inode_parent_path (new_inode ''/g'') = ''/''" by code_simp+
  with demo_abs_inode show ?thesis by (simp add: batch_ok_def)
qed

theorem store_refines_namespace_witness:
  "\<exists>r'. internal_put mem_libs empty_db (new_inode ''/f'') = Ok r' \<and> fs mem_libs r' ''/f'' = Some (new_inode ''/f'')"
proof -
  have "fullpath (new_inode ''/f'') = ''/f''" by code_simp
  with store_refines_namespace [OF empty_db_inv(1) demo_abs_inode(1) mem_libs_ok(2)] show ?thesis
    by (auto simp: ns_put_def dest!: sym [of _ "fs mem_libs _"])
qed

text \<open>C34: Closing several files in one batch has the result of closing them one after the other, provided they are
  distinct and none is the parent of another; the batch reads each parent once and writes everything at the end.\<close>

theorem put_ok_batch_is_sequential:
  assumes "db_inv L r" "batch_ok is" "internal_put_ok_batch L r is = Ok r'"
  shows "db_inv L r' \<and> ns_put_ok_seq is (fs L r) = Some (fs L r')"
  using assms by (rule internal_put_ok_batch_seq)

theorem put_ok_batch_is_sequential_witness:
  "\<exists>r'. internal_put_ok_batch mem_libs empty_db [new_inode ''/f'', new_inode ''/g''] = Ok r' \<and>
     ns_put_ok_seq [new_inode ''/f'', new_inode ''/g''] Map.empty = Some (fs mem_libs r')"
proof -
  have "is_Ok (internal_put_ok_batch mem_libs empty_db [new_inode ''/f'', new_inode ''/g''])" by code_simp
  then obtain r' where "internal_put_ok_batch mem_libs empty_db [new_inode ''/f'', new_inode ''/g''] = Ok r'"
    by (cases "internal_put_ok_batch mem_libs empty_db [new_inode ''/f'', new_inode ''/g'']") auto
  then show ?thesis
    using put_ok_batch_is_sequential [OF empty_db_inv(1) demo_batch_ok] by (auto simp: empty_db_inv(2))
qed

section \<open>Identifiers of aggregates\<close>

text \<open>C33: One generator never returns the same identifier twice, as long as its clock does not go back and the readings
  span less than \<open>2 ^ 42\<close> milliseconds; the identifiers are hexadecimal texts of 64-bit words.\<close>

theorem snowflake_ids_distinct:
  assumes "0 \<le> machineId" "machineId < 1024" "sorted clock" "\<forall>t\<in>set clock. 0 \<le> t \<and> t < 2 ^ 42"
    "generateIDs n (new_generator machineId) clock = Some ids"
  shows "distinct ids"
proof (rule generateIDs_distinct [OF assms(5)])
  show "gen_ok (new_generator machineId)" using assms(1,2) by (simp add: gen_ok_def new_generator_def)
  show "clock_ok (new_generator machineId) clock" using assms(3,4) by (auto simp: clock_ok_def new_generator_def)
  show "\<bar>t - u\<bar> < 2 ^ 42" if "t \<in> set clock" "u \<in> set clock" for t u
  proof -
    have "0 \<le> t" "t < 2 ^ 42" "0 \<le> u" "u < 2 ^ 42" using that assms(4) by simp_all
    then show ?thesis by linarith
  qed
qed

theorem snowflake_ids_distinct_witness:
  "\<exists>ids. generateIDs 3 (new_generator 1) [1700000000000, 1700000000000, 1700000000001] = Some ids \<and> distinct ids"
proof -
  obtain ids where ids: "generateIDs 3 (new_generator 1) [1700000000000, 1700000000000, 1700000000001] = Some ids"
    by (simp add: numeral_3_eq_3 generateID_def new_generator_def)
  with snowflake_ids_distinct [OF _ _ _ _ ids] show ?thesis by simp
qed

text \<open>Two generators do not exclude each other: \<open>put_ok_batch\<close> makes a new generator for each request, and two of them
  on the same machine in the same millisecond give the same identifier.\<close>

theorem new_generators_collide:
  assumes "t \<noteq> -1"
  shows "\<exists>i. map_option fst (generateID (new_generator m) (t # clock)) = Some i \<and>
    map_option fst (generateID (new_generator m) (t # clock')) = Some i"
  using assms by (simp add: generateID_def new_generator_def)

theorem new_generators_collide_witness:
  "\<exists>i. map_option fst (generateID (new_generator 7) [1700000000000]) = Some i \<and>
    map_option fst (generateID (new_generator 7) [1700000000000]) = Some i"
  by (rule new_generators_collide) simp

text \<open>Invalidating a valid entry of an aggregate keeps the counter equal to the number of valid entries.\<close>

theorem setFileUnValid_keeps_count:
  assumes "count_ok a" "0 \<le> i" "i < int (length (agg_valid a))" "agg_valid a ! nat i"
  shows "count_ok (setFileUnValid a i)"
  using assms by (rule setFileUnValid_count)

theorem setFileUnValid_keeps_count_witness:
  "count_ok (setFileUnValid \<lparr>agg_id = ''1'', agg_files = [\<lparr>fi_path = ''/f'', fi_size = 1, fi_pos = (0, 1), fi_task_ptr = None\<rparr>],
     aggregate_size = 1, agg_valid = [True], valid_count = 1\<rparr> 0)"
  by (rule setFileUnValid_keeps_count) (simp_all add: count_ok_def)

section \<open>Texts and their values\<close>

text \<open>An inode that is printed and read again is the same inode: what the name node stores and what it sends over the raft log
  loses nothing.\<close>

theorem inode_text_roundtrip:
  assumes "codec_ok L" "inode_ok i"
  shows "Inode_of_text L (Inode_value L i) = Ok i"
  using assms by (rule Inode_text)

theorem inode_text_roundtrip_witness:
  "Inode_of_text tiny_json (Inode_value tiny_json (new_inode ''/a/../b'')) = Ok (new_inode ''/b'')"
proof -
  have "new_inode ''/a/../b'' = new_inode ''/b''" by code_simp
  then show ?thesis
    using inode_text_roundtrip [OF tiny_json_ok inode_ok_new, of "''/b''"] by (simp add: ascii_Cons less_char_def)
qed

text \<open>Whatever text \<open>from_string\<close> accepts as a storage type, its printed form is accepted again and means the same.\<close>

theorem storage_type_text_stable:
  assumes "StorageType_from_string s = Ok st"
  shows "StorageType_from_string (StorageType_to_string st) = Ok st \<and>
    StorageType_from_json (StorageType_to_json st) = Ok st"
  using from_string_ok [OF assms] from_to_string from_to_json st_ok_ints by blast

theorem storage_type_text_stable_witness:
  "StorageType_from_string (StorageType_to_string (RSStorageType 3 2 64)) = Ok (RSStorageType 3 2 64) \<and>
   StorageType_from_json (StorageType_to_json (RSStorageType 3 2 64)) = Ok (RSStorageType 3 2 64)"
proof -
  have "StorageType_from_string ''RS<3,2,64>'' = Ok (RSStorageType 3 2 64)" by code_simp
  then show ?thesis by (rule storage_type_text_stable)
qed

text \<open>For an erasure code that keeps its promise, any \<open>k\<close> of the \<open>k + m\<close> fragments of a block give the block back.\<close>

theorem any_k_fragments_decode:
  assumes "ec_law E k m"
  shows "\<exists>fs. st_encode E (RSStorageType k m b) block = Ok fs \<and> length fs = nat (k + m) \<and>
    (\<forall>is. distinct is \<and> length is = nat k \<and> (\<forall>i\<in>set is. i < length fs) \<longrightarrow>
       st_decode E (RSStorageType k m b) (map (\<lambda>i. fs ! i) is) = Ok block)"
proof (rule rs_encode_law [OF assms, of block])
  fix fs len
  assume fs: "rs_encode E block k m = Ok fs" "length fs = nat (k + m)"
    and dec: "\<And>is. distinct is \<Longrightarrow> length is = nat k \<Longrightarrow> \<forall>i\<in>set is. i < length fs \<Longrightarrow>
       rs_decode E (map (\<lambda>i. fs ! i) is) k m = Ok block"
  have "st_decode E (RSStorageType k m b) (map (\<lambda>i. fs ! i) is) = Ok block"
    if "distinct is \<and> length is = nat k \<and> (\<forall>i\<in>set is. i < length fs)" for "is"
    using dec [of "is"] that assms by (auto simp: ec_law_def)
  with fs show ?thesis by (intro exI [of _ fs] conjI allI impI) simp_all
qed

theorem any_k_fragments_decode_witness:
  "\<exists>fs. st_encode ec_copy (RSStorageType 2 1 64) ''x'' = Ok fs \<and> length fs = nat (2 + 1) \<and>
    (\<forall>is. distinct is \<and> length is = nat 2 \<and> (\<forall>i\<in>set is. i < length fs) \<longrightarrow>
       st_decode ec_copy (RSStorageType 2 1 64) (map (\<lambda>i. fs ! i) is) = Ok ''x'')"
  by (rule any_k_fragments_decode, rule ec_copy_law) simp_all

text \<open>The fragments of a block, as text in the inode, are read back as the same list of nodes and digests.\<close>

theorem fragment_text_roundtrip:
  assumes "ps \<noteq> []" "\<forall>p\<in>set ps. frag_ok p"
  shows "\<exists>s. encode_one_sub ps = Ok s \<and> decode_one_sub s = ps"
  using encode_one_sub_ok [OF assms(1)] decode_encode_sub [OF assms(1)] assms(2) by blast

theorem fragment_text_roundtrip_witness:
  "\<exists>s. encode_one_sub [(''n:1'', ''A''), (''n:1'', ''B'')] = Ok s \<and> decode_one_sub s = [(''n:1'', ''A''), (''n:1'', ''B'')]"
proof -
  have "node_ok \<lparr>ip = ''n'', port = 1, nodeStatus = ONLINE\<rparr>"
    "Node_to_string \<lparr>ip = ''n'', port = 1, nodeStatus = ONLINE\<rparr> = ''n:1''" by code_simp+
  then have "frag_ok (''n:1'', ''A'')" "frag_ok (''n:1'', ''B'')"
    by (auto simp: frag_ok_def intro!: exI [of _ "\<lparr>ip = ''n'', port = 1, nodeStatus = ONLINE\<rparr>"])
  then show ?thesis by (intro fragment_text_roundtrip) auto
qed

text \<open>The list of nodes in a flag is read back from its printed form, with the status unknown.\<close>

theorem node_list_roundtrip:
  assumes "ns \<noteq> []" "\<forall>n\<in>set ns. node_ok n"
  shows "bindO (Nodes_to_string ns) parse_nodes = Ok (map (\<lambda>n. n\<lparr>nodeStatus := UNKNOWN\<rparr>) ns)"
  using parse_nodes_join [of ns] assms by (simp add: Nodes_to_string_join)

theorem node_list_roundtrip_witness:
  "bindO (Nodes_to_string [\<lparr>ip = ''n'', port = 1, nodeStatus = ONLINE\<rparr>]) parse_nodes =
     Ok [\<lparr>ip = ''n'', port = 1, nodeStatus = UNKNOWN\<rparr>]"
proof -
  have "node_ok \<lparr>ip = ''n'', port = 1, nodeStatus = ONLINE\<rparr>" by code_simp
  then show ?thesis using node_list_roundtrip [of "[\<lparr>ip = ''n'', port = 1, nodeStatus = ONLINE\<rparr>]"] by simp
qed

text \<open>\<open>simplify_path\<close> gives a normal form: it is stable, and a rooted path becomes a rooted path whose names contain
  neither empty names nor dots.\<close>

theorem simplify_path_normal:
  assumes "is_rooted p"
  shows "simplify_path (simplify_path p) = simplify_path p \<and>
    (\<exists>ns. simplify_path p = abs_path ns \<and> (\<forall>n\<in>set ns. plain_name n))"
proof -
  have "abs_names (path_names p)" using path_names_ok [of p] assms by (simp add: norm_ok_rooted)
  then show ?thesis using simplify_path_rooted [OF assms] by (auto simp: abs_names_def list_all_iff)
qed

theorem simplify_path_normal_witness:
  "simplify_path (simplify_path ''//a/./b/..'') = simplify_path ''//a/./b/..'' \<and>
    (\<exists>ns. simplify_path ''//a/./b/..'' = abs_path ns \<and> (\<forall>n\<in>set ns. plain_name n))"
  by (rule simplify_path_normal) code_simp

section \<open>Nodes\<close>

text \<open>A node counts as online exactly if one of the first three probes got an answer; discovery keeps addresses, ports
  and order.\<close>

theorem discovery_status:
  assumes "node_discovery W ns = Ok ms"
  shows "ms = map (\<lambda>n. n\<lparr>nodeStatus := if \<exists>j<3. \<not> echo_failed W (Node_to_string n) j then ONLINE else OFFLINE\<rparr>) ns"
  using node_discovery_probed [OF assms] by (simp add: probed_def answers_def)

theorem discovery_status_witness:
  "\<exists>ms. node_discovery \<lparr>chan_init = (\<lambda>a. True), echo_failed = (\<lambda>a j. j < 2)\<rparr> [default_Node] = Ok ms \<and>
     ms = map (\<lambda>n. n\<lparr>nodeStatus := ONLINE\<rparr>) [default_Node]"
proof -
  let ?W = "\<lparr>chan_init = (\<lambda>a :: string. True), echo_failed = (\<lambda>(a :: string) j :: nat. j < 2)\<rparr>"
  have "\<exists>ms. node_discovery ?W [default_Node] = Ok ms"
    by (simp add: node_discovery_def scan_def Let_def)
  then obtain ms where ms: "node_discovery ?W [default_Node] = Ok ms" by blast
  have "\<exists>j<3. \<not> j < (2 :: nat)" by (rule exI [of _ 2]) simp
  with discovery_status [OF ms] ms show ?thesis by auto
qed

end
