(* ===== verification/Ext_Hash.thy ===== *)
theory Ext_Hash
  imports Prelude
begin

text \<open>
  The extendible hash table of \<^verbatim>\<open>include/common/extendible_hash_table.hpp\<close>. The directory holds pointers to
  buckets, and several entries may point to the same bucket, so buckets live in a heap: a list in which a
  pointer is an index and a new bucket is put at the end. \<open>None\<close> is the null pointer that fills a directory
  while it grows. \<^verbatim>\<open>std::hash\<close> is the argument \<open>h\<close>. A directory of depth 31 would need \<^verbatim>\<open>1 << 31\<close> in an \<^verbatim>\<open>int\<close>,
  which is undefined: the model aborts.

  The loop of \<open>Insert\<close> splits the bucket of the key until there is room. It has fuel, and 31 rounds are enough
  since each round makes the bucket of the key one bit deeper. The lemmas show that the table implements a
  finite map: the interface \<open>kv_table\<close>.
\<close>

unbundle bit_operations_syntax

section \<open>Buckets\<close>

record ('k, 'v) Bucket =
  bk_list :: "('k \<times> 'v) list"
  bk_size :: nat
  bk_depth :: nat

definition new_Bucket :: "nat \<Rightarrow> nat \<Rightarrow> ('k, 'v) Bucket" where
  "new_Bucket array_size depth = \<lparr>bk_list = [], bk_size = array_size, bk_depth = depth\<rparr>"

definition IsFull :: "('k, 'v) Bucket \<Rightarrow> bool" where
  "IsFull b \<longleftrightarrow> length (bk_list b) = bk_size b"

fun assign_first :: "'k \<Rightarrow> 'v \<Rightarrow> ('k \<times> 'v) list \<Rightarrow> ('k \<times> 'v) list" where
  "assign_first k v [] = []"
| "assign_first k v (p # ps) = (if fst p = k then (k, v) # ps else p # assign_first k v ps)"

fun erase_first :: "'k \<Rightarrow> ('k \<times> 'v) list \<Rightarrow> ('k \<times> 'v) list" where
  "erase_first k [] = []"
| "erase_first k (p # ps) = (if fst p = k then ps else p # erase_first k ps)"

definition Bucket_Find :: "('k, 'v) Bucket \<Rightarrow> 'k \<Rightarrow> 'v option" where
  "Bucket_Find b k = map_option snd (find (\<lambda>p. fst p = k) (bk_list b))"

definition Bucket_Remove :: "('k, 'v) Bucket \<Rightarrow> 'k \<Rightarrow> bool \<times> ('k, 'v) Bucket" where
  "Bucket_Remove b k =
     (case find (\<lambda>p. fst p = k) (bk_list b) of
        None \<Rightarrow> (False, b)
      | Some p \<Rightarrow> (True, b\<lparr>bk_list := erase_first k (bk_list b)\<rparr>))"

definition Bucket_Insert :: "('k, 'v) Bucket \<Rightarrow> 'k \<Rightarrow> 'v \<Rightarrow> bool \<times> ('k, 'v) Bucket" where
  "Bucket_Insert b k v =
     (case find (\<lambda>p. fst p = k) (bk_list b) of
        Some p \<Rightarrow> (True, b\<lparr>bk_list := assign_first k v (bk_list b)\<rparr>)
      | None \<Rightarrow> if IsFull b then (False, b) else (True, b\<lparr>bk_list := bk_list b @ [(k, v)]\<rparr>))"

section \<open>The table\<close>

record ('k, 'v) ExtendibleHashTable =
  global_depth :: nat
  bucket_size :: nat
  num_buckets :: nat
  ht_dir :: "nat option list"
  ht_heap :: "('k, 'v) Bucket list"

type_synonym ('k, 'v) table = "('k, 'v) ExtendibleHashTable"

definition new_ExtendibleHashTable :: "nat \<Rightarrow> ('k, 'v) table" where
  "new_ExtendibleHashTable n = \<lparr>global_depth = 0, bucket_size = n, num_buckets = 1, ht_dir = [Some 0],
     ht_heap = [new_Bucket n 0]\<rparr>"

definition IndexOf :: "('k \<Rightarrow> nat) \<Rightarrow> ('k, 'v) table \<Rightarrow> 'k \<Rightarrow> nat" where
  "IndexOf h t key = (let mask = push_bit (global_depth t) 1 - 1 in h key AND mask)"

definition deref :: "('k, 'v) table \<Rightarrow> nat \<Rightarrow> nat outcome" where
  "deref t i = (if i < length (ht_dir t)
     then case ht_dir t ! i of None \<Rightarrow> Abort ''null pointer'' | Some a \<Rightarrow> Ok a
     else Abort ''dir_ out of range'')"

definition Find :: "('k \<Rightarrow> nat) \<Rightarrow> ('k, 'v) table \<Rightarrow> 'k \<Rightarrow> 'v option outcome" where
  "Find h t key = bindO (deref t (IndexOf h t key)) (\<lambda>a. Ok (Bucket_Find (ht_heap t ! a) key))"

definition Remove :: "('k \<Rightarrow> nat) \<Rightarrow> ('k, 'v) table \<Rightarrow> 'k \<Rightarrow> (bool \<times> ('k, 'v) table) outcome" where
  "Remove h t key = bindO (deref t (IndexOf h t key)) (\<lambda>a.
     let (r, b) = Bucket_Remove (ht_heap t ! a) key in Ok (r, t\<lparr>ht_heap := (ht_heap t)[a := b]\<rparr>))"

text \<open>The first loop of \<open>RedistributeBucket\<close>: \<^verbatim>\<open>i = index % old_gap; i < dir_.size(); i += old_gap\<close>.\<close>

function redirect :: "nat \<Rightarrow> nat \<Rightarrow> nat \<Rightarrow> nat \<Rightarrow> nat \<Rightarrow> nat \<Rightarrow> nat option list \<Rightarrow> nat option list" where
  "redirect i old_gap old_depth bucket even_new odd_new dir =
     (if i < length dir \<and> 0 < old_gap then
        redirect (i + old_gap) old_gap old_depth bucket even_new odd_new
          (if dir ! i = None \<or> dir ! i = Some bucket
           then dir[i := Some (if drop_bit old_depth i AND 1 = 0 then even_new else odd_new)] else dir)
      else dir)"
  by pat_completeness auto
termination by (relation "measure (\<lambda>(i, g, d, b, e, od, dir). length dir - i)") auto

declare redirect.simps [simp del]

text \<open>The second loop; the result of \<open>Bucket::Insert\<close> is not looked at.\<close>

fun reinsert :: "('k \<Rightarrow> nat) \<Rightarrow> ('k, 'v) table \<Rightarrow> ('k \<times> 'v) list \<Rightarrow> ('k, 'v) table outcome" where
  "reinsert h t [] = Ok t"
| "reinsert h t ((k, v) # items) =
     bindO (deref t (IndexOf h t k)) (\<lambda>a.
       reinsert h (t\<lparr>ht_heap := (ht_heap t)[a := snd (Bucket_Insert (ht_heap t ! a) k v)]\<rparr>) items)"

definition RedistributeBucket ::
  "('k \<Rightarrow> nat) \<Rightarrow> ('k, 'v) table \<Rightarrow> nat \<Rightarrow> nat \<Rightarrow> ('k, 'v) table outcome" where
  "RedistributeBucket h t bucket index =
     (let old_depth = bk_depth (ht_heap t ! bucket);
          old_gap = 2 ^ old_depth;
          heap = (ht_heap t)[bucket := (ht_heap t ! bucket)\<lparr>bk_depth := Suc old_depth\<rparr>];
          even_new = length heap;
          odd_new = Suc even_new;
          nb = new_Bucket (bucket_size t) (Suc old_depth);
          t1 = t\<lparr>ht_heap := heap @ [nb, nb], num_buckets := Suc (num_buckets t),
                 ht_dir := redirect (index mod old_gap) old_gap old_depth bucket even_new odd_new (ht_dir t)\<rparr>
      in reinsert h t1 (rev (bk_list (ht_heap t ! bucket))))"

text \<open>The loop that makes the null pointers of the upper half point where the lower half points.\<close>

definition fill_dir :: "nat option list \<Rightarrow> nat option list" where
  "fill_dir dir = foldl (\<lambda>d i. if d ! i = None then d[i := d ! (i - length d div 2)] else d) dir
     [length dir div 2..<length dir]"

definition split_step :: "('k \<Rightarrow> nat) \<Rightarrow> ('k, 'v) table \<Rightarrow> nat \<Rightarrow> nat \<Rightarrow> ('k, 'v) table outcome" where
  "split_step h t bucket index =
     (if bk_depth (ht_heap t ! bucket) = global_depth t then
        (if global_depth t \<ge> 30 then Abort ''1 << 31 in an int''
         else bindO (RedistributeBucket h (t\<lparr>global_depth := Suc (global_depth t),
                  ht_dir := ht_dir t @ replicate (2 ^ Suc (global_depth t) - length (ht_dir t)) None\<rparr>) bucket index)
                (\<lambda>t'. Ok (t'\<lparr>ht_dir := fill_dir (ht_dir t')\<rparr>)))
      else RedistributeBucket h t bucket index)"

fun insert_loop :: "nat \<Rightarrow> ('k \<Rightarrow> nat) \<Rightarrow> ('k, 'v) table \<Rightarrow> 'k \<Rightarrow> 'v \<Rightarrow> ('k, 'v) table outcome option" where
  "insert_loop fuel h t key val =
     (case deref t (IndexOf h t key) of
        Throw e \<Rightarrow> Some (Throw e)
      | Abort m \<Rightarrow> Some (Abort m)
      | Ok a \<Rightarrow>
          (case Bucket_Insert (ht_heap t ! a) key val of
             (True, b) \<Rightarrow> Some (Ok (t\<lparr>ht_heap := (ht_heap t)[a := b]\<rparr>))
           | (False, b) \<Rightarrow>
               (case fuel of
                  0 \<Rightarrow> None
                | Suc f \<Rightarrow>
                    (case split_step h t a (IndexOf h t key) of
                       Throw e \<Rightarrow> Some (Throw e)
                     | Abort m \<Rightarrow> Some (Abort m)
                     | Ok t' \<Rightarrow> insert_loop f h t' key val))))"

declare insert_loop.simps [simp del]

definition Insert :: "('k \<Rightarrow> nat) \<Rightarrow> ('k, 'v) table \<Rightarrow> 'k \<Rightarrow> 'v \<Rightarrow> ('k, 'v) table outcome option" where
  "Insert h t key val = insert_loop 31 h t key val"

definition GetLocalDepth :: "('k, 'v) table \<Rightarrow> nat \<Rightarrow> nat outcome" where
  "GetLocalDepth t i = bindO (deref t i) (\<lambda>a. Ok (bk_depth (ht_heap t ! a)))"


section \<open>Buckets as maps\<close>

lemma find_map_of: "find (\<lambda>p. fst p = k) ps = map_option (\<lambda>v. (k, v)) (map_of ps k)"
  by (induction ps) auto

lemma Bucket_Find_map_of: "Bucket_Find b k = map_of (bk_list b) k"
  by (cases "map_of (bk_list b) k") (simp_all add: Bucket_Find_def find_map_of)

lemma map_of_assign_first: "map_of ps k \<noteq> None \<Longrightarrow> map_of (assign_first k v ps) = (map_of ps)(k \<mapsto> v)"
  by (induction ps) (auto simp: fun_eq_iff)

lemma keys_assign_first: "map fst (assign_first k v ps) = map fst ps"
  by (induction ps) auto

lemma map_of_erase_first: "distinct (map fst ps) \<Longrightarrow> map_of (erase_first k ps) = (map_of ps)(k := None)"
  by (induction ps) (auto simp: fun_eq_iff map_of_eq_None_iff)

lemma keys_erase_first: "distinct (map fst ps) \<Longrightarrow> distinct (map fst (erase_first k ps)) \<and>
    set (erase_first k ps) \<subseteq> set ps \<and> length (erase_first k ps) \<le> length ps"
  by (induction ps) (auto simp: subset_iff image_iff)

text \<open>What holds of the bucket that entry \<open>i\<close> of a directory of depth \<open>gd\<close> points to.\<close>

definition bucket_ok :: "('k \<Rightarrow> nat) \<Rightarrow> nat \<Rightarrow> nat \<Rightarrow> nat \<Rightarrow> ('k, 'v) Bucket \<Rightarrow> bool" where
  "bucket_ok h bs gd i b \<longleftrightarrow> bk_depth b \<le> gd \<and> bk_size b = bs \<and> length (bk_list b) \<le> bs \<and>
     distinct (map fst (bk_list b)) \<and> (\<forall>p\<in>set (bk_list b). h (fst p) mod 2 ^ bk_depth b = i mod 2 ^ bk_depth b)"

lemma Bucket_Insert_ok:
  assumes "Bucket_Insert b k v = (True, b')" "bucket_ok h bs gd i b" "h k mod 2 ^ bk_depth b = i mod 2 ^ bk_depth b"
  shows "bucket_ok h bs gd i b' \<and> bk_depth b' = bk_depth b \<and> map_of (bk_list b') = (map_of (bk_list b))(k \<mapsto> v)"
proof (cases "map_of (bk_list b) k")
  case None
  then have "k \<notin> fst ` set (bk_list b)" by (simp add: map_of_eq_None_iff)
  moreover have "length (bk_list b) < bs" "b' = b\<lparr>bk_list := bk_list b @ [(k, v)]\<rparr>"
    using None assms(1,2) by (auto simp: Bucket_Insert_def find_map_of IsFull_def bucket_ok_def split: if_splits)
  moreover have "map_of (bk_list b @ [(k, v)]) = (map_of (bk_list b))(k \<mapsto> v)"
    using None by (auto simp: fun_eq_iff map_add_def split: option.splits)
  ultimately show ?thesis using assms(2,3) by (auto simp: bucket_ok_def)
next
  case (Some w)
  have "fst ` set (assign_first k v (bk_list b)) = fst ` set (bk_list b)"
    using arg_cong [OF keys_assign_first, of set k v "bk_list b"] by (simp only: list.set_map)
  then have "\<forall>p\<in>set (assign_first k v (bk_list b)). h (fst p) mod 2 ^ bk_depth b = i mod 2 ^ bk_depth b"
    using assms(2) unfolding bucket_ok_def by (metis (no_types, lifting) image_iff imageI)
  moreover have "length (assign_first k v (bk_list b)) = length (bk_list b)"
    using arg_cong [OF keys_assign_first, of length k v "bk_list b"] by simp
  ultimately show ?thesis
    using Some assms by (clarsimp simp: Bucket_Insert_def find_map_of bucket_ok_def keys_assign_first map_of_assign_first)
qed

lemma Bucket_Insert_full:
  "Bucket_Insert b k v = (False, b') \<longleftrightarrow> b' = b \<and> map_of (bk_list b) k = None \<and> IsFull b"
  by (auto simp: Bucket_Insert_def find_map_of split: option.splits)

lemma Bucket_Remove_ok:
  assumes "Bucket_Remove b k = (r, b')" "bucket_ok h bs gd i b"
  shows "bucket_ok h bs gd i b' \<and> bk_depth b' = bk_depth b \<and> map_of (bk_list b') = (map_of (bk_list b))(k := None) \<and>
    r = (map_of (bk_list b) k \<noteq> None)"
proof -
  note e = keys_erase_first [of "bk_list b" k]
  have d: "distinct (map fst (bk_list b))" using assms(2) by (simp add: bucket_ok_def)
  have "\<forall>p\<in>set (erase_first k (bk_list b)). h (fst p) mod 2 ^ bk_depth b = i mod 2 ^ bk_depth b"
    using e d assms(2) by (auto simp: bucket_ok_def)
  with e d assms show ?thesis
    by (clarsimp simp: Bucket_Remove_def find_map_of bucket_ok_def map_of_erase_first fun_eq_iff split: option.splits) force
qed

section \<open>The invariant of the table\<close>

lemma IndexOf_mod: "IndexOf h t k = h k mod 2 ^ global_depth t"
proof -
  have "push_bit (global_depth t) 1 - 1 = (mask (global_depth t) :: nat)"
    by (simp add: mask_eq_exp_minus_1 push_bit_eq_mult)
  then show ?thesis unfolding IndexOf_def Let_def by (simp only: take_bit_eq_mask [symmetric] take_bit_eq_mod)
qed

definition bucket_at :: "('k, 'v) table \<Rightarrow> nat \<Rightarrow> ('k, 'v) Bucket" where
  "bucket_at t i = ht_heap t ! the (ht_dir t ! i)"

definition ht_wf :: "('k \<Rightarrow> nat) \<Rightarrow> ('k, 'v) table \<Rightarrow> bool" where
  "ht_wf h t \<longleftrightarrow> global_depth t \<le> 30 \<and> length (ht_dir t) = 2 ^ global_depth t \<and>
     (\<forall>i<2 ^ global_depth t. (\<exists>a<length (ht_heap t). ht_dir t ! i = Some a) \<and>
        bucket_ok h (bucket_size t) (global_depth t) i (bucket_at t i) \<and>
        (\<forall>j<2 ^ global_depth t. ht_dir t ! i = ht_dir t ! j \<longleftrightarrow>
           i mod 2 ^ bk_depth (bucket_at t i) = j mod 2 ^ bk_depth (bucket_at t i)))"

definition ht_view :: "('k \<Rightarrow> nat) \<Rightarrow> ('k, 'v) table \<Rightarrow> 'k \<Rightarrow> 'v option" where
  "ht_view h t k = map_of (bk_list (bucket_at t (IndexOf h t k))) k"

lemma ht_wfD:
  assumes "ht_wf h t" "i < 2 ^ global_depth t"
  obtains a where "ht_dir t ! i = Some a" "a < length (ht_heap t)" "bucket_at t i = ht_heap t ! a" "deref t i = Ok a"
    "bucket_ok h (bucket_size t) (global_depth t) i (ht_heap t ! a)"
  using assms unfolding ht_wf_def by (auto simp: bucket_at_def deref_def)

lemma IndexOf_less: "IndexOf h t k < 2 ^ global_depth t"
  by (simp add: IndexOf_mod)

lemma same_bucket:
  assumes "ht_wf h t" "i < 2 ^ global_depth t" "j < 2 ^ global_depth t"
  shows "ht_dir t ! i = ht_dir t ! j \<longleftrightarrow> i mod 2 ^ bk_depth (bucket_at t i) = j mod 2 ^ bk_depth (bucket_at t i)"
  using assms by (simp add: ht_wf_def)

lemma IndexOf_low: "d \<le> global_depth t \<Longrightarrow> IndexOf h t k mod 2 ^ d = h k mod 2 ^ d"
  by (simp add: IndexOf_mod mod_mod_cancel le_imp_power_dvd)

text \<open>Changing one bucket in place.\<close>

lemma bucket_update:
  assumes wf: "ht_wf h t" and a: "ht_dir t ! IndexOf h t k = Some a"
    and b: "bucket_ok h (bucket_size t) (global_depth t) (IndexOf h t k) b" "bk_depth b = bk_depth (ht_heap t ! a)"
      "map_of (bk_list b) = (map_of (bk_list (ht_heap t ! a)))(k := x)"
  shows "ht_wf h (t\<lparr>ht_heap := (ht_heap t)[a := b]\<rparr>) \<and> ht_view h (t\<lparr>ht_heap := (ht_heap t)[a := b]\<rparr>) = (ht_view h t)(k := x)"
proof -
  let ?i = "IndexOf h t k" and ?t = "t\<lparr>ht_heap := (ht_heap t)[a := b]\<rparr>"
  have i: "?i < 2 ^ global_depth t" by (rule IndexOf_less)
  have len: "a < length (ht_heap t)" by (rule ht_wfD [OF wf i]) (use a in simp)
  have at: "bucket_at ?t j = (if ht_dir t ! j = Some a then b else bucket_at t j)" if "j < 2 ^ global_depth t" for j
    by (rule ht_wfD [OF wf that]) (use len in \<open>auto simp: bucket_at_def\<close>)
  have old: "bucket_at t j = ht_heap t ! a" if "ht_dir t ! j = Some a" for j using that by (simp add: bucket_at_def)
  have depth: "bk_depth (bucket_at ?t j) = bk_depth (bucket_at t j)" if "j < 2 ^ global_depth t" for j
    using at [OF that] b(2) old by simp
  have ok: "bucket_ok h (bucket_size t) (global_depth t) j (bucket_at ?t j)" if j: "j < 2 ^ global_depth t" for j
  proof (cases "ht_dir t ! j = Some a")
    case True
    then have "?i mod 2 ^ bk_depth b = j mod 2 ^ bk_depth b"
      using same_bucket [OF wf i j] a old [OF a] b(2) by simp
    with b(1) at [OF j] True show ?thesis by (simp add: bucket_ok_def)
  next
    case False
    with at [OF j] show ?thesis using ht_wfD [OF wf j] by metis
  qed
  have "ht_wf h ?t" using wf ok depth unfolding ht_wf_def by simp
  moreover have "ht_view h ?t k' = ((ht_view h t)(k := x)) k'" for k'
  proof -
    have eq: "IndexOf h ?t k'' = IndexOf h t k''" for k'' by (simp add: IndexOf_mod)
    show ?thesis
      using at [OF IndexOf_less, of h k'] a b(3) old
      by (cases "k' = k") (auto simp: ht_view_def eq)
  qed
  ultimately show ?thesis by blast
qed

section \<open>Splitting a bucket\<close>

definition low_side :: "nat \<Rightarrow> nat \<Rightarrow> bool" where
  "low_side d i \<longleftrightarrow> i div 2 ^ d mod 2 = 0"

lemma prefix_bit: "drop_bit d i AND 1 = 0 \<longleftrightarrow> low_side d i" for i :: nat
  by (simp add: low_side_def drop_bit_eq_div and_one_eq)

lemmas redirect_step = redirect.simps [unfolded prefix_bit]

lemma heap_update_simps [simp]:
  "deref (t\<lparr>ht_heap := x\<rparr>) i = deref t i" "IndexOf h (t\<lparr>ht_heap := x\<rparr>) k = IndexOf h t k"
  by (simp_all add: deref_def IndexOf_def)

lemma next_in_progression:
  assumes "j mod g = i mod g" "i \<le> j" "i \<noteq> j"
  shows "i + g \<le> (j :: nat)"
proof -
  have "g dvd j - i" using assms(1,2) by (simp add: mod_eq_dvd_iff_nat)
  then have "g \<le> j - i" using assms(2,3) by (intro dvd_imp_le) auto
  with assms(2) show ?thesis by linarith
qed

lemma redirect_nth:
  assumes "0 < g" "j < length dir"
  shows "redirect i g d b e od dir ! j =
      (if i \<le> j \<and> j mod g = i mod g \<and> (dir ! j = None \<or> dir ! j = Some b)
       then Some (if low_side d j then e else od) else dir ! j)"
  using assms
proof (induction i g d b e od dir rule: redirect.induct)
  case (1 i g d b e od dir)
  let ?dir = "if dir ! i = None \<or> dir ! i = Some b then dir[i := Some (if low_side d i then e else od)] else dir"
  show ?case
  proof (cases "i < length dir")
    case True
    have "redirect i g d b e od dir ! j = redirect (i + g) g d b e od ?dir ! j"
      using True "1.prems"(1) by (subst redirect_step) simp
    also have "\<dots> = (if i + g \<le> j \<and> j mod g = (i + g) mod g \<and> (?dir ! j = None \<or> ?dir ! j = Some b)
       then Some (if low_side d j then e else od) else ?dir ! j)"
      using True "1.prems" by (intro "1.IH" [unfolded prefix_bit]) simp_all
    finally show ?thesis
      using next_in_progression [of j g i] "1.prems"
      by (cases "j = i") auto
  qed (use "1.prems"(2) in \<open>subst redirect.simps, simp\<close>)
qed

lemma redirect_length: "length (redirect i g d b e od dir) = length dir"
proof (induction i g d b e od dir rule: redirect.induct)
  case (1 i g d b e od dir)
  then show ?case by (subst redirect.simps) auto
qed

lemma fill_prefix:
  assumes "m \<le> n" "length dir = 2 * n"
  shows "length (foldl (\<lambda>d i. if d ! i = None then d[i := d ! (i - length d div 2)] else d) dir [n..<n + m]) = 2 * n \<and>
    (\<forall>j<2 * n. foldl (\<lambda>d i. if d ! i = None then d[i := d ! (i - length d div 2)] else d) dir [n..<n + m] ! j =
      (if n \<le> j \<and> j < n + m \<and> dir ! j = None then dir ! (j - n) else dir ! j))"
  using assms
proof (induction m)
  case (Suc m)
  let ?f = "\<lambda>d i. if d ! i = None then d[i := d ! (i - length d div 2)] else d"
  let ?d = "foldl ?f dir [n..<n + m]"
  have d: "length ?d = 2 * n" "\<And>j. j < 2 * n \<Longrightarrow> ?d ! j = (if n \<le> j \<and> j < n + m \<and> dir ! j = None then dir ! (j - n) else dir ! j)"
    using Suc by simp_all
  have step: "foldl ?f dir [n..<n + Suc m] = ?f ?d (n + m)" by simp
  have nm: "?d ! (n + m) = dir ! (n + m)" "?d ! m = dir ! m" using d(2) [of "n + m"] d(2) [of m] Suc.prems(1) by simp_all
  show ?case unfolding step
  proof (intro conjI allI impI)
    show "length (?f ?d (n + m)) = 2 * n" using d(1) by simp
    fix j assume j: "j < 2 * n"
    show "?f ?d (n + m) ! j = (if n \<le> j \<and> j < n + Suc m \<and> dir ! j = None then dir ! (j - n) else dir ! j)"
    proof (cases "j = n + m")
      case True
      with j d(1) nm show ?thesis by simp
    next
      case False
      with j d(1) d(2) [OF j] show ?thesis by auto
    qed
  qed
qed auto

lemma fill_dir_nth:
  assumes "length dir = 2 * n" "j < 2 * n"
  shows "fill_dir dir ! j = (if n \<le> j \<and> dir ! j = None then dir ! (j - n) else dir ! j)"
    "length (fill_dir dir) = 2 * n"
  using fill_prefix [OF order_refl assms(1)] assms by (simp_all add: fill_dir_def mult_2)

lemma reinsert_two:
  assumes "\<And>k v. (k, v) \<in> set items \<Longrightarrow> deref t (IndexOf h t k) = Ok (if low_side d (h k) then e else od)"
    "e < length (ht_heap t)" "od < length (ht_heap t)" "e \<noteq> od" "distinct (map fst (bk_list (ht_heap t ! e) @ bk_list (ht_heap t ! od) @ items))"
    "length (bk_list (ht_heap t ! e)) + length items \<le> bk_size (ht_heap t ! e)"
    "length (bk_list (ht_heap t ! od)) + length items \<le> bk_size (ht_heap t ! od)"
  shows "reinsert h t items = Ok (t\<lparr>ht_heap := (ht_heap t)
     [e := (ht_heap t ! e)\<lparr>bk_list := bk_list (ht_heap t ! e) @ filter (\<lambda>p. low_side d (h (fst p))) items\<rparr>,
      od := (ht_heap t ! od)\<lparr>bk_list := bk_list (ht_heap t ! od) @ filter (\<lambda>p. \<not> low_side d (h (fst p))) items\<rparr>]\<rparr>)"
  using assms
proof (induction items arbitrary: t)
  case (Cons p items)
  obtain k v where p: "p = (k, v)" by fastforce
  let ?a = "if low_side d (h k) then e else od"
  let ?b = "ht_heap t ! ?a"
  let ?t = "t\<lparr>ht_heap := (ht_heap t)[?a := ?b\<lparr>bk_list := bk_list ?b @ [(k, v)]\<rparr>]\<rparr>"
  have "map_of (bk_list ?b) k = None" using Cons.prems(5) p by (auto simp: map_of_eq_None_iff)
  moreover have "\<not> IsFull ?b" using Cons.prems(6,7) by (auto simp: IsFull_def)
  ultimately have ins: "snd (Bucket_Insert ?b k v) = ?b\<lparr>bk_list := bk_list ?b @ [(k, v)]\<rparr>"
    by (simp add: Bucket_Insert_def find_map_of)
  have "reinsert h t (p # items) = reinsert h ?t items"
    using Cons.prems(1) [of k v] ins p by simp
  also have "\<dots> = Ok (?t\<lparr>ht_heap := (ht_heap ?t)
     [e := (ht_heap ?t ! e)\<lparr>bk_list := bk_list (ht_heap ?t ! e) @ filter (\<lambda>p. low_side d (h (fst p))) items\<rparr>,
      od := (ht_heap ?t ! od)\<lparr>bk_list := bk_list (ht_heap ?t ! od) @ filter (\<lambda>p. \<not> low_side d (h (fst p))) items\<rparr>]\<rparr>)"
  proof (rule Cons.IH)
    fix k' v' assume "(k', v') \<in> set items"
    then show "deref ?t (IndexOf h ?t k') = Ok (if low_side d (h k') then e else od)"
      using Cons.prems(1) [of k' v'] by simp
  qed (use Cons.prems(2-7) p in \<open>auto simp: nth_list_update\<close>)
  finally show ?case
    using Cons.prems(2-4) p by (auto simp: nth_list_update list_update_swap [OF Cons.prems(4) [symmetric]])
qed simp


text \<open>What one round of the loop makes of the table.\<close>

definition is_split :: "('k \<Rightarrow> nat) \<Rightarrow> ('k, 'v) table \<Rightarrow> nat \<Rightarrow> nat \<Rightarrow> ('k, 'v) table \<Rightarrow> bool" where
  "is_split h t a index t' \<longleftrightarrow>
     (let d = bk_depth (ht_heap t ! a); n = length (ht_heap t); L = rev (bk_list (ht_heap t ! a)) in
      bucket_size t' = bucket_size t \<and> d < global_depth t' \<and> global_depth t \<le> global_depth t' \<and> global_depth t' \<le> 30 \<and>
      length (ht_dir t') = 2 ^ global_depth t' \<and>
      (\<forall>i<2 ^ global_depth t'. ht_dir t' ! i =
         (if i mod 2 ^ d = index mod 2 ^ d then Some (if low_side d i then n else Suc n) else ht_dir t ! (i mod 2 ^ global_depth t))) \<and>
      ht_heap t' = (ht_heap t)[a := (ht_heap t ! a)\<lparr>bk_depth := Suc d\<rparr>] @
        [\<lparr>bk_list = filter (\<lambda>p. low_side d (h (fst p))) L, bk_size = bucket_size t, bk_depth = Suc d\<rparr>,
         \<lparr>bk_list = filter (\<lambda>p. \<not> low_side d (h (fst p))) L, bk_size = bucket_size t, bk_depth = Suc d\<rparr>])"

lemma low_side_mod: "d < n \<Longrightarrow> low_side d (x mod 2 ^ n) = low_side d x"
proof -
  assume "d < n"
  then have "bit (x mod 2 ^ n) d = bit x d" by (simp add: bit_take_bit_iff flip: take_bit_eq_mod)
  then show ?thesis by (simp add: low_side_def bit_iff_odd flip: even_iff_mod_2_eq_zero)
qed

lemma same_low_bits:
  "i mod 2 ^ Suc d = j mod 2 ^ Suc d \<longleftrightarrow> i mod 2 ^ d = j mod 2 ^ d \<and> low_side d i = low_side d j" for i j :: nat
proof -
  have e: "x mod 2 ^ Suc d = 2 ^ d * (x div 2 ^ d mod 2) + x mod 2 ^ d" for x :: nat
    using mod_mult2_eq [of x "2 ^ d" 2] by (simp add: mult.commute)
  have m: "i mod 2 ^ Suc d mod 2 ^ d = i mod 2 ^ d" for i :: nat by (simp add: mod_mod_cancel)
  have s: "low_side d (i mod 2 ^ Suc d) = low_side d i" for i by (rule low_side_mod) simp
  show ?thesis
  proof
    assume "i mod 2 ^ Suc d = j mod 2 ^ Suc d"
    then show "i mod 2 ^ d = j mod 2 ^ d \<and> low_side d i = low_side d j" by (metis m s)
  next
    assume a: "i mod 2 ^ d = j mod 2 ^ d \<and> low_side d i = low_side d j"
    then have "i div 2 ^ d mod 2 = j div 2 ^ d mod 2" by (auto simp: low_side_def)
    with a show "i mod 2 ^ Suc d = j mod 2 ^ Suc d" unfolding e by simp
  qed
qed

text \<open>\<open>RedistributeBucket\<close> on a directory whose lower part is that of \<open>t\<close> and whose upper part, if any, is null.\<close>

lemma Redistribute_split:
  assumes wf: "ht_wf h t" and i: "index < 2 ^ global_depth t" and a: "ht_dir t ! index = Some a"
    and g: "bk_depth (ht_heap t ! a) < g" "g = global_depth t \<or> g = Suc (global_depth t) \<and> bk_depth (ht_heap t ! a) = global_depth t"
    and dir: "dir = ht_dir t @ replicate (2 ^ g - 2 ^ global_depth t) None"
  shows "\<exists>t'. RedistributeBucket h (t\<lparr>global_depth := g, ht_dir := dir\<rparr>) a index = Ok t' \<and> global_depth t' = g \<and>
     bucket_size t' = bucket_size t \<and>
     ht_dir t' = redirect (index mod 2 ^ bk_depth (ht_heap t ! a)) (2 ^ bk_depth (ht_heap t ! a)) (bk_depth (ht_heap t ! a)) a
       (length (ht_heap t)) (Suc (length (ht_heap t))) dir \<and>
     ht_heap t' = (ht_heap t)[a := (ht_heap t ! a)\<lparr>bk_depth := Suc (bk_depth (ht_heap t ! a))\<rparr>] @
        [\<lparr>bk_list = filter (\<lambda>p. low_side (bk_depth (ht_heap t ! a)) (h (fst p))) (rev (bk_list (ht_heap t ! a))),
          bk_size = bucket_size t, bk_depth = Suc (bk_depth (ht_heap t ! a))\<rparr>,
         \<lparr>bk_list = filter (\<lambda>p. \<not> low_side (bk_depth (ht_heap t ! a)) (h (fst p))) (rev (bk_list (ht_heap t ! a))),
          bk_size = bucket_size t, bk_depth = Suc (bk_depth (ht_heap t ! a))\<rparr>]"
proof -
  let ?b = "ht_heap t ! a" and ?n = "length (ht_heap t)"
  let ?d = "bk_depth ?b"
  let ?nb = "new_Bucket (bucket_size t) (Suc ?d) :: ('a, 'b) Bucket"
  let ?heap = "(ht_heap t)[a := ?b\<lparr>bk_depth := Suc ?d\<rparr>] @ [?nb, ?nb]"
  let ?dir = "redirect (index mod 2 ^ ?d) (2 ^ ?d) ?d a ?n (Suc ?n) dir"
  let ?t = "t\<lparr>global_depth := g, ht_heap := ?heap, num_buckets := Suc (num_buckets t), ht_dir := ?dir\<rparr>"
  have len: "length (ht_dir t) = 2 ^ global_depth t" using wf by (simp add: ht_wf_def)
  have gd: "global_depth t \<le> g" using g(2) by auto
  then have "(2 :: nat) ^ global_depth t \<le> 2 ^ g" by (rule power_increasing) simp
  then have ldir: "length dir = 2 ^ g" using dir len by simp
  have b: "bucket_ok h (bucket_size t) (global_depth t) index ?b"
    by (rule ht_wfD [OF wf i]) (use a in simp)
  have at: "bucket_at t index = ?b" using a by (simp add: bucket_at_def)
  have items: "deref ?t (IndexOf h ?t k) = Ok (if low_side ?d (h k) then ?n else Suc ?n)" if "(k, v) \<in> set (bk_list ?b)" for k v
  proof -
    let ?j = "h k mod 2 ^ g"
    have j: "?j < length dir" using ldir by simp
    have "h k mod 2 ^ ?d = index mod 2 ^ ?d" using b that by (force simp: bucket_ok_def)
    then have jm: "?j mod 2 ^ ?d = index mod 2 ^ ?d" using g(1) by (simp add: mod_mod_cancel le_imp_power_dvd)
    have le: "index mod 2 ^ ?d \<le> ?j" using jm by (metis mod_less_eq_dividend)
    have "dir ! ?j = None \<or> dir ! ?j = Some a"
    proof (cases "?j < 2 ^ global_depth t")
      case True
      then have "dir ! ?j = ht_dir t ! ?j" by (simp add: dir len nth_append)
      moreover have "ht_dir t ! index = ht_dir t ! ?j" using same_bucket [OF wf i True] at jm by simp
      ultimately show ?thesis using a by simp
    next
      case False
      then have "?j - 2 ^ global_depth t < 2 ^ g - 2 ^ global_depth t" using j ldir by (simp add: diff_less_mono)
      with False show ?thesis using len by (simp add: dir nth_append)
    qed
    with le jm have "?dir ! ?j = Some (if low_side ?d ?j then ?n else Suc ?n)"
      using redirect_nth [of "2 ^ ?d" ?j dir "index mod 2 ^ ?d" ?d a ?n "Suc ?n"] j by simp
    then show ?thesis using g(1) j by (simp add: deref_def IndexOf_mod redirect_length low_side_mod)
  qed
  have "reinsert h ?t (rev (bk_list ?b)) = Ok (?t\<lparr>ht_heap := ?heap
     [?n := ?nb\<lparr>bk_list := bk_list ?nb @ filter (\<lambda>p. low_side ?d (h (fst p))) (rev (bk_list ?b))\<rparr>,
      Suc ?n := ?nb\<lparr>bk_list := bk_list ?nb @ filter (\<lambda>p. \<not> low_side ?d (h (fst p))) (rev (bk_list ?b))\<rparr>]\<rparr>)"
    using reinsert_two [of "rev (bk_list ?b)" ?t h ?d ?n "Suc ?n"] items b
    by (simp add: nth_append new_Bucket_def bucket_ok_def rev_map [symmetric])
  moreover have "RedistributeBucket h (t\<lparr>global_depth := g, ht_dir := dir\<rparr>) a index = reinsert h ?t (rev (bk_list ?b))"
    by (simp add: RedistributeBucket_def Let_def)
  ultimately show ?thesis by (simp add: new_Bucket_def list_update_append)
qed


lemma split_dir_same:
  assumes wf: "ht_wf h t" and i: "index < 2 ^ global_depth t" "i < 2 ^ global_depth t" and a: "ht_dir t ! index = Some a"
  shows "ht_dir t ! i = Some a \<longleftrightarrow> i mod 2 ^ bk_depth (ht_heap t ! a) = index mod 2 ^ bk_depth (ht_heap t ! a)"
proof -
  have "Some a = ht_dir t ! i \<longleftrightarrow> index mod 2 ^ bk_depth (ht_heap t ! a) = i mod 2 ^ bk_depth (ht_heap t ! a)"
    using same_bucket [OF wf i] by (simp only: a bucket_at_def option.sel)
  then show ?thesis by (metis (no_types))
qed

lemma redirected:
  assumes wf: "ht_wf h t" and i: "index < 2 ^ global_depth t" "i < 2 ^ global_depth t" and a: "ht_dir t ! index = Some a"
    and d: "d = bk_depth (ht_heap t ! a)"
  shows "redirect (index mod 2 ^ d) (2 ^ d) d a n od (ht_dir t @ us) ! i =
    (if i mod 2 ^ d = index mod 2 ^ d then Some (if low_side d i then n else od) else ht_dir t ! i)"
proof -
  have l: "i < length (ht_dir t)" using wf i(2) by (simp add: ht_wf_def)
  obtain x where x: "ht_dir t ! i = Some x" by (rule ht_wfD [OF wf i(2)])
  have "index mod 2 ^ d \<le> i" if "i mod 2 ^ d = index mod 2 ^ d" using that by (metis mod_less_eq_dividend)
  with redirect_nth [of "2 ^ d" i "ht_dir t @ us" "index mod 2 ^ d" d a n od] split_dir_same [OF wf i a] l x d show ?thesis
    by (auto simp: nth_append)
qed

lemma split_step_is_split:
  assumes wf: "ht_wf h t" and i: "index < 2 ^ global_depth t" and a: "ht_dir t ! index = Some a"
    and room: "bk_depth (ht_heap t ! a) < 30"
  shows "\<exists>t'. split_step h t a index = Ok t' \<and> is_split h t a index t'"
proof -
  let ?d = "bk_depth (ht_heap t ! a)" and ?gd = "global_depth t"
  have b: "?d \<le> ?gd" by (rule ht_wfD [OF wf i]) (use a in \<open>simp add: bucket_ok_def\<close>)
  have len: "length (ht_dir t) = 2 ^ ?gd" "?gd \<le> 30" using wf by (simp_all add: ht_wf_def)
  note red = redirected [OF wf i _ a refl]
  show ?thesis
  proof (cases "?d = ?gd")
    case False
    with b have "?d < ?gd" by simp
    from Redistribute_split [OF wf i a this, of "ht_dir t"] obtain t' where
      "RedistributeBucket h t a index = Ok t'" "global_depth t' = ?gd" "bucket_size t' = bucket_size t"
      "ht_dir t' = redirect (index mod 2 ^ ?d) (2 ^ ?d) ?d a (length (ht_heap t)) (Suc (length (ht_heap t))) (ht_dir t)"
      "ht_heap t' = (ht_heap t)[a := (ht_heap t ! a)\<lparr>bk_depth := Suc ?d\<rparr>] @
        [\<lparr>bk_list = filter (\<lambda>p. low_side ?d (h (fst p))) (rev (bk_list (ht_heap t ! a))), bk_size = bucket_size t, bk_depth = Suc ?d\<rparr>,
         \<lparr>bk_list = filter (\<lambda>p. \<not> low_side ?d (h (fst p))) (rev (bk_list (ht_heap t ! a))), bk_size = bucket_size t, bk_depth = Suc ?d\<rparr>]"
      by auto
    with \<open>?d < ?gd\<close> len red [where us = "[]"] show ?thesis
      by (simp add: split_step_def is_split_def Let_def redirect_length)
  next
    case True
    let ?dir = "ht_dir t @ replicate (2 ^ Suc ?gd - 2 ^ ?gd) None"
    from Redistribute_split [OF wf i a, of "Suc ?gd" ?dir] True obtain t' where t':
      "RedistributeBucket h (t\<lparr>global_depth := Suc ?gd, ht_dir := ?dir\<rparr>) a index = Ok t'"
      "global_depth t' = Suc ?gd" "bucket_size t' = bucket_size t"
      "ht_dir t' = redirect (index mod 2 ^ ?d) (2 ^ ?d) ?d a (length (ht_heap t)) (Suc (length (ht_heap t))) ?dir"
      "ht_heap t' = (ht_heap t)[a := (ht_heap t ! a)\<lparr>bk_depth := Suc ?d\<rparr>] @
        [\<lparr>bk_list = filter (\<lambda>p. low_side ?d (h (fst p))) (rev (bk_list (ht_heap t ! a))), bk_size = bucket_size t, bk_depth = Suc ?d\<rparr>,
         \<lparr>bk_list = filter (\<lambda>p. \<not> low_side ?d (h (fst p))) (rev (bk_list (ht_heap t ! a))), bk_size = bucket_size t, bk_depth = Suc ?d\<rparr>]"
      by auto
    have l2: "length (ht_dir t') = 2 * 2 ^ ?gd" using t'(4) len by (simp add: redirect_length)
    have "fill_dir (ht_dir t') ! j = (if j mod 2 ^ ?d = index mod 2 ^ ?d
        then Some (if low_side ?d j then length (ht_heap t) else Suc (length (ht_heap t))) else ht_dir t ! (j mod 2 ^ ?gd))"
      if j: "j < 2 ^ Suc ?gd" for j
    proof (cases "j < 2 ^ ?gd")
      case low: True
      with fill_dir_nth(1) [OF l2, of j] j red [OF low, where us = "replicate (2 ^ Suc ?gd - 2 ^ ?gd) None"] t'(4) show ?thesis by simp
    next
      case high: False
      then have jm: "j mod 2 ^ ?gd = j - 2 ^ ?gd" "j - 2 ^ ?gd < 2 ^ ?gd" using j by (simp_all add: mod_if)
      have none: "?dir ! j = None" using high jm(2) len by (simp add: nth_append)
      have "index mod 2 ^ ?d \<le> j" using i high True by simp
      then have "ht_dir t' ! j = (if j mod 2 ^ ?d = index mod 2 ^ ?d
          then Some (if low_side ?d j then length (ht_heap t) else Suc (length (ht_heap t))) else None)"
        using redirect_nth [of "2 ^ ?d" j ?dir "index mod 2 ^ ?d" ?d a "length (ht_heap t)" "Suc (length (ht_heap t))"] none j len t'(4) by simp
      then show ?thesis
        using fill_dir_nth(1) [OF l2, of j] red [OF jm(2), where us = "replicate (2 ^ Suc ?gd - 2 ^ ?gd) None"] t'(4) jm high j True by auto
    qed
    moreover have "length (fill_dir (ht_dir t')) = 2 ^ Suc ?gd" using fill_dir_nth(2) [OF l2, of 0] by simp
    moreover have "split_step h t a index = Ok (t'\<lparr>ht_dir := fill_dir (ht_dir t')\<rparr>)"
      using t'(1) True room len by (simp add: split_step_def)
    ultimately show ?thesis using t' True room len(2)
      by (intro exI [of _ "t'\<lparr>ht_dir := fill_dir (ht_dir t')\<rparr>"]) (simp add: is_split_def Let_def)
  qed
qed


lemma map_of_filter_key: "map_of (filter (\<lambda>p. P (fst p)) ps) k = (if P k then map_of ps k else None)"
  by (induction ps) auto

lemma map_of_rev: "distinct (map fst ps) \<Longrightarrow> map_of (rev ps) = map_of ps"
  by (subst map_of_inject_set) (simp_all add: rev_map [symmetric])

lemma mod_power_le: "m \<le> n \<Longrightarrow> x mod 2 ^ n mod 2 ^ m = x mod 2 ^ m" for x :: nat
  by (simp add: mod_mod_cancel le_imp_power_dvd)

text \<open>The bucket each entry points to after a split.\<close>

lemma split_bucket_at:
  assumes wf: "ht_wf h t" and index: "index < 2 ^ global_depth t" and a: "ht_dir t ! index = Some a"
    and sp: "is_split h t a index t'" and i: "i < 2 ^ global_depth t'" and d: "d = bk_depth (ht_heap t ! a)"
  shows "bucket_at t' i = (if i mod 2 ^ d = index mod 2 ^ d
      then \<lparr>bk_list = filter (\<lambda>p. low_side d (h (fst p)) = low_side d i) (rev (bk_list (ht_heap t ! a))),
            bk_size = bucket_size t, bk_depth = Suc d\<rparr>
      else bucket_at t (i mod 2 ^ global_depth t))"
    "\<exists>x<length (ht_heap t'). ht_dir t' ! i = Some x"
proof -
  let ?i = "i mod 2 ^ global_depth t"
  have i0: "?i < 2 ^ global_depth t" by simp
  obtain x where x: "ht_dir t ! ?i = Some x" "x < length (ht_heap t)" by (rule ht_wfD [OF wf i0])
  have dg: "d \<le> global_depth t" unfolding d by (rule ht_wfD [OF wf index]) (use a in \<open>simp add: bucket_ok_def\<close>)
  have "x \<noteq> a" if "i mod 2 ^ d \<noteq> index mod 2 ^ d"
    using split_dir_same [OF wf index i0 a] x(1) that d dg by (auto simp: mod_power_le)
  then show "bucket_at t' i = (if i mod 2 ^ d = index mod 2 ^ d
      then \<lparr>bk_list = filter (\<lambda>p. low_side d (h (fst p)) = low_side d i) (rev (bk_list (ht_heap t ! a))),
            bk_size = bucket_size t, bk_depth = Suc d\<rparr>
      else bucket_at t ?i)"
    using sp i x by (auto simp: is_split_def Let_def bucket_at_def d nth_append)
  show "\<exists>y<length (ht_heap t'). ht_dir t' ! i = Some y"
    using sp i x by (auto simp: is_split_def Let_def)
qed

lemma is_split_wf:
  assumes wf: "ht_wf h t" and index: "index < 2 ^ global_depth t" and a: "ht_dir t ! index = Some a"
    and sp: "is_split h t a index t'"
  shows "ht_wf h t'"
proof -
  let ?b = "ht_heap t ! a" and ?n = "length (ht_heap t)" and ?g = "global_depth t" and ?g' = "global_depth t'"
  define d where "d = bk_depth ?b"
  have b: "bucket_ok h (bucket_size t) ?g index ?b" by (rule ht_wfD [OF wf index]) (use a in simp)
  have g: "?g \<le> ?g'" "d < ?g'" "d \<le> ?g" using sp b by (auto simp: is_split_def Let_def bucket_ok_def d_def)
  note at = split_bucket_at [OF wf index a sp _ d_def]
  have old: "bucket_ok h (bucket_size t) ?g (i mod 2 ^ ?g) (bucket_at t (i mod 2 ^ ?g))" for i
    using wf by (simp add: ht_wf_def)
  have dir: "ht_dir t' ! i = (if i mod 2 ^ d = index mod 2 ^ d then Some (if low_side d i then ?n else Suc ?n)
      else ht_dir t ! (i mod 2 ^ ?g))" if "i < 2 ^ ?g'" for i
    using sp that by (simp add: is_split_def Let_def d_def)
  have ok: "bucket_ok h (bucket_size t') ?g' i (bucket_at t' i)" if i: "i < 2 ^ ?g'" for i
  proof (cases "i mod 2 ^ d = index mod 2 ^ d")
    case True
    have "h (fst p) mod 2 ^ Suc d = i mod 2 ^ Suc d" if "p \<in> set (bk_list ?b)" "low_side d (h (fst p)) = low_side d i" for p
      unfolding same_low_bits using that b True by (simp add: bucket_ok_def d_def)
    moreover have "length (filter P (rev (bk_list ?b))) \<le> bucket_size t" for P
      using b length_filter_le [of P "rev (bk_list ?b)"] by (simp add: bucket_ok_def)
    moreover have "distinct (map fst (filter P (rev (bk_list ?b))))" for P
      using b by (simp add: bucket_ok_def distinct_map_filter rev_map [symmetric])
    ultimately show ?thesis using at(1) [OF i] True g(2) sp by (auto simp: bucket_ok_def is_split_def Let_def)
  next
    case False
    then have "bucket_at t' i = bucket_at t (i mod 2 ^ ?g)" using at(1) [OF i] by simp
    with old [of i] g(1) sp show ?thesis by (auto simp: bucket_ok_def is_split_def Let_def mod_power_le)
  qed
  have shared: "ht_dir t' ! i = ht_dir t' ! j \<longleftrightarrow> i mod 2 ^ bk_depth (bucket_at t' i) = j mod 2 ^ bk_depth (bucket_at t' i)"
    if i: "i < 2 ^ ?g'" and j: "j < 2 ^ ?g'" for i j
  proof -
    let ?i = "i mod 2 ^ ?g" and ?j = "j mod 2 ^ ?g"
    let ?e = "bk_depth (bucket_at t ?i)"
    have small: "ht_dir t ! (k mod 2 ^ ?g) \<noteq> Some ?n" "ht_dir t ! (k mod 2 ^ ?g) \<noteq> Some (Suc ?n)" for k
      by (rule ht_wfD [OF wf, of "k mod 2 ^ ?g"], simp, simp)+
    have e: "?e \<le> ?g" using old [of i] by (simp add: bucket_ok_def)
    have same: "ht_dir t ! ?i = ht_dir t ! ?j \<longleftrightarrow> i mod 2 ^ ?e = j mod 2 ^ ?e"
      using same_bucket [OF wf, of ?i ?j] e by (simp add: mod_power_le)
    have isa: "ht_dir t ! (k mod 2 ^ ?g) = Some a \<longleftrightarrow> k mod 2 ^ d = index mod 2 ^ d" for k
      using split_dir_same [OF wf index _ a, of "k mod 2 ^ ?g"] g(3) by (simp add: d_def mod_power_le)
    show ?thesis
    proof (cases "i mod 2 ^ d = index mod 2 ^ d")
      case ci: True
      then have "bk_depth (bucket_at t' i) = Suc d" using at(1) [OF i] by simp
      moreover have "ht_dir t' ! i = ht_dir t' ! j \<longleftrightarrow> j mod 2 ^ d = index mod 2 ^ d \<and> low_side d i = low_side d j"
        using dir [OF i] dir [OF j] ci small [of j] by auto
      ultimately show ?thesis using ci same_low_bits [of i d j] by auto
    next
      case ci: False
      then have "bk_depth (bucket_at t' i) = ?e" using at(1) [OF i] by simp
      moreover have "ht_dir t' ! i = ht_dir t' ! j \<longleftrightarrow> ht_dir t ! ?i = ht_dir t ! ?j"
        using dir [OF i] dir [OF j] ci small [of i] isa [of i] isa [of j] by auto
      ultimately show ?thesis using same by simp
    qed
  qed
  show ?thesis unfolding ht_wf_def using sp at(2) ok shared by (simp add: is_split_def Let_def)
qed

lemma is_split_view:
  assumes wf: "ht_wf h t" and index: "index < 2 ^ global_depth t" and a: "ht_dir t ! index = Some a"
    and sp: "is_split h t a index t'"
  shows "ht_view h t' = ht_view h t"
    "index = IndexOf h t k \<Longrightarrow> bk_depth (bucket_at t' (IndexOf h t' k)) = Suc (bk_depth (ht_heap t ! a))"
proof -
  let ?b = "ht_heap t ! a"
  have b: "bucket_ok h (bucket_size t) (global_depth t) index ?b" by (rule ht_wfD [OF wf index]) (use a in simp)
  have g: "global_depth t \<le> global_depth t'" "bk_depth ?b < global_depth t'" "bk_depth ?b \<le> global_depth t"
    using sp b by (auto simp: is_split_def Let_def bucket_ok_def)
  note at = split_bucket_at(1) [OF wf index a sp _ refl]
  show "ht_view h t' = ht_view h t"
  proof
    fix k
    show "ht_view h t' k = ht_view h t k"
    proof (cases "h k mod 2 ^ bk_depth ?b = index mod 2 ^ bk_depth ?b")
      case True
      have "ht_dir t ! IndexOf h t k = Some a"
        using split_dir_same [OF wf index IndexOf_less a] True g(3) by (simp add: IndexOf_low)
      then have "bucket_at t (IndexOf h t k) = ?b" by (simp add: bucket_at_def)
      moreover have "bk_list (bucket_at t' (IndexOf h t' k)) =
          filter (\<lambda>p. low_side (bk_depth ?b) (h (fst p)) = low_side (bk_depth ?b) (h k)) (rev (bk_list ?b))"
        using at [OF IndexOf_less [of h t' k]] True g by (simp add: IndexOf_low) (simp add: IndexOf_mod low_side_mod)
      ultimately show ?thesis
        using b map_of_filter_key [of "\<lambda>x. low_side (bk_depth ?b) (h x) = low_side (bk_depth ?b) (h k)" "rev (bk_list ?b)" k]
        by (simp add: ht_view_def bucket_ok_def map_of_rev)
    next
      case False
      then have "bucket_at t' (IndexOf h t' k) = bucket_at t (IndexOf h t' k mod 2 ^ global_depth t)"
        using at [OF IndexOf_less [of h t' k]] g by (simp add: IndexOf_low)
      with g(1) show ?thesis by (simp add: ht_view_def IndexOf_mod mod_power_le)
    qed
  qed
  show "bk_depth (bucket_at t' (IndexOf h t' k)) = Suc (bk_depth ?b)" if "index = IndexOf h t k"
    using at [OF IndexOf_less [of h t' k]] that g by (simp add: IndexOf_low)
qed


section \<open>Insertion\<close>

lemma bucket_key_view:
  assumes wf: "ht_wf h t" and i: "i < 2 ^ global_depth t" and p: "p \<in> set (bk_list (bucket_at t i))"
  shows "ht_view h t (fst p) = Some (snd p)"
proof -
  obtain a where a: "ht_dir t ! i = Some a" "bucket_at t i = ht_heap t ! a"
    "bucket_ok h (bucket_size t) (global_depth t) i (ht_heap t ! a)"
    by (rule ht_wfD [OF wf i])
  then have "ht_dir t ! IndexOf h t (fst p) = Some a"
    using split_dir_same [OF wf i IndexOf_less a(1)] p by (simp add: IndexOf_low bucket_ok_def)
  moreover have "map_of (bk_list (ht_heap t ! a)) (fst p) = Some (snd p)"
    using a(2,3) p by (simp add: bucket_ok_def)
  ultimately show ?thesis by (simp add: ht_view_def bucket_at_def)
qed

text \<open>Why an insertion may fail: as many keys as a bucket holds agree with the new one in 30 bits of the hash.\<close>

definition crowded :: "('k \<Rightarrow> nat) \<Rightarrow> ('k, 'v) table \<Rightarrow> 'k \<Rightarrow> bool" where
  "crowded h t k \<longleftrightarrow> k \<notin> dom (ht_view h t) \<and>
     (\<exists>ks\<subseteq>dom (ht_view h t). card ks = bucket_size t \<and> (\<forall>k'\<in>ks. h k' mod 2 ^ 30 = h k mod 2 ^ 30))"

lemma full_bucket_crowded:
  assumes wf: "ht_wf h t" and at: "bucket_at t (IndexOf h t k) = b" and full: "IsFull b" "map_of (bk_list b) k = None"
    and d: "bk_depth b = 30"
  shows "crowded h t k"
proof -
  have b: "bucket_ok h (bucket_size t) (global_depth t) (IndexOf h t k) b"
    using ht_wfD [OF wf IndexOf_less, of h k] at by metis
  let ?ks = "fst ` set (bk_list b)"
  have "card ?ks = bucket_size t"
    using b full(1) distinct_card [of "map fst (bk_list b)"] by (simp add: bucket_ok_def IsFull_def)
  moreover have "?ks \<subseteq> dom (ht_view h t)"
    using bucket_key_view [OF wf IndexOf_less, of _ h k] at by auto
  moreover have "IndexOf h t k mod 2 ^ 30 = h k mod 2 ^ 30"
    using b d by (intro IndexOf_low) (simp add: bucket_ok_def)
  then have "\<forall>k'\<in>?ks. h k' mod 2 ^ 30 = h k mod 2 ^ 30"
    using b d by (auto simp: bucket_ok_def)
  moreover have "k \<notin> dom (ht_view h t)" using at full(2) by (simp add: ht_view_def domIff)
  ultimately show ?thesis unfolding crowded_def by blast
qed

lemma insert_loop_correct:
  assumes "ht_wf h t" "31 - bk_depth (bucket_at t (IndexOf h t k)) \<le> fuel"
  shows "(\<exists>t'. insert_loop fuel h t k v = Some (Ok t') \<and> ht_wf h t' \<and> bucket_size t' = bucket_size t \<and>
        ht_view h t' = (ht_view h t)(k \<mapsto> v)) \<or>
    (\<exists>m. insert_loop fuel h t k v = Some (Abort m) \<and> crowded h t k)"
  using assms
proof (induction fuel arbitrary: t)
  case (Suc fuel)
  obtain a where a: "ht_dir t ! IndexOf h t k = Some a" "deref t (IndexOf h t k) = Ok a"
    "bucket_at t (IndexOf h t k) = ht_heap t ! a"
    "bucket_ok h (bucket_size t) (global_depth t) (IndexOf h t k) (ht_heap t ! a)"
    by (rule ht_wfD [OF Suc.prems(1) IndexOf_less])
  let ?b = "ht_heap t ! a"
  have low: "h k mod 2 ^ bk_depth ?b = IndexOf h t k mod 2 ^ bk_depth ?b" using a(4) by (simp add: bucket_ok_def IndexOf_low)
  have d30: "bk_depth ?b \<le> 30" using a(4) Suc.prems(1) by (simp add: bucket_ok_def ht_wf_def)
  show ?case
  proof (cases "Bucket_Insert ?b k v")
    case (Pair placed b)
    show ?thesis
    proof (cases placed)
      case True
      with Pair Bucket_Insert_ok [of ?b k v b, OF _ a(4) low] bucket_update [OF Suc.prems(1) a(1), of b "Some v"]
      show ?thesis by (subst (1 2) insert_loop.simps) (simp add: a(2))
    next
      case False
      then have full: "map_of (bk_list ?b) k = None" "IsFull ?b" using Pair Bucket_Insert_full [of ?b k v b] by auto
      show ?thesis
      proof (cases "bk_depth ?b = 30")
        case True
        then have "split_step h t a (IndexOf h t k) = Abort ''1 << 31 in an int''"
          using a(4) Suc.prems(1) by (simp add: split_step_def bucket_ok_def ht_wf_def)
        with full_bucket_crowded [OF Suc.prems(1) a(3) full(2,1) True] show ?thesis
          using Pair False by (subst (1 2) insert_loop.simps) (simp add: a(2))
      next
        case deeper: False
        then obtain t1 where t1: "split_step h t a (IndexOf h t k) = Ok t1" "is_split h t a (IndexOf h t k) t1"
          using split_step_is_split [OF Suc.prems(1) IndexOf_less a(1)] d30 by auto
        note sp = Suc.prems(1) IndexOf_less a(1) t1(2)
        have "31 - bk_depth (bucket_at t1 (IndexOf h t1 k)) \<le> fuel"
          using is_split_view(2) [OF sp refl] Suc.prems(2) a(3) d30 deeper by simp
        note ih = Suc.IH [OF is_split_wf [OF sp] this]
        have bs: "bucket_size t1 = bucket_size t" using t1(2) by (simp add: is_split_def Let_def)
        have "crowded h t1 k = crowded h t k" by (simp only: crowded_def bs is_split_view(1) [OF sp])
        moreover have "insert_loop (Suc fuel) h t k v = insert_loop fuel h t1 k v"
          using Pair False t1(1) by (subst insert_loop.simps) (simp add: a(2))
        ultimately show ?thesis using ih unfolding bs is_split_view(1) [OF sp] by simp
      qed
    qed
  qed
next
  case 0
  have "bucket_ok h (bucket_size t) (global_depth t) (IndexOf h t k) (bucket_at t (IndexOf h t k))" "global_depth t \<le> 30"
    using 0(1) IndexOf_less [of h t k] by (simp_all add: ht_wf_def)
  with 0 show ?case by (simp add: bucket_ok_def)
qed

text \<open>31 rounds are enough.\<close>

lemma Insert_correct:
  assumes "ht_wf h t"
  shows "(\<exists>t'. Insert h t k v = Some (Ok t') \<and> ht_wf h t' \<and> bucket_size t' = bucket_size t \<and>
        ht_view h t' = (ht_view h t)(k \<mapsto> v)) \<or>
    (\<exists>m. Insert h t k v = Some (Abort m) \<and> crowded h t k)"
  unfolding Insert_def by (rule insert_loop_correct [OF assms]) simp

lemma new_table: "ht_wf h (new_ExtendibleHashTable n)" "ht_view h (new_ExtendibleHashTable n) = Map.empty"
  by (simp_all add: ht_wf_def new_ExtendibleHashTable_def new_Bucket_def bucket_at_def bucket_ok_def ht_view_def
      IndexOf_mod fun_eq_iff)

lemma new_bucket_size: "bucket_size (new_ExtendibleHashTable n) = n"
  by (simp add: new_ExtendibleHashTable_def)

lemma Find_correct: "ht_wf h t \<Longrightarrow> Find h t k = Ok (ht_view h t k)"
  by (rule ht_wfD [OF _ IndexOf_less [of h t k]]) (auto simp: Find_def Bucket_Find_map_of ht_view_def)

lemma Remove_correct:
  assumes "ht_wf h t"
  shows "\<exists>t'. Remove h t k = Ok (k \<in> dom (ht_view h t), t') \<and> ht_wf h t' \<and> bucket_size t' = bucket_size t \<and>
    ht_view h t' = (ht_view h t)(k := None)"
proof -
  obtain a where a: "ht_dir t ! IndexOf h t k = Some a" "deref t (IndexOf h t k) = Ok a"
    "bucket_at t (IndexOf h t k) = ht_heap t ! a"
    "bucket_ok h (bucket_size t) (global_depth t) (IndexOf h t k) (ht_heap t ! a)"
    by (rule ht_wfD [OF assms IndexOf_less])
  obtain r b where rb: "Bucket_Remove (ht_heap t ! a) k = (r, b)" by fastforce
  note ok = Bucket_Remove_ok [OF rb a(4)]
  with bucket_update [OF assms a(1), of b None] show ?thesis
    by (simp add: Remove_def a(2) rb) (auto simp: ht_view_def a(3) domIff)
qed


lemma view_same_bucket:
  assumes "ht_wf h t" "h k' mod 2 ^ 30 = h k mod 2 ^ 30" "ht_view h t k' = Some v"
  shows "k' \<in> fst ` set (bk_list (bucket_at t (IndexOf h t k)))"
proof -
  have "global_depth t \<le> 30" using assms(1) by (simp add: ht_wf_def)
  then have "IndexOf h t k' = IndexOf h t k"
    using assms(2) mod_power_le [of "global_depth t" 30] by (metis IndexOf_mod)
  with assms(3) show ?thesis by (force simp: ht_view_def dest: map_of_SomeD)
qed

lemma crowded_no_room:
  assumes "ht_wf h t" "crowded h t k" "ht_wf h t'" "bucket_size t' = bucket_size t" "ht_view h t' = (ht_view h t)(k \<mapsto> v)"
  shows False
proof -
  obtain ks where ks: "ks \<subseteq> dom (ht_view h t)" "card ks = bucket_size t" "\<forall>k'\<in>ks. h k' mod 2 ^ 30 = h k mod 2 ^ 30"
    "k \<notin> dom (ht_view h t)"
    using assms(2) by (auto simp: crowded_def)
  let ?b = "bucket_at t' (IndexOf h t' k)"
  have "insert k ks \<subseteq> fst ` set (bk_list ?b)"
  proof
    fix x assume x: "x \<in> insert k ks"
    then have "x \<in> dom (ht_view h t')" using ks(1) assms(5) by auto
    with x ks(3) show "x \<in> fst ` set (bk_list ?b)" by (auto intro: view_same_bucket [OF assms(3)])
  qed
  then have "card (insert k ks) \<le> card (fst ` set (bk_list ?b))" by (intro card_mono) simp_all
  also have "\<dots> \<le> length (bk_list ?b)" using card_length [of "map fst (bk_list ?b)"] by simp
  also have "\<dots> \<le> bucket_size t"
    using assms(3,4) IndexOf_less [of h t' k] by (simp add: ht_wf_def bucket_ok_def)
  finally have le: "card (insert k ks) \<le> bucket_size t" .
  have "finite (insert k ks)" using \<open>insert k ks \<subseteq> fst ` set (bk_list ?b)\<close> by (rule finite_subset) simp
  then have "card (insert k ks) = Suc (bucket_size t)" using ks(1,2,4) by (subst card_insert_disjoint) auto
  with le show False by simp
qed

section \<open>The table as an implementation of finite maps\<close>

lemma Insert_Ok:
  assumes "ht_wf h t" "Insert h t k v = Some (Ok t')"
  shows "ht_wf h t' \<and> bucket_size t' = bucket_size t \<and> ht_view h t' = (ht_view h t)(k \<mapsto> v)"
  using Insert_correct [OF assms(1), of k v] assms(2) by auto

interpretation ht: kv_table "ht_wf h" "ht_view h" "Find h" "Insert h" "Remove h" for h :: "'k \<Rightarrow> nat"
proof unfold_locales
  fix t t' :: "('k, 'v) table" and k v r
  assume wf: "ht_wf h t"
  show "Find h t k = Ok (ht_view h t k)" using wf by (rule Find_correct)
  show "ht_wf h t' \<and> ht_view h t' = (ht_view h t)(k \<mapsto> v)" if "Insert h t k v = Some (Ok t')"
    using Insert_Ok [OF wf that] by simp
  show "ht_wf h t' \<and> ht_view h t' = (ht_view h t)(k := None) \<and> r = (k \<in> dom (ht_view h t))" if "Remove h t k = Ok (r, t')"
    using Remove_correct [OF wf, of k] that by auto
qed

lemma not_crowded:
  assumes "dom (ht_view h t) \<subseteq> K" "finite K" "k \<in> K" "card {k'\<in>K. h k' mod 2 ^ 30 = h k mod 2 ^ 30} \<le> bucket_size t"
  shows "\<not> crowded h t k"
proof
  assume "crowded h t k"
  then obtain ks where ks: "ks \<subseteq> dom (ht_view h t)" "card ks = bucket_size t" "\<forall>k'\<in>ks. h k' mod 2 ^ 30 = h k mod 2 ^ 30"
    "k \<notin> dom (ht_view h t)"
    by (auto simp: crowded_def)
  have "insert k ks \<subseteq> {k'\<in>K. h k' mod 2 ^ 30 = h k mod 2 ^ 30}" using ks assms(1,3) by auto
  then have "card (insert k ks) \<le> card {k'\<in>K. h k' mod 2 ^ 30 = h k mod 2 ^ 30}" using assms(2) by (intro card_mono) simp_all
  moreover have "finite ks" using finite_subset [OF subset_trans [OF ks(1) assms(1)] assms(2)] .
  then have "card (insert k ks) = Suc (bucket_size t)" using ks(1,2,4) by (subst card_insert_disjoint) auto
  ultimately show False using assms(4) by linarith
qed

lemma table_run_total:
  assumes "ht_wf h t" "dom (ht_view h t) \<subseteq> K" "op_keys ops \<subseteq> K" "finite K"
    "\<And>k. k \<in> K \<Longrightarrow> card {k'\<in>K. h k' mod 2 ^ 30 = h k mod 2 ^ 30} \<le> bucket_size t"
  shows "\<exists>t'. table_run (Insert h) (Remove h) t ops = Some (Ok t')"
  using assms
proof (induction ops arbitrary: t)
  case (Cons p ops)
  show ?case
  proof (cases p)
    case (OpPut k v)
    have k: "k \<in> K" using Cons.prems(3) OpPut by simp
    then have "\<not> crowded h t k" using Cons.prems by (intro not_crowded [of h t K]) auto
    then obtain t1 where t1: "Insert h t k v = Some (Ok t1)" "ht_wf h t1" "bucket_size t1 = bucket_size t"
      "ht_view h t1 = (ht_view h t)(k \<mapsto> v)" using Insert_correct [OF Cons.prems(1), of k v] by auto
    have "dom (ht_view h t1) \<subseteq> K" using Cons.prems(2) k t1(4) by auto
    with Cons.IH [OF t1(2)] Cons.prems(3-5) t1(1,3) OpPut show ?thesis by simp
  next
    case (OpDel k)
    obtain t1 where t1: "Remove h t k = Ok (k \<in> dom (ht_view h t), t1)" "ht_wf h t1" "bucket_size t1 = bucket_size t"
      "ht_view h t1 = (ht_view h t)(k := None)" using Remove_correct [OF Cons.prems(1), of k] by auto
    then have "dom (ht_view h t1) \<subseteq> K" using Cons.prems(2) by auto
    with Cons.IH [OF t1(2)] Cons.prems(3-5) t1(1,3) OpDel show ?thesis by simp
  qed
qed simp

section \<open>Properties\<close>

text \<open>C7: The hash table is a finite map: after any sequence of insertions and removals on a new table, every lookup
  gives what the map gives. The sequence goes through as long as no more keys than fit into one bucket agree in the
  low 30 bits of the hash.\<close>

theorem hash_table_is_map:
  assumes "\<And>k. k \<in> op_keys ops \<Longrightarrow> card {k'\<in>op_keys ops. h k' mod 2 ^ 30 = h k mod 2 ^ 30} \<le> n"
  shows "\<exists>t. table_run (Insert h) (Remove h) (new_ExtendibleHashTable n) ops = Some (Ok t) \<and>
    (\<forall>k. Find h t k = Ok (foldl apply_op Map.empty ops k))"
proof -
  have wf: "ht_wf h (new_ExtendibleHashTable n)" and view: "ht_view h (new_ExtendibleHashTable n) = Map.empty"
    by (rule new_table)+
  have "\<exists>t. table_run (Insert h) (Remove h) (new_ExtendibleHashTable n) ops = Some (Ok t)"
    using assms by (intro table_run_total [OF wf, of "op_keys ops"]) (simp_all add: view new_bucket_size)
  then obtain t where "table_run (Insert h) (Remove h) (new_ExtendibleHashTable n) ops = Some (Ok t)" by blast
  with ht.run_find [OF wf, of ops t, unfolded view] show ?thesis by blast
qed

theorem hash_table_is_map_witness:
  "\<exists>t. table_run (Insert id) (Remove id) (new_ExtendibleHashTable 2) [OpPut 1 ''a'', OpPut 3 ''b'', OpPut 5 ''c'', OpDel 3] = Some (Ok t) \<and>
    (\<forall>k. Find id t k = Ok (foldl apply_op Map.empty [OpPut 1 ''a'', OpPut 3 ''b'', OpPut 5 ''c'', OpDel 3] k))"
proof (rule hash_table_is_map)
  fix k :: nat
  let ?K = "op_keys [OpPut 1 ''a'', OpPut 3 ''b'', OpPut 5 ''c'', OpDel 3] :: nat set"
  assume "k \<in> ?K"
  then have "{k'\<in>?K. id k' mod 2 ^ 30 = id k mod 2 ^ 30} = {k}" by auto
  then show "card {k'\<in>?K. id k' mod 2 ^ 30 = id k mod 2 ^ 30} \<le> 2" by simp
qed

text \<open>C29: \<open>Insert\<close> always ends within 31 rounds, and it succeeds exactly if the key is there already or fewer keys than a
  bucket holds agree with it in the low 30 bits of the hash. Otherwise the directory would need 31 bits, and the shift in
  \<open>IndexOf\<close> is undefined.\<close>

theorem Insert_ends:
  assumes "ht_wf h t"
  shows "\<exists>r. Insert h t k v = Some r \<and> (is_Ok r \<longleftrightarrow> \<not> crowded h t k)"
  using Insert_correct [OF assms, of k v] crowded_no_room [OF assms, of k _ v] by auto

theorem Insert_ends_witness:
  "\<exists>r. Insert (\<lambda>k. 0) (new_ExtendibleHashTable 0 :: (nat, nat) table) 1 2 = Some r \<and>
     (is_Ok r \<longleftrightarrow> \<not> crowded (\<lambda>k. 0) (new_ExtendibleHashTable 0 :: (nat, nat) table) 1)"
  by (rule Insert_ends) (rule new_table)

end
