(* ===== verification/Cluster.thy ===== *)
theory Cluster
  imports Raft_Nn "HOL-Library.Multiset"
begin

text \<open>
  Which nodes run a name node: \<^verbatim>\<open>src/node/raft_dn.cpp\<close> (the Raft group of all data nodes, whose leader chooses the
  name nodes), \<^verbatim>\<open>src/node/server.cpp\<close> (starting and stopping the own name node), the two list requests of
  \<^verbatim>\<open>src/node/datanode.cpp\<close>, and \<open>get_online_datanodes\<close> of \<^verbatim>\<open>src/client/sdk.cpp\<close>.

  The Raft library is outside: the entries it delivers and the leader it knows are arguments. The network is the
  record \<open>net\<close> of \<open>Nodes\<close>. \<^verbatim>\<open>std::sort\<close> with a comparison of addresses leaves the order of nodes with equal addresses
  open; it is the argument \<open>srt\<close>, and \<open>sort_ok\<close> says what the standard promises. Timers are identified by numbers, so
  that a timer that is running but no longer referenced can be seen.
\<close>

record cluster_flags =
  expected_nn :: nat
  flag_nn_port :: int
  flag_dn_port :: int

definition sort_ok :: "(Node list \<Rightarrow> Node list) \<Rightarrow> bool" where
  "sort_ok srt \<longleftrightarrow> (\<forall>ns. mset (srt ns) = mset ns \<and> sorted (map ip (srt ns)))"

section \<open>The state machine of the data nodes\<close>

record RaftDN =
  dn_my_ip :: string
  namenode_list :: "Node list"
  datanode_list :: "Node list"
  nn_timer :: "nat option"
  live_timers :: "nat list"
  timers_made :: nat

definition new_RaftDN :: "cluster_flags \<Rightarrow> string \<Rightarrow> Node list \<Rightarrow> RaftDN" where
  "new_RaftDN F my_ip nodes = \<lparr>dn_my_ip = my_ip, namenode_list = [],
     datanode_list = map (\<lambda>n. n\<lparr>port := flag_dn_port F\<rparr>) nodes, nn_timer = None, live_timers = [], timers_made = 0\<rparr>"

definition dn_leader :: "cluster_flags \<Rightarrow> RaftDN \<Rightarrow> PeerId option \<Rightarrow> Node" where
  "dn_leader F s leader_id =
     (case leader_id of
        None \<Rightarrow> default_Node\<lparr>ip := dn_my_ip s, port := flag_nn_port F\<rparr>
      | Some p \<Rightarrow> from_peerId default_Node p)"

subsection \<open>Choosing the name nodes\<close>

text \<open>\<^verbatim>\<open>std::binary_search\<close> on a vector that is sorted by address.\<close>

definition binary_search :: "Node list \<Rightarrow> Node \<Rightarrow> bool" where
  "binary_search nodes node \<longleftrightarrow> list_ex (\<lambda>n. \<not> Node_less n node \<and> \<not> Node_less node n) nodes"

fun pick_online :: "cluster_flags \<Rightarrow> Node list \<Rightarrow> Node list \<Rightarrow> Node list" where
  "pick_online F [] nodes = nodes"
| "pick_online F (node # subl) nodes =
     (if nodeStatus node = ONLINE then
        (let nodes' = nodes @ [node\<lparr>port := flag_nn_port F\<rparr>]
         in if length nodes' \<ge> expected_nn F then nodes' else pick_online F subl nodes')
      else pick_online F subl nodes)"

text \<open>The loop over the other nodes, \<open>expected_nn\<close> of them at a time.\<close>

function choose_more :: "cluster_flags \<Rightarrow> net \<Rightarrow> Node list \<Rightarrow> Node list \<Rightarrow> Node list outcome" where
  "choose_more F W allnodes nodes =
     (if allnodes \<noteq> [] \<and> length nodes < expected_nn F then
        bindO (node_discovery W (take (expected_nn F) allnodes)) (\<lambda>subl.
          choose_more F W (drop (expected_nn F) allnodes) (pick_online F subl nodes))
      else Ok nodes)"
  by pat_completeness auto
termination by (relation "measure (\<lambda>(F, W, allnodes, nodes). length allnodes)") auto

declare choose_more.simps [simp del]

definition online :: "Node list \<Rightarrow> Node list" where
  "online nodes = filter (\<lambda>n. nodeStatus n = ONLINE) nodes"

definition chosen_namenodes ::
  "cluster_flags \<Rightarrow> (Node list \<Rightarrow> Node list) \<Rightarrow> net \<Rightarrow> RaftDN \<Rightarrow> Node list outcome" where
  "chosen_namenodes F srt W s =
     bindO (node_discovery W (srt (namenode_list s))) (\<lambda>probed.
       let nodes = online probed;
           allnodes = filter (\<lambda>n. \<not> binary_search nodes n) (datanode_list s)
       in choose_more F W allnodes nodes)"

text \<open>The entry the leader proposes.\<close>

definition Nodes_value :: "('a json_lib_scheme) \<Rightarrow> Node list \<Rightarrow> string" where
  "Nodes_value L nodes = jdump L (JArr (map Node_to_json nodes))"

definition on_leader_start ::
  "('a json_lib_scheme) \<Rightarrow> cluster_flags \<Rightarrow> (Node list \<Rightarrow> Node list) \<Rightarrow> net \<Rightarrow> RaftDN \<Rightarrow> string outcome" where
  "on_leader_start L F srt W s =
     bindO (chosen_namenodes F srt W s) (\<lambda>nodes.
       if nodes = [] then Throw (RuntimeError ''no node ready'') else Ok (Nodes_value L nodes))"

definition on_nodes_loss ::
  "('a json_lib_scheme) \<Rightarrow> cluster_flags \<Rightarrow> (Node list \<Rightarrow> Node list) \<Rightarrow> net \<Rightarrow> RaftDN \<Rightarrow> Node list \<Rightarrow> string outcome" where
  "on_nodes_loss L F srt W s nodes = on_leader_start L F srt W s"

subsection \<open>Watching the name nodes\<close>

text \<open>One run of the timer. \<open>W k\<close> is the network during the \<open>k\<close>-th scan; the result is the list with the new states and
  the address that was lost, if any.\<close>

function timer_run ::
  "(nat \<Rightarrow> net) \<Rightarrow> nat \<Rightarrow> nat \<Rightarrow> Node list \<Rightarrow> Node list \<Rightarrow> (Node list \<times> string option) outcome" where
  "timer_run W k retryCount seen [] = Ok (seen, None)"
| "timer_run W k retryCount seen (n # ns) =
     bindO (scan (W k) n) (\<lambda>n'.
       if nodeStatus n' = OFFLINE then
         (if retryCount \<ge> 3 then Ok (seen @ n' # ns, Some (ip n'))
          else timer_run W (Suc k) (Suc retryCount) seen (n' # ns))
       else timer_run W (Suc k) 0 (seen @ [n']) ns)"
  by pat_completeness auto
termination by (relation "measures [\<lambda>(W, k, r, seen, ns). length ns, \<lambda>(W, k, r, seen, ns). 4 - r]") auto

text \<open>\<^verbatim>\<open>IntervalTimer\<close>: one turn of its thread. A \<^verbatim>\<open>TimeoutException\<close> (the value \<open>Some d\<close>) goes to the handler, after which the
  thread ends; any other exception leaves the thread. The flag says whether the thread goes on.\<close>

definition IntervalTimer_turn ::
  "('s \<Rightarrow> ('s \<times> 'd option) outcome) \<Rightarrow> ('d \<Rightarrow> 's \<Rightarrow> 's outcome) \<Rightarrow> 's \<Rightarrow> ('s \<times> bool) outcome" where
  "IntervalTimer_turn runFunc timeoutFunc s =
     thread_result (bindO (runFunc s) (\<lambda>(s', timeout).
       case timeout of
         None \<Rightarrow> Ok (s', True)
       | Some d \<Rightarrow> bindO (timeoutFunc d s') (\<lambda>s''. Ok (s'', False))))"

text \<open>The timer of the name nodes; the second component collects the entries that are proposed.\<close>

definition timer_fires ::
  "('a json_lib_scheme) \<Rightarrow> cluster_flags \<Rightarrow> (Node list \<Rightarrow> Node list) \<Rightarrow> (nat \<Rightarrow> net) \<Rightarrow> net \<Rightarrow> nat
     \<Rightarrow> RaftDN \<times> string list \<Rightarrow> (RaftDN \<times> string list) outcome" where
  "timer_fires L F srt W W' t st =
     bindO (IntervalTimer_turn
        (\<lambda>(s, out). bindO (timer_run W 0 0 [] (namenode_list s)) (\<lambda>(nodes, loss). Ok ((s\<lparr>namenode_list := nodes\<rparr>, out), loss)))
        (\<lambda>lossip (s, out). bindO (mk_Node lossip 0 UNKNOWN) (\<lambda>node.
           bindO (on_nodes_loss L F srt W' s [node]) (\<lambda>entry. Ok (s, out @ [entry]))))
        st)
      (\<lambda>((s, out), runs). Ok (if runs then s else s\<lparr>live_timers := remove1 t (live_timers s)\<rparr>, out))"

section \<open>The server process\<close>

text \<open>\<open>sv_nn\<close> is \<^verbatim>\<open>nn_raft_ptr\<close>: the field \<^verbatim>\<open>peers\<close> of the own name node, if there is one. What the server asks of the Raft library is
  a list of calls. Starting a name node may fail at several places; the argument says with what message.\<close>

record Server =
  sv_dn :: RaftDN
  sv_nn :: "Node list option"

definition new_Server :: "cluster_flags \<Rightarrow> string \<Rightarrow> Node list \<Rightarrow> Server" where
  "new_Server F my_ip nodes = \<lparr>sv_dn = new_RaftDN F my_ip nodes, sv_nn = None\<rparr>"

definition Server_leader :: "cluster_flags \<Rightarrow> Server \<Rightarrow> PeerId option \<Rightarrow> Node outcome" where
  "Server_leader F sv leader_id =
     (case sv_nn sv of
        None \<Rightarrow> Throw (RuntimeError ''not running namenode'')
      | Some peers \<Rightarrow> Ok (leader (dn_my_ip (sv_dn sv)) (flag_nn_port F) leader_id))"

datatype peer_call = StartNN "Node list" | ChangePeers "Node list" | ResetPeers "Node list" | ShutdownNN

definition change_namenodes_list :: "Node list \<Rightarrow> Node list \<Rightarrow> peer_call outcome" where
  "change_namenodes_list old_namenodes new_namenodes =
     (let alivenodes_count = length (filter (\<lambda>node. list_ex (Node_eq node) new_namenodes) old_namenodes)
      in bindO (Nodes_to_string old_namenodes) (\<lambda>_. bindO (Nodes_to_string new_namenodes) (\<lambda>_.
           Ok (if alivenodes_count > length new_namenodes div 2 then ChangePeers new_namenodes
               else ResetPeers new_namenodes))))"

definition on_namenodes_change ::
  "string option \<Rightarrow> string \<Rightarrow> Node list \<Rightarrow> Node list option \<Rightarrow> (Node list option \<times> peer_call list) outcome" where
  "on_namenodes_change start_error my_ip namenodes nn =
     (if list_ex (\<lambda>node. ip node = my_ip) namenodes then
        (case nn of
           Some peers \<Rightarrow> bindO (change_namenodes_list peers namenodes) (\<lambda>c. Ok (Some namenodes, [c]))
         | None \<Rightarrow>
             bindO (Nodes_to_string namenodes) (\<lambda>_.
               case start_error of
                 Some m \<Rightarrow> Throw (RuntimeError m)
               | None \<Rightarrow> Ok (Some namenodes, [StartNN namenodes])))
      else
        (case nn of
           None \<Rightarrow> Ok (None, [])
         | Some peers \<Rightarrow> Ok (None, [ShutdownNN])))"

subsection \<open>Applying an entry\<close>

text \<open>Only the last of the delivered entries is looked at.\<close>

definition Nodes_from_json :: "json \<Rightarrow> Node list outcome" where
  "Nodes_from_json j = bindO (get_array j) (mapO Node_from_json)"

definition reset_timer :: "bool \<Rightarrow> RaftDN \<Rightarrow> RaftDN" where
  "reset_timer is_leader s =
     (if \<not> is_leader then
        (case nn_timer s of
           None \<Rightarrow> s
         | Some t \<Rightarrow> s\<lparr>live_timers := remove1 t (live_timers s), nn_timer := None\<rparr>)
      else s\<lparr>nn_timer := Some (timers_made s), live_timers := live_timers s @ [timers_made s],
             timers_made := Suc (timers_made s)\<rparr>)"

definition dn_on_apply ::
  "('a json_lib_scheme) \<Rightarrow> cluster_flags \<Rightarrow> PeerId option \<Rightarrow> string option \<Rightarrow> Server \<Rightarrow> string list
     \<Rightarrow> (Server \<times> peer_call list) outcome" where
  "dn_on_apply L F leader_id start_error sv entries =
     (let data = (if entries = [] then [] else last entries)
      in bindO (json_parse L data) (\<lambda>j. bindO (Nodes_from_json j) (\<lambda>nodes.
           let s = (sv_dn sv)\<lparr>namenode_list := nodes\<rparr>
           in bindO (on_namenodes_change start_error (dn_my_ip s) nodes (sv_nn sv)) (\<lambda>(nn, calls).
                Ok (\<lparr>sv_dn = reset_timer (ip (dn_leader F s leader_id) = dn_my_ip s) s, sv_nn = nn\<rparr>, calls)))))"

text \<open>Snapshots; \<open>None\<close> is a file that could not be read, for which \<open>read_file\<close> ends the process.\<close>

definition dn_snapshot_save :: "('a json_lib_scheme) \<Rightarrow> RaftDN \<Rightarrow> string" where
  "dn_snapshot_save L s = Nodes_value L (namenode_list s)"

definition dn_snapshot_load :: "('a json_lib_scheme) \<Rightarrow> RaftDN \<Rightarrow> string option \<Rightarrow> RaftDN outcome" where
  "dn_snapshot_load L s content =
     (case content of
        None \<Rightarrow> Abort ''Failed to open file for reading.''
      | Some str \<Rightarrow>
          if str = [] then Ok s
          else bindO (json_parse L str) (\<lambda>j. bindO (Nodes_from_json j) (\<lambda>nodes. Ok (s\<lparr>namenode_list := nodes\<rparr>))))"

subsection \<open>What a server does\<close>

inductive server_step :: "('a json_lib_scheme) \<Rightarrow> cluster_flags \<Rightarrow> (Node list \<Rightarrow> Node list) \<Rightarrow> Server \<Rightarrow> Server \<Rightarrow> bool"
  for L F srt where
  entries_applied:
    "dn_on_apply L F leader_id start_error sv entries = Ok (sv', calls) \<Longrightarrow> server_step L F srt sv sv'"
| timer_fired:
    "t \<in> set (live_timers (sv_dn sv)) \<Longrightarrow> timer_fires L F srt W W' t (sv_dn sv, []) = Ok (s', out) \<Longrightarrow>
     server_step L F srt sv (sv\<lparr>sv_dn := s'\<rparr>)"

inductive_cases server_stepE: "server_step L F srt sv sv'"

section \<open>Lists of nodes on request\<close>

text \<open>Both requests log the whole list, and printing an empty list is undefined.\<close>

definition dn_get_namenodes :: "RaftDN \<Rightarrow> string list outcome" where
  "dn_get_namenodes s =
     bindO (Nodes_to_string (namenode_list s)) (\<lambda>_. Ok (map Node_to_string (namenode_list s)))"

definition dn_get_datanodes :: "RaftDN \<Rightarrow> string list outcome" where
  "dn_get_datanodes s =
     bindO (Nodes_to_string (datanode_list s)) (\<lambda>_. Ok (map Node_to_string (datanode_list s)))"

definition get_online_datanodes :: "net \<Rightarrow> string list \<Rightarrow> string list outcome" where
  "get_online_datanodes W node_strs =
     bindO (mapO (\<lambda>s. Node_from_string s default_Node) node_strs) (\<lambda>vec.
     bindO (node_discovery W vec) (\<lambda>probed. Ok (map Node_to_string (online probed))))"


section \<open>Lemmas\<close>

abbreviation as_nn :: "cluster_flags \<Rightarrow> Node \<Rightarrow> Node" where
  "as_nn F n \<equiv> n\<lparr>port := flag_nn_port F\<rparr>"

lemma online_append [simp]: "online (xs @ ys) = online xs @ online ys"
  by (simp add: online_def)

lemma online_Nil [simp]: "online [] = []"
  by (simp add: online_def)

lemma pick_online_prefix:
  "\<exists>k. pick_online F subl nodes = nodes @ map (as_nn F) (take k (online subl)) \<and>
    (expected_nn F \<le> length (pick_online F subl nodes) \<or> length (online subl) \<le> k) \<and>
    length (pick_online F subl nodes) \<le> max (expected_nn F) (Suc (length nodes))"
proof (induction subl arbitrary: nodes)
  case (Cons n subl)
  let ?nodes = "nodes @ [as_nn F n]"
  show ?case
  proof (cases "nodeStatus n = ONLINE \<and> length ?nodes < expected_nn F")
    case True
    obtain k where "pick_online F subl ?nodes = ?nodes @ map (as_nn F) (take k (online subl))"
      "expected_nn F \<le> length (pick_online F subl ?nodes) \<or> length (online subl) \<le> k"
      "length (pick_online F subl ?nodes) \<le> max (expected_nn F) (Suc (length ?nodes))"
      using Cons.IH [of ?nodes] by blast
    moreover have "pick_online F (n # subl) nodes = pick_online F subl ?nodes" using True by simp
    ultimately show ?thesis using True by (intro exI [of _ "Suc k"]) (auto simp: online_def)
  next
    case False
    then show ?thesis
    proof (cases "nodeStatus n = ONLINE")
      case True
      with False show ?thesis by (intro exI [of _ 1]) (auto simp: online_def)
    next
      case False
      with Cons.IH [of nodes] show ?thesis by (auto simp: online_def)
    qed
  qed
qed simp

text \<open>The nodes that are added are the first of those that answer.\<close>

lemma choose_more_prefix:
  assumes "choose_more F W allnodes nodes = Ok chosen"
  shows "\<exists>k. chosen = nodes @ map (as_nn F) (take k (online (map (probed W) allnodes))) \<and>
    (expected_nn F \<le> length chosen \<or> length (online (map (probed W) allnodes)) \<le> k) \<and>
    length chosen \<le> max (expected_nn F) (length nodes)"
  using assms
proof (induction F W allnodes nodes rule: choose_more.induct)
  case (1 F W allnodes nodes)
  show ?case
  proof (cases "allnodes \<noteq> [] \<and> length nodes < expected_nn F")
    case True
    let ?a = "take (expected_nn F) allnodes" and ?b = "drop (expected_nn F) allnodes"
    let ?on = "\<lambda>xs. online (map (probed W) xs)"
    have split: "?on allnodes = ?on ?a @ ?on ?b" by (metis append_take_drop_id map_append online_append)
    obtain subl where subl: "node_discovery W ?a = Ok subl" "choose_more F W ?b (pick_online F subl nodes) = Ok chosen"
      using "1.prems" True by (subst (asm) choose_more.simps) (auto simp: outcome_simps)
    then have s: "subl = map (probed W) ?a" using node_discovery_probed by blast
    let ?p = "pick_online F subl nodes"
    obtain k where k: "?p = nodes @ map (as_nn F) (take k (?on ?a))"
      "expected_nn F \<le> length ?p \<or> length (?on ?a) \<le> k" "length ?p \<le> max (expected_nn F) (Suc (length nodes))"
      using pick_online_prefix [of F subl nodes] unfolding s by blast
    show ?thesis
    proof (cases "expected_nn F \<le> length ?p")
      case enough: True
      then have "chosen = ?p" using subl(2) by (subst (asm) choose_more.simps) simp
      moreover have "take k (?on ?a) = take (min k (length (?on ?a))) (?on allnodes)"
        unfolding split by (cases "k \<le> length (?on ?a)") simp_all
      ultimately show ?thesis
        using k True enough by (intro exI [of _ "min k (length (?on ?a))"]) auto
    next
      case False
      with k(2) have p: "?p = nodes @ map (as_nn F) (?on ?a)" using k(1) by simp
      obtain m where m: "chosen = ?p @ map (as_nn F) (take m (?on ?b))"
        "expected_nn F \<le> length chosen \<or> length (?on ?b) \<le> m" "length chosen \<le> max (expected_nn F) (length ?p)"
        using "1.IH" [OF True subl(2)] by blast
      have "chosen = nodes @ map (as_nn F) (take (length (?on ?a) + m) (?on allnodes))"
        unfolding split m(1) p by simp
      with m(2,3) False split show ?thesis by (intro exI [of _ "length (?on ?a) + m"]) auto
    qed
  qed (use "1.prems" in \<open>subst (asm) choose_more.simps, auto intro!: exI [of _ 0]\<close>)
qed


lemma binary_search_ip: "binary_search nodes n \<longleftrightarrow> ip n \<in> ip ` set nodes"
  by (auto simp: binary_search_def list_ex_iff Node_less_def not_less antisym_conv)

lemma online_probed: "online (map (probed W) ns) = map (probed W) (filter (answers W) ns)"
  by (simp add: online_def filter_map comp_def)

lemma sort_okD:
  assumes "sort_ok srt"
  shows "set (srt ns) = set ns" "distinct (map ip (srt ns)) = distinct (map ip ns)"
    "length (filter P (srt ns)) = length (filter P ns)"
proof -
  have m: "mset (srt ns) = mset ns" using assms by (simp add: sort_ok_def)
  then show "set (srt ns) = set ns" by (metis set_mset_mset)
  have "mset (map ip (srt ns)) = mset (map ip ns)" using m by simp
  then show "distinct (map ip (srt ns)) = distinct (map ip ns)" by (rule mset_eq_imp_distinct_iff)
  show "length (filter P (srt ns)) = length (filter P ns)"
    using m by (metis mset_filter size_mset)
qed

lemma map_ip_as_nn: "map ip (map (as_nn F) ns) = map ip ns"
  by simp

text \<open>The choice in closed form: the old name nodes that answer, and then a first part of the others that do.\<close>

lemma chosen_closed:
  assumes "chosen_namenodes F srt W s = Ok chosen"
  shows "\<exists>k. let old = filter (answers W) (srt (namenode_list s));
      new = filter (\<lambda>n. answers W n \<and> ip n \<notin> ip ` set old) (datanode_list s) in
    map ip chosen = map ip old @ map ip (take k new) \<and>
    (expected_nn F \<le> length chosen \<or> length new \<le> k) \<and> length chosen \<le> max (expected_nn F) (length old)"
proof -
  let ?old = "filter (answers W) (srt (namenode_list s))"
  let ?all = "filter (\<lambda>n. ip n \<notin> ip ` set ?old) (datanode_list s)"
  obtain probes where d: "node_discovery W (srt (namenode_list s)) = Ok probes"
    using assms by (auto simp: chosen_namenodes_def outcome_simps)
  then have on: "online probes = map (probed W) ?old"
    using node_discovery_probed [OF d] by (simp add: online_probed)
  have ips: "ip ` probed W ` A = ip ` A" for A by (simp add: image_image)
  have "choose_more F W ?all (map (probed W) ?old) = Ok chosen"
    using assms d unfolding chosen_namenodes_def by (simp add: on binary_search_ip ips Let_def)
  from choose_more_prefix [OF this] obtain k where
    k: "chosen = map (probed W) ?old @ map (as_nn F) (take k (map (probed W) (filter (answers W) ?all)))"
    "expected_nn F \<le> length chosen \<or> length (filter (answers W) ?all) \<le> k"
    "length chosen \<le> max (expected_nn F) (length ?old)"
    unfolding online_probed length_map by blast
  have new: "filter (answers W) ?all = filter (\<lambda>n. answers W n \<and> ip n \<notin> ip ` set ?old) (datanode_list s)"
    by (simp add: conj_commute)
  have "map ip chosen = map ip ?old @ map ip (take k (filter (answers W) ?all))"
    unfolding k(1) by (simp add: take_map)
  with k(2,3) show ?thesis unfolding new Let_def by blast
qed

subsection \<open>Lists of nodes as entries\<close>

lemma Nodes_value_read:
  assumes "codec_ok L" "\<forall>n\<in>set ns. ascii (ip n) \<and> in_int (port n)"
  shows "bindO (json_parse L (Nodes_value L ns)) Nodes_from_json = Ok (map (\<lambda>n. n\<lparr>nodeStatus := UNKNOWN\<rparr>) ns)"
proof -
  have "json_ok (JArr (map Node_to_json ns))" using assms(2) by (auto simp: list_all_iff json_ok_Node)
  moreover have "mapO Node_from_json (map Node_to_json ns) = Ok (map (\<lambda>n. n\<lparr>nodeStatus := UNKNOWN\<rparr>) ns)"
    using assms(2) by (induction ns) (auto simp: Node_from_json_def Node_to_json_def to_int32_id default_Node_def)
  ultimately show ?thesis using assms(1) by (simp add: Nodes_value_def json_parse_dump Nodes_from_json_def)
qed

lemma Nodes_to_string_ok: "ns \<noteq> [] \<Longrightarrow> \<exists>t. Nodes_to_string ns = Ok t"
  by (simp add: Nodes_to_string_join)

lemma on_namenodes_change_role:
  assumes "nn \<noteq> Some []"
  shows "\<exists>calls. on_namenodes_change None my_ip ns nn = Ok (if my_ip \<in> ip ` set ns then Some ns else None, calls)"
proof (cases "my_ip \<in> ip ` set ns")
  case True
  then have "ns \<noteq> []" by auto
  with Nodes_to_string_ok obtain t where t: "Nodes_to_string ns = Ok t" by blast
  have ex: "list_ex (\<lambda>n. ip n = my_ip) ns" using True by (auto simp: list_ex_iff)
  show ?thesis
  proof (cases nn)
    case (Some peers)
    with assms Nodes_to_string_ok [of peers] t True ex show ?thesis
      by (auto simp: on_namenodes_change_def change_namenodes_list_def Let_def)
  qed (use t True ex in \<open>auto simp: on_namenodes_change_def\<close>)
next
  case False
  then have "\<not> list_ex (\<lambda>n. ip n = my_ip) ns" by (auto simp: list_ex_iff)
  with False show ?thesis by (cases nn) (auto simp: on_namenodes_change_def)
qed

lemma reset_timer_frame [simp]:
  "namenode_list (reset_timer b s) = namenode_list s" "datanode_list (reset_timer b s) = datanode_list s"
  "dn_my_ip (reset_timer b s) = dn_my_ip s"
  by (auto simp: reset_timer_def split: option.splits)

lemma dn_on_apply_nodes:
  assumes "codec_ok L" "\<forall>n\<in>set ns. ascii (ip n) \<and> in_int (port n)" "sv_nn sv \<noteq> Some []"
  shows "\<exists>sv' calls. dn_on_apply L F lid None sv (es @ [Nodes_value L ns]) = Ok (sv', calls) \<and>
    namenode_list (sv_dn sv') = map (\<lambda>n. n\<lparr>nodeStatus := UNKNOWN\<rparr>) ns \<and>
    sv_nn sv' = (if dn_my_ip (sv_dn sv) \<in> ip ` set ns then Some (map (\<lambda>n. n\<lparr>nodeStatus := UNKNOWN\<rparr>) ns) else None)"
proof -
  let ?ns = "map (\<lambda>n. n\<lparr>nodeStatus := UNKNOWN\<rparr>) ns"
  obtain calls where c: "on_namenodes_change None (dn_my_ip (sv_dn sv)) ?ns (sv_nn sv) =
      Ok (if dn_my_ip (sv_dn sv) \<in> ip ` set ?ns then Some ?ns else None, calls)"
    using on_namenodes_change_role [OF assms(3)] by blast
  have "ip ` set ?ns = ip ` set ns" by (force simp: image_iff)
  with c Nodes_value_read [OF assms(1,2)] show ?thesis
    by (auto simp: dn_on_apply_def Let_def bindO_assoc outcome_simps)
qed

lemma snapshot_read:
  assumes "codec_ok L" "jparse L [] = None" "\<forall>n\<in>set (namenode_list t). ascii (ip n) \<and> in_int (port n) \<and> nodeStatus n = UNKNOWN"
  shows "dn_snapshot_load L s (Some (dn_snapshot_save L t)) = Ok (s\<lparr>namenode_list := namenode_list t\<rparr>)"
proof -
  have r: "bindO (json_parse L (Nodes_value L (namenode_list t))) Nodes_from_json = Ok (namenode_list t)"
    using Nodes_value_read [OF assms(1), of "namenode_list t"] assms(3) by (simp add: map_idI)
  then have "Nodes_value L (namenode_list t) \<noteq> []" using assms(2) by (auto simp: json_parse_def)
  with r show ?thesis by (auto simp: dn_snapshot_load_def dn_snapshot_save_def outcome_simps)
qed

subsection \<open>The timer\<close>

lemma answers_status [simp]: "answers W (probed W' n) = answers W n"
  by (simp add: answers_def probed_def Node_to_string_def)

lemma probed_probed [simp]: "probed W (probed W' n) = probed W n"
  by (simp add: probed_def answers_def Node_to_string_def)

text \<open>A loss is reported for a node that was scanned four times in a row without an answer; without a loss, every node has
  answered one of the scans.\<close>

lemma timer_run_result:
  assumes "timer_run W k r seen ns = Ok (ms, loss)" "ns \<noteq> [] \<longrightarrow> (\<exists>j. j + r = k \<and> (\<forall>i<r. \<not> answers (W (j + i)) (hd ns)))" "r \<le> 3"
  shows "map ip ms = map ip (seen @ ns) \<and>
    (case loss of
       None \<Rightarrow> (\<forall>n\<in>set ns. \<exists>j. answers (W j) n)
     | Some a \<Rightarrow> \<exists>n\<in>set ns. ip n = a \<and> (\<exists>j. \<forall>i<4. \<not> answers (W (j + i)) n))"
  using assms
proof (induction W k r seen ns arbitrary: ms rule: timer_run.induct)
  case (2 W k r seen n ns)
  obtain j where j: "j + r = k" "\<forall>i<r. \<not> answers (W (j + i)) n" using "2.prems"(2) by auto
  obtain n' where sc: "scan (W k) n = Ok n'" using "2.prems"(1) by (auto simp: outcome_simps)
  then have n': "n' = probed (W k) n" by (rule scan_probed)
  have more: "\<forall>i<Suc r. \<not> answers (W (j + i)) n" if "\<not> answers (W k) n" using j that by (auto simp: less_Suc_eq)
  consider "answers (W k) n" | "\<not> answers (W k) n" "r = 3" | "\<not> answers (W k) n" "r < 3" using "2.prems"(3) by linarith
  then show ?case
  proof cases
    case 1
    then have "timer_run W (Suc k) 0 (seen @ [n']) ns = Ok (ms, loss)" "nodeStatus n' \<noteq> OFFLINE"
      using "2.prems"(1) sc n' by simp_all
    from "2.IH"(2) [OF this(2,1)] show ?thesis using 1 n' by (cases loss) auto
  next
    case 2
    then have "ms = seen @ n' # ns" "loss = Some (ip n')" using "2.prems"(1) sc n' by simp_all
    with more [OF 2(1)] 2 n' show ?thesis by (auto intro!: exI [of _ j])
  next
    case 3
    then have run: "timer_run W (Suc k) (Suc r) seen (n' # ns) = Ok (ms, loss)" and off: "nodeStatus n' = OFFLINE" "\<not> 3 \<le> r"
      using "2.prems"(1) sc n' by simp_all
    have "\<exists>j. j + Suc r = Suc k \<and> (\<forall>i<Suc r. \<not> answers (W (j + i)) n')" using more [OF 3(1)] j(1) n' by auto
    from "2.IH"(1) [OF off run _] this 3 n' show ?thesis by (cases loss) auto
  qed
qed simp

lemma timer_fires_frame:
  assumes "timer_fires L F srt W W' t (s, out) = Ok (s', out')"
  shows "map ip (namenode_list s') = map ip (namenode_list s)" "dn_my_ip s' = dn_my_ip s"
proof -
  obtain ms loss where run: "timer_run W 0 0 [] (namenode_list s) = Ok (ms, loss)"
    using assms by (auto simp: timer_fires_def IntervalTimer_turn_def outcome_simps thread_result_Ok)
  then have ips: "map ip ms = map ip (namenode_list s)" using timer_run_result [OF run] by simp
  have "s' \<in> {s\<lparr>namenode_list := ms\<rparr>, s\<lparr>namenode_list := ms, live_timers := remove1 t (live_timers s)\<rparr>}"
    using assms by (auto simp: timer_fires_def IntervalTimer_turn_def outcome_simps thread_result_Ok run split: option.splits)
  with ips show "map ip (namenode_list s') = map ip (namenode_list s)" "dn_my_ip s' = dn_my_ip s" by auto
qed

subsection \<open>Roles\<close>

text \<open>A server runs a name node exactly if it is in the list, with the list as peers.\<close>

definition role_ok :: "Server \<Rightarrow> bool" where
  "role_ok sv \<longleftrightarrow>
     (sv_nn sv \<noteq> None \<longleftrightarrow> dn_my_ip (sv_dn sv) \<in> ip ` set (namenode_list (sv_dn sv))) \<and>
     (\<forall>peers. sv_nn sv = Some peers \<longrightarrow> map ip peers = map ip (namenode_list (sv_dn sv)))"

lemma on_namenodes_change_Ok:
  "on_namenodes_change start_error my_ip ns nn = Ok (nn', calls) \<Longrightarrow> nn' = (if my_ip \<in> ip ` set ns then Some ns else None)"
  by (force simp: on_namenodes_change_def list_ex_iff outcome_simps split: if_splits option.splits)

lemma dn_on_apply_role:
  assumes "dn_on_apply L F leader_id start_error sv entries = Ok (sv', calls)"
  shows "role_ok sv'" "dn_my_ip (sv_dn sv') = dn_my_ip (sv_dn sv)"
proof -
  from assms obtain ns nn where
    nn: "on_namenodes_change start_error (dn_my_ip (sv_dn sv)) ns (sv_nn sv) = Ok (nn, calls)" and
    sv': "sv_nn sv' = nn" "namenode_list (sv_dn sv') = ns" "dn_my_ip (sv_dn sv') = dn_my_ip (sv_dn sv)"
    by (auto simp: dn_on_apply_def Let_def outcome_simps)
  from on_namenodes_change_Ok [OF nn] show "role_ok sv'" by (simp add: role_ok_def sv')
  show "dn_my_ip (sv_dn sv') = dn_my_ip (sv_dn sv)" by (rule sv')
qed

lemma dn_leader_frame [simp]: "dn_leader F (s\<lparr>namenode_list := ns\<rparr>) l = dn_leader F s l"
  by (cases l) (simp_all add: dn_leader_def)

lemma dn_on_apply_timers:
  assumes "dn_on_apply L F leader_id start_error sv entries = Ok (sv', calls)"
  shows "\<exists>ns. sv_dn sv' = reset_timer (ip (dn_leader F (sv_dn sv) leader_id) = dn_my_ip (sv_dn sv)) ((sv_dn sv)\<lparr>namenode_list := ns\<rparr>)"
  using assms by (auto simp: dn_on_apply_def Let_def outcome_simps)

lemma server_step_role:
  assumes "server_step L F srt sv sv'" "role_ok sv"
  shows "role_ok sv'"
  using assms(1)
proof (rule server_stepE)
  fix W W' t s' out
  assume sv': "sv' = sv\<lparr>sv_dn := s'\<rparr>" and "timer_fires L F srt W W' t (sv_dn sv, []) = Ok (s', out)"
  note fr = timer_fires_frame [OF this(2)]
  from fr(1) have "ip ` set (namenode_list s') = ip ` set (namenode_list (sv_dn sv))" by (metis list.set_map)
  with fr assms(2) show ?thesis by (simp add: role_ok_def sv')
qed (rule dn_on_apply_role)

subsection \<open>The choice always ends\<close>

lemma scan_total:
  assumes "chan_init W (Node_to_string n)"
  shows "scan W n = Ok (probed W n)"
proof -
  have "\<exists>n'. scan W n = Ok n'" using assms by (simp add: scan_def Let_def)
  with scan_probed show ?thesis by blast
qed

lemma node_discovery_total: "\<forall>a. chan_init W a \<Longrightarrow> node_discovery W ns = Ok (map (probed W) ns)"
  by (induction ns) (simp_all add: node_discovery_def scan_total)

lemma choose_more_total: "\<forall>a. chan_init W a \<Longrightarrow> \<exists>chosen. choose_more F W allnodes nodes = Ok chosen"
proof (induction F W allnodes nodes rule: choose_more.induct)
  case (1 F W allnodes nodes)
  then show ?case by (subst choose_more.simps) (simp add: node_discovery_total)
qed

lemma chosen_total: "\<forall>a. chan_init W a \<Longrightarrow> \<exists>chosen. chosen_namenodes F srt W s = Ok chosen"
  by (simp add: chosen_namenodes_def node_discovery_total choose_more_total Let_def)

text \<open>What the choice promises.\<close>

definition good_choice :: "cluster_flags \<Rightarrow> net \<Rightarrow> RaftDN \<Rightarrow> Node list \<Rightarrow> bool" where
  "good_choice F W s chosen \<longleftrightarrow>
     distinct (map ip chosen) \<and>
     (\<forall>n\<in>set (namenode_list s). answers W n \<longrightarrow> ip n \<in> ip ` set chosen) \<and>
     (\<forall>c\<in>set chosen. \<exists>n\<in>set (namenode_list s) \<union> set (datanode_list s). ip n = ip c \<and> answers W n) \<and>
     (length chosen < expected_nn F \<longrightarrow> (\<forall>n\<in>set (datanode_list s). answers W n \<longrightarrow> ip n \<in> ip ` set chosen)) \<and>
     length chosen \<le> max (expected_nn F) (length (filter (answers W) (namenode_list s)))"

lemma image_disjointI: "(\<And>n. n \<in> B \<Longrightarrow> f n \<notin> S) \<Longrightarrow> S \<inter> f ` B = {}"
  by auto

lemma new_disjoint: "f ` A \<inter> f ` set (take k (filter (\<lambda>n. Q n \<and> f n \<notin> f ` A) xs)) = {}"
  by (rule image_disjointI, drule in_set_takeD) simp

lemma chosen_good:
  assumes "chosen_namenodes F srt W s = Ok chosen" "sort_ok srt"
    "distinct (map ip (namenode_list s))" "distinct (map ip (datanode_list s))"
  shows "good_choice F W s chosen"
proof -
  let ?old = "filter (answers W) (srt (namenode_list s))"
  let ?new = "filter (\<lambda>n. answers W n \<and> ip n \<notin> ip ` set ?old) (datanode_list s)"
  obtain k where k: "map ip chosen = map ip ?old @ map ip (take k ?new)"
    "expected_nn F \<le> length chosen \<or> length ?new \<le> k" "length chosen \<le> max (expected_nn F) (length ?old)"
    using chosen_closed [OF assms(1)] unfolding Let_def by blast
  have srt: "set (srt (namenode_list s)) = set (namenode_list s)" "distinct (map ip (srt (namenode_list s)))"
    using sort_okD [OF assms(2)] assms(3) by simp_all
  have ips: "ip ` set chosen = ip ` set ?old \<union> ip ` set (take k ?new)"
    using arg_cong [OF k(1), of set] by (simp only: set_append list.set_map)
  have tk: "set (take k ?new) \<subseteq> set ?new" by (rule set_take_subset)
  have d: "distinct (map ip (take k ?new))" 
    unfolding take_map [symmetric] by (intro distinct_take distinct_map_filter assms(4))
  have "ip ` set ?old \<inter> ip ` set (take k ?new) = {}" by (rule new_disjoint)
  then have "distinct (map ip chosen)" unfolding k(1) using d srt(2) by (simp add: distinct_map_filter)
  moreover have "\<forall>n\<in>set (namenode_list s). answers W n \<longrightarrow> ip n \<in> ip ` set chosen" unfolding ips using srt(1) by auto
  moreover have "\<forall>c\<in>set chosen. \<exists>n\<in>set (namenode_list s) \<union> set (datanode_list s). ip n = ip c \<and> answers W n"
  proof
    fix c assume "c \<in> set chosen"
    then have "ip c \<in> ip ` set ?old \<union> ip ` set ?new" using ips tk by blast
    then show "\<exists>n\<in>set (namenode_list s) \<union> set (datanode_list s). ip n = ip c \<and> answers W n" using srt(1) by force
  qed
  moreover have "ip n \<in> ip ` set chosen"
    if "length chosen < expected_nn F" "n \<in> set (datanode_list s)" "answers W n" for n
    using that k(2) ips by auto
  ultimately show ?thesis using k(3) sort_okD(3) [OF assms(2)] by (simp add: good_choice_def)
qed

lemma good_choice_empty:
  assumes "good_choice F W s chosen" "0 < expected_nn F"
  shows "chosen = [] \<longleftrightarrow> \<not> (\<exists>n\<in>set (namenode_list s) \<union> set (datanode_list s). answers W n)"
  using assms unfolding good_choice_def by (cases chosen) auto

section \<open>Properties\<close>

text \<open>C30: A data node that becomes leader, or that lost a name node, and that can make channels, proposes a list of name
  nodes if any node answers: the addresses are distinct, each of them answered a probe, every old name node that
  answers is kept, the list is shorter than \<^verbatim>\<open>expected_nn\<close> only if every data node that answers is in it, and longer
  only if so many old name nodes answer. If nobody answers, it fails with ``no node ready''.\<close>

theorem namenode_choice:
  assumes "sort_ok srt" "distinct (map ip (namenode_list s))" "distinct (map ip (datanode_list s))"
    "\<forall>a. chan_init W a" "0 < expected_nn F"
  shows "if \<exists>n\<in>set (namenode_list s) \<union> set (datanode_list s). answers W n
    then \<exists>chosen. on_leader_start L F srt W s = Ok (Nodes_value L chosen) \<and> chosen \<noteq> [] \<and> good_choice F W s chosen
    else on_leader_start L F srt W s = Throw (RuntimeError ''no node ready'')"
proof -
  obtain chosen where c: "chosen_namenodes F srt W s = Ok chosen" using chosen_total [OF assms(4)] by blast
  note g = chosen_good [OF c assms(1-3)]
  show ?thesis
  proof (cases "chosen = []")
    case True
    with good_choice_empty [OF g assms(5)] show ?thesis by (simp add: on_leader_start_def c)
  next
    case False
    then have "on_leader_start L F srt W s = Ok (Nodes_value L chosen)" by (simp add: on_leader_start_def c)
    with False g good_choice_empty [OF g assms(5)] show ?thesis by auto
  qed
qed

text \<open>C31: The entry that proposes a list of name nodes, applied on any server as the last of a batch, makes that list
  the list of the server, and the server runs a name node exactly if its address is in the list. A snapshot of the
  list is read back.\<close>

theorem proposal_applied:
  assumes "codec_ok L" "jparse L [] = None" "\<forall>n\<in>set ns. ascii (ip n) \<and> in_int (port n)" "role_ok sv"
  shows "\<exists>sv' calls. dn_on_apply L F leader_id None sv (es @ [Nodes_value L ns]) = Ok (sv', calls) \<and>
    namenode_list (sv_dn sv') = map (\<lambda>n. n\<lparr>nodeStatus := UNKNOWN\<rparr>) ns \<and>
    sv_nn sv' = (if dn_my_ip (sv_dn sv) \<in> ip ` set ns then Some (namenode_list (sv_dn sv')) else None) \<and>
    dn_snapshot_load L s (Some (dn_snapshot_save L (sv_dn sv'))) = Ok (s\<lparr>namenode_list := namenode_list (sv_dn sv')\<rparr>)"
proof -
  let ?ns = "map (\<lambda>n. n\<lparr>nodeStatus := UNKNOWN\<rparr>) ns"
  have "sv_nn sv \<noteq> Some []" using assms(4) by (auto simp: role_ok_def)
  from dn_on_apply_nodes [OF assms(1,3) this] obtain sv' calls where
    a: "dn_on_apply L F leader_id None sv (es @ [Nodes_value L ns]) = Ok (sv', calls)"
    "namenode_list (sv_dn sv') = ?ns" "sv_nn sv' = (if dn_my_ip (sv_dn sv) \<in> ip ` set ns then Some ?ns else None)" by blast
  have "dn_snapshot_load L s (Some (dn_snapshot_save L (sv_dn sv'))) = Ok (s\<lparr>namenode_list := namenode_list (sv_dn sv')\<rparr>)"
    by (rule snapshot_read) (use assms a in auto)
  with a show ?thesis by auto
qed


text \<open>C32: A run of the timer keeps the addresses of the list. If it reports a loss, the node of that address left four
  successive scans unanswered; if it reports none, every name node answered one of the scans.\<close>

theorem name_node_loss:
  assumes "timer_run W 0 0 [] ns = Ok (ms, loss)"
  shows "map ip ms = map ip ns \<and>
    (case loss of
       None \<Rightarrow> \<forall>n\<in>set ns. \<exists>k. answers (W k) n
     | Some a \<Rightarrow> \<exists>n\<in>set ns. ip n = a \<and> (\<exists>k. \<forall>i<4. \<not> answers (W (k + i)) n))"
  using timer_run_result [OF assms] by simp

text \<open>Every entry that the leader applies starts one more timer and stops none; a later entry, applied after the
  leadership was lost, stops only the youngest of them.\<close>

theorem old_timers_survive:
  assumes "dn_on_apply L F None e sv es = Ok (sv1, calls1)" "dn_on_apply L F None e sv1 es = Ok (sv2, calls2)"
    and "dn_on_apply L F (Some (leader_ip, leader_port)) e sv2 es = Ok (sv3, calls3)" "leader_ip \<noteq> dn_my_ip (sv_dn sv)"
    and "timers_made (sv_dn sv) = 0" "live_timers (sv_dn sv) = []"
  shows "live_timers (sv_dn sv2) = [0, 1] \<and> live_timers (sv_dn sv3) = [0] \<and> nn_timer (sv_dn sv3) = None"
proof -
  have ip: "dn_my_ip (sv_dn sv1) = dn_my_ip (sv_dn sv)" "dn_my_ip (sv_dn sv2) = dn_my_ip (sv_dn sv)"
    using dn_on_apply_role(2) assms(1,2) by metis+
  note t = dn_on_apply_timers [OF assms(1)] dn_on_apply_timers [OF assms(2)] dn_on_apply_timers [OF assms(3)]
  show "live_timers (sv_dn sv2) = [0, 1] \<and> live_timers (sv_dn sv3) = [0] \<and> nn_timer (sv_dn sv3) = None"
    using t assms(4-) ip by (auto simp: dn_leader_def from_peerId_def default_Node_def reset_timer_def)
qed

section \<open>Witnesses\<close>

text \<open>Three data nodes, of which the second does not answer.\<close>

definition F3 :: cluster_flags where
  "F3 = \<lparr>expected_nn = 2, flag_nn_port = 8001, flag_dn_port = 8002\<rparr>"

definition W3 :: net where
  "W3 = \<lparr>chan_init = (\<lambda>a. True), echo_failed = (\<lambda>a i. hd a = CHR ''b'')\<rparr>"

definition nodes3 :: "Node list" where
  "nodes3 = map (\<lambda>a. \<lparr>ip = [a], port = 8001, nodeStatus = UNKNOWN\<rparr>) [CHR ''a'', CHR ''b'', CHR ''c'']"

definition leader3 :: RaftDN where
  "leader3 = (new_RaftDN F3 ''a'' nodes3)\<lparr>namenode_list := take 2 nodes3\<rparr>"

lemmas cluster3_defs = F3_def W3_def nodes3_def leader3_def new_RaftDN_def

lemma sort_ok_sort_key: "sort_ok (sort_key ip)"
  by (simp add: sort_ok_def)

lemma answers3: "answers W3 n \<longleftrightarrow> hd (Node_to_string n) \<noteq> CHR ''b''"
  by (auto simp: answers_def W3_def intro: exI [of _ 0])

lemma scan3: "scan W3 n = Ok (probed W3 n)"
  by (simp add: scan_total W3_def)

theorem namenode_choice_witness:
  "\<exists>chosen. on_leader_start tiny_json F3 (sort_key ip) W3 leader3 = Ok (Nodes_value tiny_json chosen) \<and>
     chosen \<noteq> [] \<and> good_choice F3 W3 leader3 chosen"
proof -
  have "\<exists>n\<in>set (namenode_list leader3) \<union> set (datanode_list leader3). answers W3 n"
    by (simp add: answers3 leader3_def nodes3_def Node_to_string_def)
  moreover have "distinct (map ip (namenode_list leader3))" "distinct (map ip (datanode_list leader3))"
    "\<forall>a. chan_init W3 a" "0 < expected_nn F3"
    by (simp_all add: cluster3_defs)
  ultimately show ?thesis
    using namenode_choice [OF sort_ok_sort_key, of leader3 W3 F3 tiny_json] by simp
qed

lemma nodes3_ok:
  "\<forall>n\<in>set nodes3. ascii (ip n) \<and> in_int (port n)" "map (\<lambda>n. n\<lparr>nodeStatus := UNKNOWN\<rparr>) nodes3 = nodes3"
  "''a'' \<in> ip ` set nodes3" "jparse tiny_json [] = None"
  by (simp_all add: nodes3_def ascii_def in_int_def INT_MIN_def INT_MAX_def tiny_json_def dec_json_def)

lemma new_Server_simps: "role_ok (new_Server F a ns)" "dn_my_ip (sv_dn (new_Server F a ns)) = a"
  "sv_nn (new_Server F a ns) = None" "live_timers (sv_dn (new_Server F a ns)) = []" "timers_made (sv_dn (new_Server F a ns)) = 0"
  by (simp_all add: role_ok_def new_Server_def new_RaftDN_def)

lemma apply3:
  assumes "role_ok sv" "dn_my_ip (sv_dn sv) = ''a''"
  shows "\<exists>sv' calls. dn_on_apply tiny_json F3 leader_id None sv [Nodes_value tiny_json nodes3] = Ok (sv', calls) \<and>
    role_ok sv' \<and> dn_my_ip (sv_dn sv') = ''a'' \<and> sv_nn sv' = Some nodes3"
proof -
  have "sv_nn sv \<noteq> Some []" using assms(1) by (auto simp: role_ok_def)
  from dn_on_apply_nodes [OF tiny_json_ok nodes3_ok(1) this, of F3 leader_id "[]"] obtain sv' calls where
    a: "dn_on_apply tiny_json F3 leader_id None sv [Nodes_value tiny_json nodes3] = Ok (sv', calls)" "sv_nn sv' = Some nodes3"
    unfolding assms(2) nodes3_ok(2) using nodes3_ok(3) by auto
  with dn_on_apply_role [OF a(1)] assms(2) show ?thesis by simp
qed

theorem proposal_applied_witness:
  "\<exists>sv' calls. dn_on_apply tiny_json F3 None None (new_Server F3 ''a'' nodes3) ([] @ [Nodes_value tiny_json nodes3]) = Ok (sv', calls) \<and>
     namenode_list (sv_dn sv') = nodes3 \<and> sv_nn sv' = Some nodes3"
  using proposal_applied [OF tiny_json_ok nodes3_ok(4,1), of "new_Server F3 ''a'' nodes3" F3 None "[]" leader3,
      OF new_Server_simps(1)] nodes3_ok(3)
  unfolding nodes3_ok(2) new_Server_simps(2) by auto


theorem name_node_loss_witness:
  "\<exists>ms. timer_run (\<lambda>k. W3) 0 0 [] nodes3 = Ok (ms, Some ''b'') \<and> map ip ms = map ip nodes3"
proof -
  define ms where "ms = [probed W3 (nodes3 ! 0), probed W3 (nodes3 ! 1), nodes3 ! 2]"
  have r: "timer_run (\<lambda>k. W3) 0 0 [] nodes3 = Ok (ms, Some ''b'')" 
    by (simp add: ms_def nodes3_def scan3 answers3 Node_to_string_def)
  with name_node_loss [OF r] show ?thesis by blast
qed

theorem old_timers_survive_witness:
  "\<exists>sv2 sv3 calls. dn_on_apply tiny_json F3 (Some (''c'', 8002)) None sv2 [Nodes_value tiny_json nodes3] = Ok (sv3, calls) \<and>
     live_timers (sv_dn sv2) = [0, 1] \<and> live_timers (sv_dn sv3) = [0] \<and> nn_timer (sv_dn sv3) = None"
proof -
  let ?go = "\<lambda>l sv sv' c. dn_on_apply tiny_json F3 l None sv [Nodes_value tiny_json nodes3] = Ok (sv', c)"
  obtain sv1 c1 where s1: "?go None (new_Server F3 ''a'' nodes3) sv1 c1" "role_ok sv1" "dn_my_ip (sv_dn sv1) = ''a''"
    using apply3 [OF new_Server_simps(1,2)] by blast
  obtain sv2 c2 where s2: "?go None sv1 sv2 c2" "role_ok sv2" "dn_my_ip (sv_dn sv2) = ''a''"
    using apply3 [OF s1(2,3)] by blast
  obtain sv3 c3 where s3: "?go (Some (''c'', 8002)) sv2 sv3 c3"
    using apply3 [OF s2(2,3)] by blast
  have "''c'' \<noteq> dn_my_ip (sv_dn (new_Server F3 ''a'' nodes3))" by (simp add: new_Server_simps)
  from old_timers_survive [OF s1(1) s2(1) s3 this new_Server_simps(5,4)] s3 show ?thesis by blast
qed

end
