(* ===== verification/Path_Locks.thy ===== *)
theory Path_Locks
  imports Prelude
begin

text \<open>
  Locks by path: \<^verbatim>\<open>src/common/pathlocks.cpp\<close>. Every key has a \<^verbatim>\<open>std::shared_mutex\<close>, made at the first use of the
  key, and a flag that remembers the mode of that first use.

  A mutex is free, held by readers or held by one writer. A lock operation says whether the lock was taken (if not, the
  thread waits and tries again); releasing a mutex in a mode in which it is not held is undefined. The relation \<open>lock_step\<close>
  has the threads and what they hold beside the table.
\<close>

section \<open>std::shared_mutex\<close>

text \<open>\<open>Shared n\<close>: there are \<open>n + 1\<close> readers.\<close>

datatype shared_mutex = Free | Shared nat | Exclusive

fun lock_shared :: "shared_mutex \<Rightarrow> shared_mutex option" where
  "lock_shared Free = Some (Shared 0)"
| "lock_shared (Shared n) = Some (Shared (Suc n))"
| "lock_shared Exclusive = None"

fun lock_exclusive :: "shared_mutex \<Rightarrow> shared_mutex option" where
  "lock_exclusive Free = Some Exclusive"
| "lock_exclusive _ = None"

fun unlock_shared :: "shared_mutex \<Rightarrow> shared_mutex outcome" where
  "unlock_shared (Shared 0) = Ok Free"
| "unlock_shared (Shared (Suc n)) = Ok (Shared n)"
| "unlock_shared _ = Abort ''unlock_shared of a mutex that is not shared''"

fun unlock_exclusive :: "shared_mutex \<Rightarrow> shared_mutex outcome" where
  "unlock_exclusive Exclusive = Ok Free"
| "unlock_exclusive _ = Abort ''unlock of a mutex that is not held''"

section \<open>pathlocks.cpp\<close>

record lock_entry =
  for_write :: bool
  mutex :: shared_mutex

type_synonym PathLocks = "string \<Rightarrow> lock_entry option"

definition lock_entry_of :: "bool \<Rightarrow> string \<Rightarrow> PathLocks \<Rightarrow> lock_entry" where
  "lock_entry_of w key locks = (case locks key of None \<Rightarrow> \<lparr>for_write = w, mutex = Free\<rparr> | Some e \<Rightarrow> e)"

definition PathLocks_read_lock :: "string \<Rightarrow> PathLocks \<Rightarrow> bool \<times> PathLocks" where
  "PathLocks_read_lock key locks =
     (let e = lock_entry_of False key locks
      in case lock_shared (mutex e) of
           None \<Rightarrow> (False, locks(key \<mapsto> e))
         | Some m \<Rightarrow> (True, locks(key \<mapsto> e\<lparr>mutex := m\<rparr>)))"

definition PathLocks_write_lock :: "string \<Rightarrow> PathLocks \<Rightarrow> bool \<times> PathLocks" where
  "PathLocks_write_lock key locks =
     (let e = lock_entry_of True key locks
      in case lock_exclusive (mutex e) of
           None \<Rightarrow> (False, locks(key \<mapsto> e))
         | Some m \<Rightarrow> (True, locks(key \<mapsto> e\<lparr>mutex := m\<rparr>)))"

definition PathLocks_unlock :: "string \<Rightarrow> PathLocks \<Rightarrow> PathLocks outcome" where
  "PathLocks_unlock key locks =
     (case locks key of
        None \<Rightarrow> Ok locks
      | Some e \<Rightarrow>
          bindO (if for_write e then unlock_exclusive (mutex e) else unlock_shared (mutex e))
            (\<lambda>m. Ok (locks(key \<mapsto> e\<lparr>mutex := m\<rparr>))))"

section \<open>Threads\<close>

text \<open>A held lock: the thread, the key, and whether it was taken for writing.\<close>

type_synonym held = "nat \<times> string \<times> bool"

inductive lock_step :: "PathLocks \<times> held list \<Rightarrow> PathLocks \<times> held list \<Rightarrow> bool" where
  taken_read: "PathLocks_read_lock key locks = (True, locks') \<Longrightarrow> lock_step (locks, hs) (locks', (t, key, False) # hs)"
| taken_write: "PathLocks_write_lock key locks = (True, locks') \<Longrightarrow> lock_step (locks, hs) (locks', (t, key, True) # hs)"
| waits_read: "PathLocks_read_lock key locks = (False, locks') \<Longrightarrow> lock_step (locks, hs) (locks', hs)"
| waits_write: "PathLocks_write_lock key locks = (False, locks') \<Longrightarrow> lock_step (locks, hs) (locks', hs)"
| released: "(t, key, w) \<in> set hs \<Longrightarrow> PathLocks_unlock key locks = Ok locks' \<Longrightarrow>
    lock_step (locks, hs) (locks', remove1 (t, key, w) hs)"

inductive_cases lock_stepE: "lock_step s s'"

definition holders :: "string \<Rightarrow> held list \<Rightarrow> bool list" where
  "holders key hs = map (\<lambda>(t, k, w). w) (filter (\<lambda>(t, k, w). k = key) hs)"

text \<open>The state a mutex must be in: no writer beside anybody else.\<close>

fun mutex_for :: "shared_mutex \<Rightarrow> bool list \<Rightarrow> bool" where
  "mutex_for Free ws = (ws = [])"
| "mutex_for (Shared n) ws = (length ws = Suc n \<and> True \<notin> set ws)"
| "mutex_for Exclusive ws = (ws = [True])"

definition locks_ok :: "PathLocks \<times> held list \<Rightarrow> bool" where
  "locks_ok s \<longleftrightarrow> (\<forall>key. mutex_for (case fst s key of None \<Rightarrow> Free | Some e \<Rightarrow> mutex e) (holders key (snd s)))"

lemma holders_Cons [simp]: "holders key ((t, k, w) # hs) = (if k = key then w # holders key hs else holders key hs)"
  by (simp add: holders_def)

lemma holders_remove1_other: "k \<noteq> key \<Longrightarrow> holders key (remove1 (t, k, w) hs) = holders key hs"
  by (induction hs) (auto simp: holders_def)

lemma holders_remove1: "(t, key, w) \<in> set hs \<Longrightarrow> \<exists>us vs. holders key hs = us @ w # vs \<and> holders key (remove1 (t, key, w) hs) = us @ vs"
proof (induction hs)
  case (Cons h hs)
  obtain t' k' w' where h: "h = (t', k', w')" by (cases h)
  show ?case
  proof (cases "h = (t, key, w)")
    case True
    then show ?thesis by (intro exI [of _ "[]"] exI [of _ "holders key hs"]) simp
  next
    case False
    with Cons obtain us vs where uv: "holders key hs = us @ w # vs" "holders key (remove1 (t, key, w) hs) = us @ vs" by auto
    have r: "remove1 (t, key, w) (h # hs) = h # remove1 (t, key, w) hs" using False by simp
    show ?thesis unfolding r
      by (rule exI [of _ "if k' = key then w' # us else us"], rule exI [of _ vs]) (simp add: uv h)
  qed
qed simp

lemma locks_ok_upd:
  assumes "locks_ok (locks, hs)" "mutex_for m ws" "holders key hs' = ws" "\<And>k. k \<noteq> key \<Longrightarrow> holders k hs' = holders k hs"
  shows "locks_ok (locks(key \<mapsto> e\<lparr>mutex := m\<rparr>), hs')"
  using assms by (auto simp: locks_ok_def)

lemma locks_okD: "locks_ok (locks, hs) \<Longrightarrow> mutex_for (mutex (lock_entry_of w key locks)) (holders key hs)"
  by (auto simp: locks_ok_def lock_entry_of_def split: option.splits dest: spec [of _ key])

lemma mutex_steps:
  "mutex_for m ws \<Longrightarrow> lock_shared m = Some m' \<Longrightarrow> mutex_for m' (False # ws)"
  "mutex_for m ws \<Longrightarrow> lock_exclusive m = Some m' \<Longrightarrow> mutex_for m' (True # ws)"
  by (cases m; auto)+

text \<open>A release goes through exactly if its mode is that of the holder.\<close>

lemma mutex_release:
  assumes "mutex_for m (us @ w # vs)"
  shows "if w then unlock_exclusive m = Ok Free \<and> us @ vs = [] \<and> (\<forall>m'. unlock_shared m \<noteq> Ok m')
    else (\<exists>m'. unlock_shared m = Ok m' \<and> mutex_for m' (us @ vs)) \<and> (\<forall>m'. unlock_exclusive m \<noteq> Ok m')"
proof (cases m)
  case (Shared n)
  with assms show ?thesis by (cases n) auto
qed (use assms in \<open>auto simp: append_eq_Cons_conv\<close>)

lemma lock_step_ok:
  assumes "lock_step s s'" "locks_ok s"
  shows "locks_ok s'"
  using assms
proof (induction rule: lock_step.induct)
  case (taken_read key locks locks' hs t)
  let ?e = "lock_entry_of False key locks"
  obtain m where m: "lock_shared (mutex ?e) = Some m" "locks' = locks(key \<mapsto> ?e\<lparr>mutex := m\<rparr>)"
    using taken_read.hyps by (auto simp: PathLocks_read_lock_def Let_def split: option.splits)
  show ?case unfolding m(2)
    by (rule locks_ok_upd [OF taken_read.prems mutex_steps(1) [OF locks_okD [OF taken_read.prems] m(1)]]) simp_all
next
  case (taken_write key locks locks' hs t)
  let ?e = "lock_entry_of True key locks"
  obtain m where m: "lock_exclusive (mutex ?e) = Some m" "locks' = locks(key \<mapsto> ?e\<lparr>mutex := m\<rparr>)"
    using taken_write.hyps by (auto simp: PathLocks_write_lock_def Let_def split: option.splits)
  show ?case unfolding m(2)
    by (rule locks_ok_upd [OF taken_write.prems mutex_steps(2) [OF locks_okD [OF taken_write.prems] m(1)]]) simp_all
next
  case (waits_read key locks locks' hs)
  then have "locks' = locks(key \<mapsto> lock_entry_of False key locks)"
    by (auto simp: PathLocks_read_lock_def Let_def split: option.splits)
  with waits_read.prems locks_okD [OF waits_read.prems] show ?case by (auto simp: locks_ok_def)
next
  case (waits_write key locks locks' hs)
  then have "locks' = locks(key \<mapsto> lock_entry_of True key locks)"
    by (auto simp: PathLocks_write_lock_def Let_def split: option.splits)
  with waits_write.prems locks_okD [OF waits_write.prems] show ?case by (auto simp: locks_ok_def)
next
  case (released t key w hs locks locks')
  obtain us vs where h: "holders key hs = us @ w # vs" "holders key (remove1 (t, key, w) hs) = us @ vs"
    using holders_remove1 [OF released.hyps(1)] by blast
  obtain e where e: "locks key = Some e" "mutex_for (mutex e) (us @ w # vs)"
    using released.prems h(1) by (auto simp: locks_ok_def dest!: spec [of _ key] split: option.splits)
  obtain m where m: "(if for_write e then unlock_exclusive (mutex e) else unlock_shared (mutex e)) = Ok m"
    "locks' = locks(key \<mapsto> e\<lparr>mutex := m\<rparr>)"
    using released.hyps(2) e(1) by (auto simp: PathLocks_unlock_def outcome_simps)
  have "mutex_for m (us @ vs)" using mutex_release [OF e(2)] m(1) by (auto split: if_splits)
  then show ?case unfolding m(2) using h(2)
    by (rule locks_ok_upd [OF released.prems]) (simp add: holders_remove1_other)
qed

lemma locks_reach_ok:
  assumes "lock_step\<^sup>*\<^sup>* (Map.empty, []) s"
  shows "locks_ok s"
  using assms
proof (induction rule: rtranclp_induct)
  case base
  show ?case by (simp add: locks_ok_def holders_def)
next
  case (step s s')
  from step.hyps(2) step.IH show ?case by (rule lock_step_ok)
qed

section \<open>Properties\<close>



end
