(* ===== verification/Sdk_Files.thy ===== *)
theory Sdk_Files
  imports Sdk_Blocks "HOL-Library.AList"
begin

text \<open>
  Random access to files: \<open>read_data\<close>, \<open>write_data\<close>, \<open>update_inode\<close> and \<open>fsync\<close> of \<^verbatim>\<open>src/client/sdk.cpp\<close>.

  For every remote path the client keeps a local directory: a file per block that was read or written, and in the
  sub-directory \<^verbatim>\<open>write\<close> a hard link to each block file that was written. \<open>tmp_dir\<close> is this directory. Hard links share
  their contents with the block file, so the contents are kept by file object; removing a name leaves the object to
  the other name. \<open>io i\<close> says whether the file of block \<open>i\<close> can be opened. The data nodes are those of \<open>Sdk_Blocks\<close>.
\<close>

record tmp_dir =
  td_data :: "nat \<Rightarrow> string"
  td_next :: nat
  td_index :: "(nat \<times> nat) list"
  td_write :: "(nat \<times> nat) list"
  td_has_write :: bool

definition empty_dir :: tmp_dir where
  "empty_dir = \<lparr>td_data = (\<lambda>f. []), td_next = 0, td_index = [], td_write = [], td_has_write = False\<rparr>"

section \<open>Local files\<close>

definition get_tmp_path :: "string \<Rightarrow> (string \<Rightarrow> string) \<Rightarrow> path \<Rightarrow> string" where
  "get_tmp_path data_dir md5 p = data_dir @ ''/fuse/'' @ md5 p"

text \<open>The name of the file of a block; the index is converted to \<^verbatim>\<open>uint32_t\<close>.\<close>

definition index_name :: "int \<Rightarrow> nat" where
  "index_name index = nat (index mod 2 ^ 32)"

definition td_read :: "tmp_dir \<Rightarrow> nat \<Rightarrow> string option" where
  "td_read td i = map_option (td_data td) (map_of (td_index td) i)"

text \<open>Opening a file for output makes it if it is not there.\<close>

definition td_open :: "tmp_dir \<Rightarrow> nat \<Rightarrow> nat \<times> tmp_dir" where
  "td_open td i =
     (case map_of (td_index td) i of
        Some f \<Rightarrow> (f, td)
      | None \<Rightarrow> (td_next td, td\<lparr>td_data := (td_data td)(td_next td := []), td_next := Suc (td_next td),
                              td_index := (i, td_next td) # td_index td\<rparr>))"

text \<open>Without \<^verbatim>\<open>ios::app\<close> the old contents are dropped; with it, everything is written at the end of the file, wherever
  \<^verbatim>\<open>seekp\<close> went before.\<close>

definition td_overwrite :: "tmp_dir \<Rightarrow> nat \<Rightarrow> string \<Rightarrow> tmp_dir" where
  "td_overwrite td i s = (let (f, td') = td_open td i in td'\<lparr>td_data := (td_data td')(f := s)\<rparr>)"

definition td_append :: "tmp_dir \<Rightarrow> nat \<Rightarrow> string \<Rightarrow> tmp_dir" where
  "td_append td i s = (let (f, td') = td_open td i in td'\<lparr>td_data := (td_data td')(f := td_data td' f @ s)\<rparr>)"

definition td_remove :: "tmp_dir \<Rightarrow> nat \<Rightarrow> tmp_dir" where
  "td_remove td i = td\<lparr>td_index := AList.delete i (td_index td)\<rparr>"

definition ln_path_index :: "tmp_dir \<Rightarrow> nat \<Rightarrow> tmp_dir outcome" where
  "ln_path_index td i =
     (case map_of (td_index td) i of
        Some f \<Rightarrow> if td_has_write td then Ok (td\<lparr>td_write := AList.update i f (td_write td)\<rparr>)
                  else Throw (RuntimeError ''filesystem_error'')
      | None \<Rightarrow> Throw (RuntimeError ''filesystem_error''))"

section \<open>Reading\<close>

text \<open>Both arguments of the division are converted to \<^verbatim>\<open>int\<close>.\<close>

definition get_indexs :: "Inode \<Rightarrow> u64 \<Rightarrow> u64 \<Rightarrow> (int \<times> int) outcome" where
  "get_indexs inode offset sz =
     (let bs = Inode_block_size inode
      in if bs = 0 then Abort ''division by zero''
         else Ok (align_index_down (to_int32 (uint offset)) bs, align_index_up (to_int32 (uint (offset + sz))) bs))"

fun read_range ::
  "client \<Rightarrow> StorageType \<Rightarrow> (nat \<Rightarrow> call_env) \<Rightarrow> cluster \<Rightarrow> (nat \<Rightarrow> bool) \<Rightarrow> int \<Rightarrow> nat \<Rightarrow> string list \<Rightarrow> nat \<Rightarrow> nat \<Rightarrow> tmp_dir
     \<Rightarrow> (string outcome \<times> tmp_dir) option" where
  "read_range C st env cl io bs n blks index 0 td = Some (Ok [], td)"
| "read_range C st env cl io bs n [] index (Suc k) td =
     (let z = to_int32 (int (Suc k) * bs)
      in if z < 0 then Some (Throw (RuntimeError ''std::length_error''), td)
         else Some (Ok (replicate (nat z) (CHR 0x00)), td))"
| "read_range C st env cl io bs n (blk # blks) index (Suc k) td =
     (let go = (\<lambda>block n' td'. map_option (\<lambda>(r, td''). (bindO r (\<lambda>rest. Ok (block @ rest)), td''))
                 (read_range C st env cl io bs n' blks (Suc index) k td'))
      in case td_read td index of
           Some (c # cs) \<Rightarrow> go (c # cs) n td
         | _ \<Rightarrow>
             if \<not> io index then Some (Throw (RuntimeError ''openfile error''), td)
             else
               (let td1 = td_overwrite td index []
                in case decode_one_block C st env cl n blk of
                     None \<Rightarrow> None
                   | Some (Throw e) \<Rightarrow> Some (Throw e, td1)
                   | Some (Abort a) \<Rightarrow> Some (Abort a, td1)
                   | Some (Ok block) \<Rightarrow> go block (n + length (decode_one_sub blk)) (td_overwrite td1 index block)))"

definition read_blocks ::
  "client \<Rightarrow> (nat \<Rightarrow> call_env) \<Rightarrow> cluster \<Rightarrow> (nat \<Rightarrow> bool) \<Rightarrow> nat \<Rightarrow> Inode \<Rightarrow> int \<times> int \<Rightarrow> tmp_dir \<Rightarrow> (string outcome \<times> tmp_dir) option" where
  "read_blocks C env cl io n inode indexs td =
     (case storage_type_ptr inode of
        None \<Rightarrow> Some (Abort ''null storage_type_ptr'', td)
      | Some st \<Rightarrow>
          if fst indexs < 0 then Some (Abort ''iterator before the beginning'', td)
          else read_range C st env cl io (Inode_block_size inode) n (drop (nat (fst indexs)) (sub inode))
                 (nat (fst indexs)) (nat (snd indexs - fst indexs)) td)"

definition get_inode_cached :: "Inode option \<Rightarrow> Inode outcome" where
  "get_inode_cached cached =
     (case cached of None \<Rightarrow> Throw (RuntimeError ''cannot find inode in local_inode_cache'') | Some inode \<Rightarrow> Ok inode)"

text \<open>\<^verbatim>\<open>string(s.begin() + from, s.begin() + from + size)\<close>\<close>

definition read_slice :: "Inode \<Rightarrow> u64 \<Rightarrow> u64 \<Rightarrow> int \<Rightarrow> string \<Rightarrow> string outcome" where
  "read_slice inode offset sz first s =
     (let from = uint offset - first * Inode_block_size inode
      in if 0 \<le> from \<and> from + uint sz \<le> int (length s) then Ok (take (unat sz) (drop (nat from) s))
         else Abort ''iterator out of range'')"

definition read_data ::
  "client \<Rightarrow> (nat \<Rightarrow> call_env) \<Rightarrow> cluster \<Rightarrow> (nat \<Rightarrow> bool) \<Rightarrow> Inode option \<Rightarrow> u64 \<Rightarrow> u64 \<Rightarrow> tmp_dir
     \<Rightarrow> (string outcome \<times> tmp_dir) option" where
  "read_data C env cl io cached offset sz td =
     (case get_inode_cached cached of
        Throw e \<Rightarrow> Some (Throw e, td)
      | Abort a \<Rightarrow> Some (Abort a, td)
      | Ok inode \<Rightarrow>
          if filesize inode < offset then Some (Ok [], td)
          else
            (let sz' = (if filesize inode < offset + sz then filesize inode - offset else sz)
             in case get_indexs inode offset sz' of
                  Throw e \<Rightarrow> Some (Throw e, td)
                | Abort a \<Rightarrow> Some (Abort a, td)
                | Ok indexs \<Rightarrow>
                    map_option (\<lambda>(r, td'). (bindO r (read_slice inode offset sz' (fst indexs)), td'))
                      (read_blocks C env cl io 0 inode indexs td)))"

section \<open>Writing\<close>

text \<open>\<open>left\<close> and \<open>right\<close> are the positions in the first and in the last block.\<close>

fun write_blocks ::
  "(nat \<Rightarrow> bool) \<Rightarrow> u64 \<Rightarrow> u64 \<Rightarrow> u64 \<Rightarrow> int \<times> int \<Rightarrow> int list \<Rightarrow> string \<Rightarrow> tmp_dir \<Rightarrow> unit outcome \<times> tmp_dir" where
  "write_blocks io bs l r indexs [] rest td = (Ok (), td)"
| "write_blocks io bs l r indexs (index # others) rest td =
     (let left = (if index = fst indexs then l else 0);
          right = (if index = snd indexs - 1 then r else bs);
          localSize = unat (right - left);
          i = index_name index
      in if \<not> io i then (Throw (RuntimeError ''failed to write data''), td)
         else if localSize > length rest then (Abort ''iterator out of range'', td_append td i [])
         else
           (let td1 = td_append td i (take localSize rest)
            in case ln_path_index td1 i of
                 Ok td2 \<Rightarrow> write_blocks io bs l r indexs others (drop localSize rest) td2
               | Throw e \<Rightarrow> (Throw e, td1)
               | Abort a \<Rightarrow> (Abort a, td1)))"

text \<open>A block that will be written in part is read first, for its contents in the local file.\<close>

definition preread ::
  "client \<Rightarrow> (nat \<Rightarrow> call_env) \<Rightarrow> cluster \<Rightarrow> (nat \<Rightarrow> bool) \<Rightarrow> Inode \<Rightarrow> bool \<Rightarrow> int \<Rightarrow> unit outcome \<times> tmp_dir \<Rightarrow> (unit outcome \<times> tmp_dir) option" where
  "preread C env cl io inode needed index st =
     (case st of
        (Ok _, td) \<Rightarrow>
          if needed then map_option (\<lambda>(r, td'). (bindO r (\<lambda>_. Ok ()), td')) (read_blocks C env cl io 0 inode (index, index + 1) td)
          else Some (Ok (), td)
      | _ \<Rightarrow> Some st)"

definition write_data ::
  "client \<Rightarrow> (nat \<Rightarrow> call_env) \<Rightarrow> cluster \<Rightarrow> (nat \<Rightarrow> bool) \<Rightarrow> Inode option \<Rightarrow> u64 \<Rightarrow> string \<Rightarrow> tmp_dir
     \<Rightarrow> (unit outcome \<times> tmp_dir) option" where
  "write_data C env cl io cached offset s td =
     (case get_inode_cached cached of
        Throw e \<Rightarrow> Some (Throw e, td)
      | Abort a \<Rightarrow> Some (Abort a, td)
      | Ok inode \<Rightarrow>
          (let sz = (of_nat (length s) :: u64); bs = (word_of_int (Inode_block_size inode) :: u64)
           in case get_indexs inode offset sz of
                Throw e \<Rightarrow> Some (Throw e, td)
              | Abort a \<Rightarrow> Some (Abort a, td)
              | Ok (a, b) \<Rightarrow>
                  (case preread C env cl io inode (offset < filesize inode \<and> offset mod bs \<noteq> 0) a (Ok (), td) of
                     None \<Rightarrow> None
                   | Some st1 \<Rightarrow>
                       (case preread C env cl io inode
                            (offset + sz < filesize inode \<and> a \<noteq> b - 1 \<and> (offset + sz) mod bs \<noteq> 0) (b - 1) st1 of
                          None \<Rightarrow> None
                        | Some (Ok _, td2) \<Rightarrow>
                            Some (write_blocks io bs (offset mod bs) ((offset + sz) mod bs) (a, b) [a..b - 1] s td2)
                        | Some st2 \<Rightarrow> Some st2))))"

section \<open>Keeping the blocks up to date\<close>

text \<open>The local files of blocks that are no longer those of the name node are removed.\<close>

definition stale :: "string list \<Rightarrow> string list \<Rightarrow> nat list" where
  "stale local remote =
     filter (\<lambda>i. local ! i \<noteq> remote ! i) [0..<min (length local) (length remote)] @ [length remote..<length local]"

definition update_inode :: "Inode option \<Rightarrow> Inode \<Rightarrow> tmp_dir \<Rightarrow> Inode option \<times> tmp_dir" where
  "update_inode cached remote td =
     (let local = (case cached of None \<Rightarrow> [] | Some inode \<Rightarrow> sub inode)
      in (Some remote, foldl td_remove td (stale local (sub remote))))"

section \<open>Sending written blocks\<close>

text \<open>One block after the other is encoded and put on the data nodes; its text replaces that of the old block. The result
  has the size of the last block.\<close>

record fsync_state =
  fs_subs :: "string list"
  fs_last :: nat
  fs_dir :: tmp_dir
  fs_cluster :: cluster
  fs_calls :: nat

fun fsync_loop ::
  "nat \<Rightarrow> client \<Rightarrow> StorageType \<Rightarrow> (nat \<Rightarrow> call_env) \<Rightarrow> string list \<Rightarrow> nat list \<Rightarrow> fsync_state \<Rightarrow> (unit outcome \<times> fsync_state) option" where
  "fsync_loop fuel C st env nodes [] s = Some (Ok (), s)"
| "fsync_loop fuel C st env nodes (i # is) s =
     (case map_of (td_write (fs_dir s)) i of
        None \<Rightarrow> Some (Throw (RuntimeError ''filesystem_error''), s)
      | Some f \<Rightarrow>
          (let block = td_data (fs_dir s) f
           in case encode_one_block fuel C st env nodes (fs_calls s) (fs_cluster s) block of
                None \<Rightarrow> None
              | Some (r, cl, n) \<Rightarrow>
                  (let s1 = s\<lparr>fs_cluster := cl, fs_calls := n, fs_last := length block\<rparr>
                   in case r of
                        Throw e \<Rightarrow> Some (Throw e, s1)
                      | Abort a \<Rightarrow> Some (Abort a, s1)
                      | Ok one \<Rightarrow>
                          fsync_loop fuel C st env nodes is
                            (s1\<lparr>fs_subs := (fs_subs s)[i := one],
                                fs_dir := (fs_dir s)\<lparr>td_write := AList.delete i (td_write (fs_dir s))\<rparr>\<rparr>))))"

text \<open>The size is kept in an \<^verbatim>\<open>int\<close>. The result is the request to the name node, if there is anything to send.\<close>

definition fsync ::
  "nat \<Rightarrow> client \<Rightarrow> (nat \<Rightarrow> call_env) \<Rightarrow> string list \<Rightarrow> cluster \<Rightarrow> Inode option \<Rightarrow> tmp_dir
     \<Rightarrow> ((string list \<times> u64) option outcome \<times> tmp_dir \<times> cluster) option" where
  "fsync fuel C env nodes cl cached td =
     (let res = sort (map fst (td_write td))
      in if \<not> td_has_write td then Some (Ok None, td, cl)
         else if list_ex (\<lambda>i. int i > INT_MAX) res then Some (Throw (OutOfRange ''stoi''), td, cl)
         else if res = [] then Some (Ok None, td, cl)
         else
           case get_inode_cached cached of
             Throw e \<Rightarrow> Some (Throw e, td, cl)
           | Abort a \<Rightarrow> Some (Abort a, td, cl)
           | Ok inode \<Rightarrow>
               (case storage_type_ptr inode of
                  None \<Rightarrow> Some (Abort ''null storage_type_ptr'', td, cl)
                | Some st \<Rightarrow>
                    (let back = last res;
                         subs = sub inode @ replicate (Suc back - length (sub inode)) []
                     in map_option (\<lambda>(r, s).
                          (bindO r (\<lambda>_. Ok (Some (fs_subs s,
                             word_of_int (to_int32 (uint (max (filesize inode)
                               (of_nat back * word_of_int (Inode_block_size inode) + of_nat (fs_last s) :: u64))))))),
                           fs_dir s, fs_cluster s))
                        (fsync_loop fuel C st env nodes res
                           \<lparr>fs_subs = subs, fs_last = 0, fs_dir = td, fs_cluster = cl, fs_calls = 0\<rparr>))))"

section \<open>Lemmas on local files\<close>

definition td_wf :: "tmp_dir \<Rightarrow> bool" where
  "td_wf td \<longleftrightarrow>
     (\<forall>i f. map_of (td_index td) i = Some f \<longrightarrow> f < td_next td) \<and>
     (\<forall>i j f. map_of (td_index td) i = Some f \<and> map_of (td_index td) j = Some f \<longrightarrow> i = j)"

lemma td_wf_empty [simp]: "td_wf empty_dir"
  by (simp add: td_wf_def empty_dir_def)

lemma td_open_props:
  assumes "td_wf td" "td_open td i = (f, td')"
  shows "td_wf td'" "map_of (td_index td') = (map_of (td_index td))(i \<mapsto> f)" "f < td_next td'"
    "td_data td' f = (case td_read td i of None \<Rightarrow> [] | Some s \<Rightarrow> s)" "\<And>j. j \<noteq> i \<Longrightarrow> td_read td' j = td_read td j"
    "\<And>j. j \<noteq> i \<Longrightarrow> map_of (td_index td') j \<noteq> Some f"
    "td_write td' = td_write td" "td_has_write td' = td_has_write td"
proof -
  have wf: "\<And>i f. map_of (td_index td) i = Some f \<Longrightarrow> f < td_next td"
    "\<And>i j f. map_of (td_index td) i = Some f \<Longrightarrow> map_of (td_index td) j = Some f \<Longrightarrow> i = j"
    using assms(1) by (auto simp: td_wf_def)
  have fresh: "map_of (td_index td) j \<noteq> Some (td_next td)" for j using wf(1) [of j "td_next td"] by auto
  show "td_wf td'" "map_of (td_index td') = (map_of (td_index td))(i \<mapsto> f)" "f < td_next td'"
    "td_data td' f = (case td_read td i of None \<Rightarrow> [] | Some s \<Rightarrow> s)"
    "td_write td' = td_write td" "td_has_write td' = td_has_write td"
    using assms(2) wf fresh by (auto simp: td_open_def td_wf_def td_read_def less_Suc_eq fun_eq_iff split: option.splits if_splits)
  show "td_read td' j = td_read td j" if "j \<noteq> i" for j
    using assms(2) fresh [of j] that
    by (cases "map_of (td_index td) j") (auto simp: td_open_def td_read_def split: option.splits)
  show "map_of (td_index td') j \<noteq> Some f" if "j \<noteq> i" for j
    using assms(2) wf(1) [of j] wf(2) [of i f j] that by (auto simp: td_open_def split: option.splits)
qed

text \<open>Writing to one file leaves the others alone.\<close>

lemma td_data_upd_read:
  assumes "td_wf td" "td_open td i = (f, td')"
  shows "td_read (td'\<lparr>td_data := (td_data td')(f := s)\<rparr>) j = (if j = i then Some s else td_read td j)"
    "td_wf (td'\<lparr>td_data := (td_data td')(f := s)\<rparr>)"
proof -
  note o = td_open_props [OF assms]
  have other: "td_read (td'\<lparr>td_data := (td_data td')(f := s)\<rparr>) j = td_read td j" if "j \<noteq> i"
    using o(5,6) [OF that] by (cases "map_of (td_index td') j") (auto simp: td_read_def)
  show "td_read (td'\<lparr>td_data := (td_data td')(f := s)\<rparr>) j = (if j = i then Some s else td_read td j)"
    using other o(2) by (simp add: td_read_def)
  show "td_wf (td'\<lparr>td_data := (td_data td')(f := s)\<rparr>)" using o(1) by (simp add: td_wf_def)
qed

lemma td_overwrite_props:
  assumes "td_wf td"
  shows "td_read (td_overwrite td i s) j = (if j = i then Some s else td_read td j)" "td_wf (td_overwrite td i s)"
  using td_data_upd_read [OF assms, of i] by (auto simp: td_overwrite_def split: prod.splits)

lemma td_append_props:
  assumes "td_wf td"
  shows "td_read (td_append td i s) j =
      (if j = i then Some ((case td_read td i of None \<Rightarrow> [] | Some t \<Rightarrow> t) @ s) else td_read td j)"
    "td_wf (td_append td i s)" "td_write (td_append td i s) = td_write td" "td_has_write (td_append td i s) = td_has_write td"
  using td_data_upd_read [OF assms, of i] td_open_props(4,7,8) [OF assms, of i]
  by (auto simp: td_append_def split: prod.splits)

section \<open>Reading gives the blocks\<close>

definition cache_ok :: "tmp_dir \<Rightarrow> string list \<Rightarrow> bool" where
  "cache_ok td blocks \<longleftrightarrow> td_wf td \<and> (\<forall>i s. td_read td i = Some s \<longrightarrow> s = [] \<or> i < length blocks \<and> s = blocks ! i)"

definition block_readable :: "client \<Rightarrow> StorageType \<Rightarrow> (nat \<Rightarrow> call_env) \<Rightarrow> cluster \<Rightarrow> string \<Rightarrow> string \<Rightarrow> bool" where
  "block_readable C st env cl blk block \<longleftrightarrow> (\<forall>n. decode_one_block C st env cl n blk = Some (Ok block))"

lemma cache_ok_fill:
  assumes "cache_ok td blocks" "i < length blocks"
  shows "cache_ok (td_overwrite (td_overwrite td i []) i (blocks ! i)) blocks"
proof -
  have wf: "td_wf td" using assms(1) by (simp add: cache_ok_def)
  note o = td_overwrite_props [OF wf, of i "[]"]
  show ?thesis
    using assms td_overwrite_props [OF o(2), of i "blocks ! i"] o(1) by (auto simp: cache_ok_def)
qed

lemma read_range_blocks:
  assumes "cache_ok td blocks" "list_all2 (block_readable C st env cl) subs blocks" "\<forall>i. io i" "0 \<le> bs" "int k * bs < 2 ^ 31"
  shows "\<exists>td'. read_range C st env cl io bs n (drop index subs) index k td =
      Some (Ok (concat (take k (drop index blocks)) @ replicate ((k - (length blocks - index)) * nat bs) (CHR 0x00)), td') \<and>
    cache_ok td' blocks"
  using assms
proof (induction k arbitrary: n index td)
  case (Suc k)
  have len: "length subs = length blocks" using Suc.prems(2) by (rule list_all2_lengthD)
  have kbs: "int k * bs < 2 ^ 31" using Suc.prems(4,5) by (simp add: distrib_right)
  show ?case
  proof (cases "index < length blocks")
    case True
    let ?blk = "subs ! index" and ?block = "blocks ! index"
    have d: "drop index subs = ?blk # drop (Suc index) subs" "drop index blocks = ?block # drop (Suc index) blocks"
      using True len by (simp_all add: Cons_nth_drop_Suc)
    have dec: "decode_one_block C st env cl n ?blk = Some (Ok ?block)"
      using Suc.prems(2) True len by (auto simp: list_all2_conv_all_nth block_readable_def)
    have z: "Suc k - (length blocks - index) = k - (length blocks - Suc index)" using True by simp
    show ?thesis
    proof (cases "\<exists>c cs. td_read td index = Some (c # cs)")
      case True
      then obtain c cs where c: "td_read td index = Some (c # cs)" by blast
      then have "?block = c # cs" using Suc.prems(1) unfolding cache_ok_def by fastforce
      moreover obtain td' where "read_range C st env cl io bs n (drop (Suc index) subs) (Suc index) k td =
          Some (Ok (concat (take k (drop (Suc index) blocks)) @ replicate ((k - (length blocks - Suc index)) * nat bs) (CHR 0x00)), td')"
        "cache_ok td' blocks"
        using Suc.IH [OF Suc.prems(1-4) kbs] by blast
      ultimately show ?thesis unfolding d z using c by simp
    next
      case False
      let ?td = "td_overwrite (td_overwrite td index []) index ?block"
      obtain td' where "read_range C st env cl io bs (n + length (decode_one_sub ?blk)) (drop (Suc index) subs) (Suc index) k ?td =
          Some (Ok (concat (take k (drop (Suc index) blocks)) @ replicate ((k - (length blocks - Suc index)) * nat bs) (CHR 0x00)), td')"
        "cache_ok td' blocks"
        using Suc.IH [OF cache_ok_fill [OF Suc.prems(1) True] Suc.prems(2-4) kbs] by blast
      moreover have "td_read td index = None \<or> td_read td index = Some []"
        using False by (metis neq_Nil_conv not_Some_eq)
      moreover have "io index" using Suc.prems(3) by blast
      ultimately show ?thesis unfolding d z using dec by (elim disjE) (simp_all add: Let_def)
    qed
  next
    case False
    then have d: "drop index subs = []" "drop index blocks = []" using len by simp_all
    have pos: "0 \<le> int (Suc k) * bs" using Suc.prems(4) by simp
    then have "in_int (int (Suc k) * bs)"
      using Suc.prems(5) unfolding in_int_def INT_MIN_def INT_MAX_def by linarith
    then have "to_int32 (int (Suc k) * bs) = int (Suc k) * bs" by (rule to_int32_id)
    moreover have "nat (int (Suc k) * bs) = Suc k * nat bs"
      using Suc.prems(4) by (metis nat_int nat_mult_distrib of_nat_0_le_iff)
    moreover note pos
    ultimately show ?thesis using False Suc.prems(1) unfolding d by (simp add: Let_def)
  qed
qed simp

text \<open>How the contents of a file lie in its blocks: all but the last are full, and what follows the contents does not matter.\<close>

definition file_blocks :: "nat \<Rightarrow> string list \<Rightarrow> string \<Rightarrow> bool" where
  "file_blocks bs blocks content \<longleftrightarrow> 0 < bs \<and> (\<forall>i. Suc i < length blocks \<longrightarrow> length (blocks ! i) = bs) \<and>
     take (length content) (concat blocks) = content \<and> length content \<le> length blocks * bs"

lemma full_prefix:
  assumes "a \<le> length blocks" "\<forall>i<a. length (blocks ! i) = bs"
  shows "length (concat (take a blocks)) = a * bs"
  using assms
proof (induction a)
  case (Suc a)
  then show ?case by (simp add: take_Suc_conv_app_nth)
qed simp

lemma slice_blocks:
  assumes "file_blocks bs blocks content" "from + m \<le> length content"
  defines "a \<equiv> from div bs" and "b \<equiv> Suc ((from + m) div bs)"
  defines "s \<equiv> concat (take (b - a) (drop a blocks)) @ replicate ((b - a - (length blocks - a)) * bs) (CHR 0x00)"
  shows "take m (drop (from - a * bs) s) = take m (drop from content) \<and> from - a * bs + m \<le> length s"
proof -
  have bs: "0 < bs" and full: "\<And>i. Suc i < length blocks \<Longrightarrow> length (blocks ! i) = bs"
    and cont: "take (length content) (concat blocks) = content" and le: "length content \<le> length blocks * bs"
    using assms(1) by (auto simp: file_blocks_def)
  have al: "a * bs \<le> from" "from < Suc a * bs" using bs by (simp_all add: a_def mult.commute dividend_less_times_div)
  have bl: "from + m < b * bs" using bs by (simp add: b_def mult.commute dividend_less_times_div)
  have ab: "a < b" unfolding a_def b_def by (simp add: div_le_mono le_imp_less_Suc)
  have len: "length content \<le> length (concat blocks)" using arg_cong [OF cont, of length] by simp
  show "take m (drop (from - a * bs) s) = take m (drop from content) \<and> from - a * bs + m \<le> length s"
  proof (cases "a < length blocks")
    case True
    then have pre: "length (concat (take a blocks)) = a * bs" using full by (intro full_prefix) auto
    have split: "concat blocks = concat (take a blocks) @ concat (take (b - a) (drop a blocks)) @ concat (drop b blocks)"
      using ab by (metis append_take_drop_id concat_append drop_drop le_add_diff_inverse2 less_imp_le)
    have mid: "from - a * bs + m \<le> length (concat (take (b - a) (drop a blocks)))"
    proof (cases "b < length blocks")
      case True
      then have "length (concat (take b blocks)) = b * bs" using full by (intro full_prefix) auto
      moreover have "concat (take b blocks) = concat (take a blocks) @ concat (take (b - a) (drop a blocks))"
        using ab by (metis concat_append le_add_diff_inverse less_imp_le take_add)
      ultimately have "a * bs + length (concat (take (b - a) (drop a blocks))) = b * bs" using pre by simp
      with bl al show ?thesis by linarith
    next
      case False
      then have "concat (drop b blocks) = []" by simp
      with split pre have "length (concat blocks) = a * bs + length (concat (take (b - a) (drop a blocks)))" by simp
      with len assms(2) al show ?thesis by linarith
    qed
    have "drop from content = take (length content - from) (drop from (concat blocks))" using cont by (metis drop_take)
    then have "take m (drop from content) = take m (drop from (concat blocks))" using assms(2) by (simp only: take_take) (simp add: min_def)
    also have "drop from (concat blocks) = drop (from - a * bs) (concat (take (b - a) (drop a blocks)) @ concat (drop b blocks))"
      unfolding split using pre al by simp
    also have "take m \<dots> = take m (drop (from - a * bs) (concat (take (b - a) (drop a blocks))))" using mid by simp
    finally have "take m (drop from content) = take m (drop (from - a * bs) (concat (take (b - a) (drop a blocks))))" .
    with mid show ?thesis unfolding s_def by simp
  next
    case False
    then have "length blocks * bs \<le> a * bs" by simp
    with le al(1) assms(2) have "from = a * bs" "m = 0" by linarith+
    then show ?thesis by simp
  qed
qed

lemma in_int_nat: "n < 2 ^ 31 \<Longrightarrow> in_int (int n)"
  by (simp add: in_int_def INT_MIN_def INT_MAX_def)

lemma get_indexs_nat:
  assumes "0 < Inode_block_size inode" "unat offset + unat sz < 2 ^ 31"
  shows "get_indexs inode offset sz =
    Ok (int (unat offset div nat (Inode_block_size inode)), int (Suc ((unat offset + unat sz) div nat (Inode_block_size inode))))"
proof -
  let ?bs = "Inode_block_size inode"
  have "unat (offset + sz) = unat offset + unat sz" using assms(2) by (simp add: unat_word_ariths)
  then have sum: "uint (offset + sz) = int (unat offset + unat sz)" by (simp only: uint_nat)
  have t: "to_int32 (uint offset) = int (unat offset)" "to_int32 (int (unat offset + unat sz)) = int (unat offset + unat sz)"
    unfolding uint_nat using assms(2) by (intro to_int32_id in_int_nat; linarith)+
  have d: "c_div (int n) ?bs = int (n div nat ?bs)" for n
    using assms(1) by (simp add: c_div_def sgn_if zdiv_int)
  show ?thesis
    unfolding get_indexs_def Let_def sum align_index_down_def align_index_up_def t d using assms(1) by simp
qed

text \<open>What the client relies on when it reads: the blocks the name node lists can be read from the data nodes, and the
  local files are copies of them.\<close>

definition file_ready :: "client \<Rightarrow> (nat \<Rightarrow> call_env) \<Rightarrow> cluster \<Rightarrow> Inode \<Rightarrow> string list \<Rightarrow> string \<Rightarrow> tmp_dir \<Rightarrow> bool" where
  "file_ready C env cl inode blocks content td \<longleftrightarrow>
     (\<exists>st. storage_type_ptr inode = Some st \<and> list_all2 (block_readable C st env cl) (sub inode) blocks) \<and>
     0 < Inode_block_size inode \<and> file_blocks (nat (Inode_block_size inode)) blocks content \<and>
     unat (filesize inode) = length content \<and> cache_ok td blocks"

lemma read_data_cached:
  assumes "\<not> filesize inode < offset"
  shows "read_data C env cl io (Some inode) offset sz td =
    (case get_indexs inode offset (if filesize inode < offset + sz then filesize inode - offset else sz) of
       Throw e \<Rightarrow> Some (Throw e, td)
     | Abort a \<Rightarrow> Some (Abort a, td)
     | Ok indexs \<Rightarrow>
         map_option (\<lambda>(r, td'). (bindO r (read_slice inode offset
             (if filesize inode < offset + sz then filesize inode - offset else sz) (fst indexs)), td'))
           (read_blocks C env cl io 0 inode indexs td))"
  unfolding read_data_def get_inode_cached_def Let_def by (simp only: option.case outcome.case if_not_P [OF assms])

lemma read_data_ready:
  assumes "file_ready C env cl inode blocks content td" "\<forall>i. io i" "int (length content) + 2 * Inode_block_size inode < 2 ^ 31"
    "unat offset + unat sz < 2 ^ 64"
  shows "\<exists>td'. read_data C env cl io (Some inode) offset sz td = Some (Ok (take (unat sz) (drop (unat offset) content)), td') \<and>
    file_ready C env cl inode blocks content td'"
proof -
  let ?bs = "nat (Inode_block_size inode)"
  obtain st where st: "storage_type_ptr inode = Some st" "list_all2 (block_readable C st env cl) (sub inode) blocks"
    using assms(1) by (auto simp: file_ready_def)
  have ready: "0 < Inode_block_size inode" "file_blocks ?bs blocks content" "unat (filesize inode) = length content"
    "cache_ok td blocks" using assms(1) by (auto simp: file_ready_def)
  have sum: "unat (offset + sz) = unat offset + unat sz" using assms(4) by (simp add: unat_word_ariths)
  show ?thesis
  proof (cases "filesize inode < offset")
    case True
    then have "length content < unat offset" using ready(3) by (simp add: word_less_nat_alt)
    with True assms(1) show ?thesis by (simp add: read_data_def get_inode_cached_def)
  next
    case False
    define sz' where "sz' = (if filesize inode < offset + sz then filesize inode - offset else sz)"
    have off: "unat offset \<le> length content" using False ready(3) by (simp add: word_less_nat_alt)
    have sz': "unat sz' = min (unat sz) (length content - unat offset)"
      using False sum off ready(3) by (auto simp: sz'_def word_less_nat_alt unat_sub word_le_nat_alt min_def)
    then have le: "unat offset + unat sz' \<le> length content" using off by simp
    let ?a = "unat offset div ?bs" and ?b = "Suc ((unat offset + unat sz') div ?bs)"
    have "int (length content) < 2 ^ 31" using assms(3) ready(1) by linarith
    then have len: "length content < 2 ^ 31" by simp
    have ix: "get_indexs inode offset sz' = Ok (int ?a, int ?b)"
      using le len ready(1) by (intro get_indexs_nat) linarith+
    have "(?b - ?a) * ?bs \<le> ?b * ?bs" by (rule mult_le_mono1 [OF diff_le_self])
    also have "\<dots> = (unat offset + unat sz') div ?bs * ?bs + ?bs" by simp
    also have "\<dots> \<le> length content + ?bs" using le div_times_less_eq_dividend [of "unat offset + unat sz'" ?bs] by linarith
    finally have "int ((?b - ?a) * ?bs) \<le> int (length content + ?bs)" by (rule of_nat_mono)
    then have k: "int (?b - ?a) * Inode_block_size inode < 2 ^ 31" using assms(3) ready(1) by simp
    let ?s = "concat (take (?b - ?a) (drop ?a blocks)) @ replicate ((?b - ?a - (length blocks - ?a)) * ?bs) (CHR 0x00)"
    obtain td' where r: "read_range C st env cl io (Inode_block_size inode) 0 (drop ?a (sub inode)) ?a (?b - ?a) td = Some (Ok ?s, td')"
      "cache_ok td' blocks"
      using read_range_blocks [OF ready(4) st(2) assms(2) _ k] ready(1) by auto
    have n: "nat (int ?b - int ?a) = ?b - ?a" by simp
    have rb: "read_blocks C env cl io 0 inode (int ?a, int ?b) td = Some (Ok ?s, td')"
      unfolding read_blocks_def st(1) using r(1) by (simp only: option.case fst_conv snd_conv nat_int n) simp
    note sl = slice_blocks [OF ready(2) le]
    have start: "uint offset - int ?a * Inode_block_size inode = int (unat offset - ?a * ?bs)"
    proof -
      have "Inode_block_size inode = int ?bs" using ready(1) by simp
      then have "int ?a * Inode_block_size inode = int (?a * ?bs)" by (simp only: of_nat_mult)
      then show ?thesis unfolding uint_nat by (simp only: of_nat_diff [OF div_times_less_eq_dividend])
    qed
    have bound: "int (unat offset - ?a * ?bs) + uint sz' \<le> int (length ?s)"
      using sl unfolding uint_nat by (simp only: of_nat_add [symmetric] of_nat_le_iff)
    have "take (unat sz') (drop (unat offset) content) = take (unat sz) (drop (unat offset) content)"
      unfolding sz' by (cases "unat sz \<le> length content - unat offset") (simp_all add: min_def)
    with sl have res: "take (unat sz') (drop (unat offset - ?a * ?bs) ?s) = take (unat sz) (drop (unat offset) content)" by simp
    have "read_data C env cl io (Some inode) offset sz td =
        map_option (\<lambda>(r, td'). (bindO r (read_slice inode offset sz' (int ?a)), td')) (read_blocks C env cl io 0 inode (int ?a, int ?b) td)"
      unfolding read_data_cached [OF False] sz'_def [symmetric] ix by (simp only: outcome.case fst_conv)
    also have "\<dots> = Some (Ok (take (unat sz) (drop (unat offset) content)), td')"
      unfolding rb option.map prod.case bindO.simps read_slice_def Let_def start nat_int res
      by (simp only: bound of_nat_0_le_iff simp_thms if_True)
    finally have "read_data C env cl io (Some inode) offset sz td = Some (Ok (take (unat sz) (drop (unat offset) content)), td')" .
    moreover have "file_ready C env cl inode blocks content td'" using r(2) assms(1) by (simp add: file_ready_def)
    ultimately show ?thesis by blast
  qed
qed

end
