(* ===== verification/Sdk_Writes.thy ===== *)
theory Sdk_Writes
  imports Sdk_Files
begin

text \<open>
  What \<open>write_data\<close>, \<open>fsync\<close> and \<open>read_data\<close> do together. A new file that is written from the beginning to the end is
  kept in local blocks, sent, and read back; bytes written over existing contents are not.
\<close>

section \<open>Writing from the beginning to the end\<close>

abbreviation local_block :: "tmp_dir \<Rightarrow> nat \<Rightarrow> string" where
  "local_block td i \<equiv> case td_read td i of None \<Rightarrow> [] | Some s \<Rightarrow> s"

text \<open>The local files hold the text \<open>t\<close>, cut into blocks, and all of them are marked as written.\<close>

definition written_text :: "nat \<Rightarrow> string \<Rightarrow> tmp_dir \<Rightarrow> bool" where
  "written_text bs t td \<longleftrightarrow> td_wf td \<and> td_has_write td \<and> map_of (td_write td) = map_of (td_index td) \<and>
     distinct (map fst (td_write td)) \<and>
     (\<forall>i. local_block td i = take bs (drop (i * bs) t)) \<and> (\<forall>i. td_read td i \<noteq> None \<longrightarrow> i \<le> length t div bs)"

lemma block_after_append:
  assumes "0 < bs" "length t mod bs + length p \<le> bs"
  shows "take bs (drop (j * bs) (t @ p)) =
    (if j = length t div bs then take bs (drop (j * bs) t) @ p else take bs (drop (j * bs) t))"
proof -
  let ?i = "length t div bs"
  have eq: "length t = ?i * bs + length t mod bs" by simp
  consider "j < ?i" | "j = ?i" | "?i < j" by linarith
  then show ?thesis
  proof cases
    case 1
    then have "Suc j * bs \<le> ?i * bs" by (simp only: Suc_le_eq mult_le_mono1)
    then have "j * bs + bs \<le> length t" using eq mult_Suc [of j bs] by linarith
    with 1 show ?thesis by simp
  next
    case 2
    have "length t - ?i * bs = length t mod bs" by (simp add: minus_div_mult_eq_mod)
    moreover have "?i * bs \<le> length t" by simp
    ultimately show ?thesis using 2 assms(2) by simp
  next
    case 3
    then have "Suc ?i * bs \<le> j * bs" by (simp only: Suc_le_eq mult_le_mono1)
    then have "length t + length p \<le> j * bs" using eq assms(2) mult_Suc [of ?i bs] by linarith
    with 3 show ?thesis by simp
  qed
qed

lemma written_append:
  assumes "written_text bs t td" "0 < bs" "i = length t div bs" "length t mod bs + length p \<le> bs"
  shows "\<exists>td2. ln_path_index (td_append td i p) i = Ok td2 \<and> written_text bs (t @ p) td2 \<and> td_read td2 i \<noteq> None"
proof -
  have w: "td_wf td" "td_has_write td" "map_of (td_write td) = map_of (td_index td)" "distinct (map fst (td_write td))"
    "\<And>i. local_block td i = take bs (drop (i * bs) t)" "\<And>i. td_read td i \<noteq> None \<Longrightarrow> i \<le> length t div bs"
    using assms(1) by (auto simp: written_text_def)
  note a = td_append_props [OF w(1), of i p]
  obtain f td' where o: "td_open td i = (f, td')" by fastforce
  have ix: "map_of (td_index (td_append td i p)) = (map_of (td_index td))(i \<mapsto> f)"
    using td_open_props(2) [OF w(1) o] by (simp add: td_append_def o)
  let ?td2 = "(td_append td i p)\<lparr>td_write := AList.update i f (td_write td)\<rparr>"
  have ln: "ln_path_index (td_append td i p) i = Ok ?td2" unfolding ln_path_index_def ix by (simp add: a(3,4) w(2))
  have rd: "td_read ?td2 j = td_read (td_append td i p) j" for j by (simp add: td_read_def)
  have blk: "local_block ?td2 j = take bs (drop (j * bs) (t @ p))" for j
    unfolding rd a(1) block_after_append [OF assms(2,4)] using w(5) [of j] assms(3) by auto
  have "length t div bs \<le> length (t @ p) div bs" by (simp add: div_le_mono)
  then have bound: "td_read ?td2 j \<noteq> None \<longrightarrow> j \<le> length (t @ p) div bs" for j
    unfolding rd a(1) using w(6) [of j] assms(3) by auto
  have "map_of (td_write ?td2) = map_of (td_index ?td2)" by (simp add: ix update_conv' w(3))
  moreover have "td_wf ?td2" using a(2) by (simp add: td_wf_def)
  moreover have "td_has_write ?td2" "distinct (map fst (td_write ?td2))" using a(4) w(2,4) by (simp_all add: distinct_update)
  ultimately have "written_text bs (t @ p) ?td2" using blk bound unfolding written_text_def by blast
  moreover have "td_read ?td2 i \<noteq> None" unfolding rd a(1) by simp
  ultimately show ?thesis using ln by blast
qed

lemma Inode_block_size_int: "in_int (Inode_block_size inode)"
  by (cases "storage_type_ptr inode")
    (simp_all add: Inode_block_size_def get_block_size_def to_int32_in_int, simp add: in_int_def INT_MIN_def INT_MAX_def)

lemma same_block: "(n + k) div b = n div b \<Longrightarrow> (n + k) mod b = n mod b + k" for n k b :: nat
  by (metis add.assoc add_left_imp_eq div_mult_mod_eq)

lemma write_blocks_seq:
  assumes "written_text B t td" "0 < B" "unat bs = B" "\<forall>i. io i" "a \<le> index" "index = int (length t div B)"
    "b = int (Suc ((length t + length rest) div B))" "unat r = (length t + length rest) mod B"
    "unat (if index = a then l else 0) = length t mod B" "length t + length rest < 2 ^ 31"
  shows "\<exists>td'. write_blocks io bs l r (a, b) [index..b - 1] rest td = (Ok (), td') \<and> written_text B (t @ rest) td' \<and>
    td_read td' ((length t + length rest) div B) \<noteq> None"
  using assms
proof (induction "nat (b - index)" arbitrary: t rest td index)
  case 0
  have "length t div B \<le> (length t + length rest) div B" by (simp add: div_le_mono)
  with 0 show ?case by simp
next
  case (Suc k)
  let ?i = "length t div B" and ?e = "length t + length rest"
  have mono: "?i \<le> ?e div B" by (simp add: div_le_mono)
  have ints: "[index..b - 1] = index # [index + 1..b - 1]" using Suc.prems(6,7) mono by (simp add: upto_rec1)
  have "?i < 2 ^ 31" by (rule le_less_trans [OF div_le_dividend]) (use Suc.prems(10) in linarith)
  then have "int ?i < 2 ^ 32" by simp
  then have name: "index_name index = ?i" unfolding Suc.prems(6) index_name_def by (simp only: mod_pos_pos_trivial of_nat_0_le_iff nat_int)
  have tm: "length t = ?i * B + length t mod B" "?e = ?e div B * B + ?e mod B" by simp_all
  have tb: "length t mod B < B" using Suc.prems(2) by simp
  define left where "left = (if index = a then l else 0)"
  define right where "right = (if index = b - 1 then r else bs)"
  have l: "unat left = length t mod B" using Suc.prems(9) by (simp add: left_def)
  define n where "n = (if index = b - 1 then length rest else B - length t mod B)"
  have n: "unat (right - left) = n" "length t mod B + n \<le> B" "n \<le> length rest"
  proof -
    have *: "unat right = length t mod B + n \<and> length t mod B + n \<le> B \<and> n \<le> length rest"
    proof (cases "index = b - 1")
      case True
      then have "?e div B = ?i" using Suc.prems(6,7) by simp
      then have "?e mod B = length t mod B + length rest" by (rule same_block)
      moreover have "?e mod B < B" using Suc.prems(2) by simp
      ultimately show ?thesis using True Suc.prems(8) by (simp add: right_def n_def)
    next
      case False
      then have "Suc ?i \<le> ?e div B" using Suc.prems(6,7) mono by simp
      then have "Suc ?i * B \<le> ?e div B * B" by (rule mult_le_mono1)
      then have "Suc ?i * B \<le> ?e" using tm by linarith
      then have "B \<le> length t mod B + length rest" using tm(1) mult_Suc [of ?i B] by linarith
      then have "B - length t mod B \<le> length rest" by (simp only: le_diff_conv add.commute)
      with False tb Suc.prems(3) show ?thesis by (simp add: right_def n_def)
    qed
    then have "left \<le> right" by (simp add: word_le_nat_alt l)
    with * show "unat (right - left) = n" "length t mod B + n \<le> B" "n \<le> length rest" by (simp_all add: unat_sub l)
  qed
  obtain td2 where td2: "ln_path_index (td_append td ?i (take n rest)) ?i = Ok td2" "written_text B (t @ take n rest) td2"
    "td_read td2 ?i \<noteq> None"
    using written_append [OF Suc.prems(1,2) refl, of "take n rest"] n(2,3) by auto
  have io: "io ?i" using Suc.prems(4) by blast
  have step: "write_blocks io bs l r (a, b) [index..b - 1] rest td = write_blocks io bs l r (a, b) [index + 1..b - 1] (drop n rest) td2"
    unfolding ints write_blocks.simps fst_conv snd_conv left_def [symmetric] right_def [symmetric] n(1) name Let_def
    using io n(3) td2(1) by simp
  show ?case
  proof (cases "index = b - 1")
    case True
    then have "take n rest = rest" "[index + 1..b - 1] = []" "?e div B = ?i"
      using Suc.prems(6,7) by (simp_all add: n_def)
    with step td2(2,3) show ?thesis by simp
  next
    case False
    then have "length t mod B + n = B" using tb by (simp add: n_def)
    then have "length t + n = Suc ?i * B" using tm(1) mult_Suc [of ?i B] by linarith
    then have full: "length (t @ take n rest) = Suc ?i * B" using n(3) by simp
    have e: "length (t @ take n rest) + length (drop n rest) = ?e" using n(3) by simp
    have idx: "index + 1 = int (length (t @ take n rest) div B)" unfolding full using Suc.prems(2,6) by simp
    have lf: "unat (if index + 1 = a then l else 0) = length (t @ take n rest) mod B" unfolding full using Suc.prems(5) by simp
    have k: "k = nat (b - (index + 1))" and a: "a \<le> index + 1" using Suc.hyps(2) Suc.prems(5) by simp_all
    obtain td' where "write_blocks io bs l r (a, b) [index + 1..b - 1] (drop n rest) td2 = (Ok (), td')"
      "written_text B ((t @ take n rest) @ drop n rest) td'" "td_read td' (?e div B) \<noteq> None"
      using Suc.hyps(1) [OF k td2(2) Suc.prems(2-4) a idx, of "drop n rest", unfolded e, OF Suc.prems(7,8) lf Suc.prems(10)] by blast
    with step show ?thesis by simp
  qed
qed

text \<open>Writing at the end of what was written so far, into a file that is empty at the name node.\<close>

lemma write_data_end:
  assumes "written_text (nat (Inode_block_size inode)) t td" "0 < Inode_block_size inode" "\<forall>i. io i" "filesize inode = 0"
    "length t + length s < 2 ^ 31"
  shows "\<exists>td'. write_data C env cl io (Some inode) (of_nat (length t)) s td = Some (Ok (), td') \<and>
    written_text (nat (Inode_block_size inode)) (t @ s) td' \<and>
    td_read td' (length (t @ s) div nat (Inode_block_size inode)) \<noteq> None"
proof -
  let ?B = "nat (Inode_block_size inode)" and ?o = "of_nat (length t) :: u64" and ?sz = "of_nat (length s) :: u64"
  let ?bs = "word_of_int (Inode_block_size inode) :: u64"
  have ib: "Inode_block_size inode < 2 ^ 31" using Inode_block_size_int [of inode] by (simp add: in_int_def INT_MAX_def)
  have u: "unat ?o = length t" "unat ?sz = length s" using assms(5) by (simp_all add: unat_of_nat)
  have bs: "unat ?bs = ?B"
    using ib assms(2) by (simp add: unat_eq_nat_uint uint_word_of_int)
  have sum: "unat (?o + ?sz) = length t + length s" using assms(5) u by (simp add: unat_word_ariths)
  have pos: "0 < ?B" using assms(2) by simp
  have nz: "\<not> x < (0 :: u64)" for x by simp
  let ?a = "int (length t div ?B)" and ?b = "int (Suc ((length t + length s) div ?B))"
  have ix: "get_indexs inode ?o ?sz = Ok (?a, ?b)"
    using get_indexs_nat [OF assms(2), of ?o ?sz] assms(5) unfolding u by blast
  have l: "unat (?o mod ?bs) = length t mod ?B" "unat ((?o + ?sz) mod ?bs) = (length t + length s) mod ?B"
    by (simp_all only: unat_mod u sum bs)
  have l1: "unat (if ?a = ?a then ?o mod ?bs else 0) = length t mod ?B" by (simp only: l(1) simp_thms if_True)
  obtain td' where w: "write_blocks io ?bs (?o mod ?bs) ((?o + ?sz) mod ?bs) (?a, ?b) [?a..?b - 1] s td = (Ok (), td')"
    "written_text ?B (t @ s) td'" "td_read td' ((length t + length s) div ?B) \<noteq> None"
    using write_blocks_seq [OF assms(1) pos bs assms(3) order_refl refl refl l(2) l1 assms(5)] by blast
  have "write_data C env cl io (Some inode) ?o s td = Some (Ok (), td')"
    unfolding write_data_def get_inode_cached_def Let_def option.case outcome.case ix prod.case assms(4)
    by (simp only: preread_def nz simp_thms if_False prod.case outcome.case option.case w(1))
  with w(2,3) show ?thesis by simp
qed

text \<open>Several pieces, one after the other.\<close>

fun write_all ::
  "client \<Rightarrow> (nat \<Rightarrow> call_env) \<Rightarrow> cluster \<Rightarrow> (nat \<Rightarrow> bool) \<Rightarrow> Inode \<Rightarrow> nat \<Rightarrow> string list \<Rightarrow> tmp_dir \<Rightarrow> (unit outcome \<times> tmp_dir) option" where
  "write_all C env cl io inode off [] td = Some (Ok (), td)"
| "write_all C env cl io inode off (s # ss) td =
     (case write_data C env cl io (Some inode) (of_nat off) s td of
        Some (Ok _, td') \<Rightarrow> write_all C env cl io inode (off + length s) ss td'
      | r \<Rightarrow> r)"

lemma write_all_text:
  assumes "written_text (nat (Inode_block_size inode)) t td" "0 < Inode_block_size inode" "\<forall>i. io i" "filesize inode = 0"
    "length (t @ concat ss) < 2 ^ 31" "ss \<noteq> [] \<or> td_read td (length t div nat (Inode_block_size inode)) \<noteq> None"
  shows "\<exists>td'. write_all C env cl io inode (length t) ss td = Some (Ok (), td') \<and>
    written_text (nat (Inode_block_size inode)) (t @ concat ss) td' \<and>
    td_read td' (length (t @ concat ss) div nat (Inode_block_size inode)) \<noteq> None"
  using assms(1,5,6)
proof (induction ss arbitrary: t td)
  case (Cons s ss)
  have "length t + length s < 2 ^ 31" using Cons.prems(2) by simp
  from write_data_end [OF Cons.prems(1) assms(2-4) this, of C env cl] obtain td1 where
    w: "write_data C env cl io (Some inode) (of_nat (length t)) s td = Some (Ok (), td1)"
    "written_text (nat (Inode_block_size inode)) (t @ s) td1" "td_read td1 (length (t @ s) div nat (Inode_block_size inode)) \<noteq> None"
    by blast
  from Cons.IH [OF w(2)] w(3) Cons.prems(2) w(1) show ?case by simp
qed auto

lemma written_text_start: "0 < bs \<Longrightarrow> written_text bs [] (empty_dir\<lparr>td_has_write := True\<rparr>)"
  by (simp add: written_text_def empty_dir_def td_wf_def td_read_def)

section \<open>Sending what was written\<close>

definition text_blocks :: "nat \<Rightarrow> string \<Rightarrow> string list" where
  "text_blocks bs t = map (\<lambda>i. take bs (drop (i * bs) t)) [0..<Suc (length t div bs)]"

lemma encode_good:
  assumes "all_good env F" "digest_safe C F" "st_encode (cl_ec C) st block = Ok vec" "set vec \<subseteq> set F" "vec \<noteq> []"
    "length vec \<le> fuel" "nodes \<noteq> []" "\<forall>a\<in>set nodes. node_text a" "sha_clean C" "on_nodes C cl F old"
  shows "\<exists>one cl' n'. encode_one_block fuel C st env nodes n cl block = Some (Ok one, cl', n') \<and> written C vec one \<and>
    on_nodes C cl' F (decode_one_sub one @ old)"
proof -
  let ?s = "\<lparr>pl_index = 0, pl_succ = 0, pl_fail = 0, pl_hashs = [], pl_cluster = cl, pl_calls = n\<rparr>"
  obtain s1 where s1: "place fuel C st env nodes vec ?s = Some s1" "length (pl_hashs s1) = length vec"
    "on_nodes C (pl_cluster s1) F (pl_hashs s1 @ old)"
    using place_good [OF assms(1,2,4,7), of ?s fuel old st] assms(6,7,10) by auto
  have "placed_ok C nodes vec s1"
    by (rule place_recorded [OF s1(1)]) (use assms(7) in \<open>simp_all add: placed_ok_def recorded_def\<close>)
  then have rec: "recorded C vec 0 (pl_hashs s1)" "fst ` set (pl_hashs s1) \<subseteq> set nodes" by (simp_all add: placed_ok_def)
  obtain one where one: "encode_one_sub (pl_hashs s1) = Ok one" "decode_one_sub one = pl_hashs s1"
    using encode_recorded [OF rec assms(8,9)] s1(2) assms(5) by (metis length_0_conv)
  then show ?thesis
    using s1 rec(1) assms(3,7) by (simp add: encode_one_block_def written_def)
qed

text \<open>The fragments of every block are among \<open>F\<close>, and all calls succeed.\<close>

definition calls_good :: "client \<Rightarrow> StorageType \<Rightarrow> (nat \<Rightarrow> call_env) \<Rightarrow> string list \<Rightarrow> nat \<Rightarrow> string list \<Rightarrow> string list \<Rightarrow> bool" where
  "calls_good C st env nodes fuel F blocks \<longleftrightarrow> st_works C st \<and> all_good env F \<and> digest_safe C F \<and> nodes \<noteq> [] \<and>
     (\<forall>a\<in>set nodes. node_text a) \<and> sha_clean C \<and>
     (\<forall>b\<in>set blocks. \<forall>vec. st_encode (cl_ec C) st b = Ok vec \<longrightarrow> set vec \<subseteq> set F \<and> length vec \<le> fuel)"

lemma calls_good_encode:
  assumes "calls_good C st env nodes fuel F blocks" "b \<in> set blocks" "on_nodes C cl F old"
  shows "\<exists>vec one cl' n'. frags_of C st b vec \<and> set vec \<subseteq> set F \<and> written C vec one \<and>
    encode_one_block fuel C st env nodes n cl b = Some (Ok one, cl', n') \<and> on_nodes C cl' F (decode_one_sub one @ old)"
proof -
  obtain vec where v: "st_encode (cl_ec C) st b = Ok vec" "frags_of C st b vec"
    using assms(1) st_encode_frags [of C st b] by (auto simp: calls_good_def)
  have sub: "set vec \<subseteq> set F" "length vec \<le> fuel" using assms(1,2) v(1) by (auto simp: calls_good_def)
  have ne: "vec \<noteq> []" using v(2) by (auto simp: frags_of_def)
  have g: "all_good env F" "digest_safe C F" "nodes \<noteq> []" "\<forall>a\<in>set nodes. node_text a" "sha_clean C"
    using assms(1) by (auto simp: calls_good_def)
  from encode_good [OF g(1,2) v(1) sub(1) ne sub(2) g(3-5) assms(3), of n] v(2) sub(1) show ?thesis by blast
qed

definition stored :: "client \<Rightarrow> StorageType \<Rightarrow> string list \<Rightarrow> string \<Rightarrow> string \<Rightarrow> bool" where
  "stored C st F b one \<longleftrightarrow> (\<exists>vec. frags_of C st b vec \<and> set vec \<subseteq> set F \<and> written C vec one)"

lemma fsync_loop_good:
  assumes "calls_good C st env nodes fuel F blocks" "j \<le> length blocks"
    "fs_subs s = ones @ replicate (length blocks - j) []" "length ones = j"
    "\<forall>i. j \<le> i \<and> i < length blocks \<longrightarrow> (\<exists>f. map_of (td_write (fs_dir s)) i = Some f \<and> td_data (fs_dir s) f = blocks ! i)"
    "on_nodes C (fs_cluster s) F old"
  shows "\<exists>s' new. fsync_loop fuel C st env nodes [j..<length blocks] s = Some (Ok (), s') \<and> fs_subs s' = ones @ new \<and>
    list_all2 (stored C st F) (drop j blocks) new \<and> on_nodes C (fs_cluster s') F (concat (map decode_one_sub new) @ old) \<and>
    (j < length blocks \<longrightarrow> fs_last s' = length (last blocks))"
  using assms(2-6)
proof (induction "length blocks - j" arbitrary: j s ones old)
  case 0
  then show ?case by (intro exI [of _ s] exI [of _ "[]"]) simp
next
  case (Suc k)
  then have j: "j < length blocks" by simp
  let ?b = "blocks ! j"
  obtain f where f: "map_of (td_write (fs_dir s)) j = Some f" "td_data (fs_dir s) f = ?b" using Suc.prems(4) j by blast
  obtain vec one cl' n' where e: "frags_of C st ?b vec" "set vec \<subseteq> set F" "written C vec one"
    "encode_one_block fuel C st env nodes (fs_calls s) (fs_cluster s) ?b = Some (Ok one, cl', n')"
    "on_nodes C cl' F (decode_one_sub one @ old)"
    using calls_good_encode [OF assms(1) nth_mem [OF j] Suc.prems(5), of "fs_calls s"] by blast
  let ?s = "s\<lparr>fs_cluster := cl', fs_calls := n', fs_last := length ?b, fs_subs := (fs_subs s)[j := one],
      fs_dir := (fs_dir s)\<lparr>td_write := AList.delete j (td_write (fs_dir s))\<rparr>\<rparr>"
  have step: "fsync_loop fuel C st env nodes [j..<length blocks] s = fsync_loop fuel C st env nodes [Suc j..<length blocks] ?s"
    using j f e(4) by (simp add: upt_conv_Cons Let_def)
  have "replicate (length blocks - j) [] = [] # replicate (length blocks - Suc j) ([] :: string)"
    using j by (metis Suc_diff_Suc replicate_Suc)
  then have subs: "fs_subs ?s = (ones @ [one]) @ replicate (length blocks - Suc j) []"
    using Suc.prems(2,3) by (simp add: list_update_append)
  have wr: "\<forall>i. Suc j \<le> i \<and> i < length blocks \<longrightarrow>
      (\<exists>f. map_of (td_write (fs_dir ?s)) i = Some f \<and> td_data (fs_dir ?s) f = blocks ! i)"
    using Suc.prems(4) by (auto simp: delete_conv')
  have k: "k = length blocks - Suc j" and len: "length (ones @ [one]) = Suc j" and le: "Suc j \<le> length blocks"
    using Suc.hyps(2) Suc.prems(3) j by simp_all
  have on: "on_nodes C (fs_cluster ?s) F (decode_one_sub one @ old)" using e(5) by simp
  from Suc.hyps(1) [OF k le subs len wr on] obtain s' new where
    r: "fsync_loop fuel C st env nodes [Suc j..<length blocks] ?s = Some (Ok (), s')" "fs_subs s' = (ones @ [one]) @ new"
    "list_all2 (stored C st F) (drop (Suc j) blocks) new"
    "on_nodes C (fs_cluster s') F (concat (map decode_one_sub new) @ decode_one_sub one @ old)"
    "Suc j < length blocks \<longrightarrow> fs_last s' = length (last blocks)" by blast
  have "list_all2 (stored C st F) (drop j blocks) (one # new)"
    using r(3) e(1-3) j by (auto simp: Cons_nth_drop_Suc [symmetric] stored_def)
  moreover have "fs_last s' = length (last blocks)"
  proof (cases "Suc j < length blocks")
    case False
    then have "Suc j = length blocks" using j by simp
    then have "s' = ?s" "last blocks = ?b"
      using r(1) by (simp, metis diff_Suc_1 last_conv_nth length_0_conv nat.distinct(1))
    then show ?thesis by simp
  qed (use r(5) in blast)
  ultimately show ?case
    using step r(1,2,4) by (intro exI [of _ s'] exI [of _ "one # new"]) (auto simp: on_nodes_append)
qed

lemma written_indices:
  assumes "written_text bs t td" "0 < bs" "td_read td (length t div bs) \<noteq> None"
  shows "sort (map fst (td_write td)) = [0..<Suc (length t div bs)]"
proof -
  let ?n = "length t div bs"
  have w: "map_of (td_write td) = map_of (td_index td)" "distinct (map fst (td_write td))"
    "\<And>i. local_block td i = take bs (drop (i * bs) t)" "\<And>i. td_read td i \<noteq> None \<Longrightarrow> i \<le> ?n"
    using assms(1) by (auto simp: written_text_def)
  have "td_read td i \<noteq> None" if "i < ?n" for i
  proof -
    have "Suc i * bs \<le> ?n * bs" using that by (simp only: Suc_le_eq mult_le_mono1)
    then have "i * bs < length t" using assms(2) div_times_less_eq_dividend [of "length t" bs] mult_Suc [of i bs] by linarith
    then have "local_block td i \<noteq> []" unfolding w(3) using assms(2) by simp
    then show ?thesis by (cases "td_read td i") simp_all
  qed
  with w(4) assms(3) have "td_read td i \<noteq> None \<longleftrightarrow> i \<le> ?n" for i by (metis le_neq_implies_less)
  then have "map_of (td_write td) i \<noteq> None \<longleftrightarrow> i \<le> ?n" for i unfolding w(1) by (simp add: td_read_def)
  then have "dom (map_of (td_write td)) = {..?n}" by (auto simp: dom_def)
  then have "set (map fst (td_write td)) = {..?n}" by (simp add: dom_map_of_conv_image_fst)
  then have "set (sort (map fst (td_write td))) = set [0..<Suc ?n]" by (auto simp: atLeast0LessThan lessThan_Suc_atMost)
  then show ?thesis using w(2) by (intro sorted_distinct_set_unique) (simp_all del: upt_Suc)
qed

lemma block_size_word:
  assumes "0 < Inode_block_size inode"
  shows "unat (word_of_int (Inode_block_size inode) :: u64) = nat (Inode_block_size inode)"
  using assms Inode_block_size_int [of inode] by (simp add: in_int_def INT_MAX_def unat_eq_nat_uint uint_word_of_int)

text \<open>The size that is sent is the length of the text.\<close>

lemma fsync_size:
  assumes "0 < Inode_block_size inode" "filesize inode = 0" "length t < 2 ^ 31"
  defines "n \<equiv> length t div nat (Inode_block_size inode)" and "m \<equiv> length t mod nat (Inode_block_size inode)"
  shows "word_of_int (to_int32 (uint (max (filesize inode)
      (of_nat n * word_of_int (Inode_block_size inode) + of_nat m :: u64)))) = (of_nat (length t) :: u64)"
proof -
  let ?bs = "nat (Inode_block_size inode)"
  have "Inode_block_size inode = int ?bs" using assms(1) by simp
  then have "word_of_int (Inode_block_size inode) = (of_nat ?bs :: u64)" by (metis of_int_of_nat_eq)
  then have "of_nat n * word_of_int (Inode_block_size inode) + of_nat m = (of_nat (n * ?bs + m) :: u64)"
    by (simp only: of_nat_add of_nat_mult)
  also have "n * ?bs + m = length t" unfolding n_def m_def by simp
  finally have eq: "of_nat n * word_of_int (Inode_block_size inode) + of_nat m = (of_nat (length t) :: u64)" .
  have "max 0 x = (x :: u64)" for x by (simp add: max_def)
  then have mx: "max (filesize inode) (of_nat (length t)) = (of_nat (length t) :: u64)" unfolding assms(2) .
  have "uint (of_nat (length t) :: u64) = int (length t)" using assms(3) by (simp add: uint_nat unat_of_nat)
  then show ?thesis unfolding eq mx using to_int32_id [OF in_int_nat [OF assms(3)]] by simp
qed

lemma text_blocks_file: "0 < bs \<Longrightarrow> file_blocks bs (text_blocks bs t) t"
proof -
  assume bs: "0 < bs"
  let ?n = "length t div bs"
  have full: "length (text_blocks bs t ! i) = bs" if "i < ?n" for i
  proof -
    have "Suc i * bs \<le> ?n * bs" using that by (simp only: Suc_le_eq mult_le_mono1)
    then have "i * bs + bs \<le> length t" using div_times_less_eq_dividend [of "length t" bs] mult_Suc [of i bs] by linarith
    then show ?thesis using that by (simp add: text_blocks_def del: upt_Suc)
  qed
  have "concat (map (\<lambda>i. take bs (drop (i * bs) t)) [0..<k]) = take (k * bs) t" for k
    by (induction k) (simp_all add: take_add [symmetric] add.commute)
  then have "concat (text_blocks bs t) = take (Suc ?n * bs) t" unfolding text_blocks_def .
  moreover have "length t \<le> Suc ?n * bs" using bs dividend_less_times_div [of bs "length t"] by (simp add: mult.commute)
  ultimately show ?thesis using bs full by (simp add: file_blocks_def text_blocks_def del: upt_Suc)
qed

text \<open>What \<open>fsync\<close> sends after a text was written: the blocks of the text, and its length.\<close>

lemma fsync_text:
  assumes w: "written_text (nat (Inode_block_size inode)) t td" "td_read td (length t div nat (Inode_block_size inode)) \<noteq> None"
    and i: "storage_type_ptr inode = Some st" "0 < Inode_block_size inode" "filesize inode = 0" "sub inode = []"
    and g: "calls_good C st env nodes fuel F (text_blocks (nat (Inode_block_size inode)) t)" and len: "length t < 2 ^ 31"
  shows "\<exists>subs td' cl'. fsync fuel C env nodes cl (Some inode) td = Some (Ok (Some (subs, of_nat (length t))), td', cl') \<and>
    list_all2 (stored C st F) (text_blocks (nat (Inode_block_size inode)) t) subs \<and>
    on_nodes C cl' F (concat (map decode_one_sub subs))"
proof -
  let ?bs = "nat (Inode_block_size inode)"
  let ?n = "length t div ?bs" and ?blocks = "text_blocks ?bs t"
  have bs: "0 < ?bs" using i(2) by simp
  have m: "length ?blocks = Suc ?n" by (simp add: text_blocks_def)
  have srt: "sort (map fst (td_write td)) = [0..<length ?blocks]" unfolding m by (rule written_indices [OF w(1) bs w(2)])
  have wt: "td_has_write td" "map_of (td_write td) = map_of (td_index td)" "\<And>i. local_block td i = take ?bs (drop (i * ?bs) t)"
    using w(1) by (auto simp: written_text_def)
  let ?s = "\<lparr>fs_subs = sub inode @ replicate (Suc ?n - length (sub inode)) [], fs_last = 0, fs_dir = td, fs_cluster = cl, fs_calls = 0\<rparr>"
  have wr: "\<exists>f. map_of (td_write (fs_dir ?s)) i = Some f \<and> td_data (fs_dir ?s) f = ?blocks ! i" if "i < length ?blocks" for i
  proof -
    have "i \<in> set (sort (map fst (td_write td)))" unfolding srt using that by simp
    then obtain f where f: "map_of (td_write td) i = Some f" by (metis map_of_eq_None_iff not_None_eq set_map set_sort)
    then have "td_data td f = local_block td i" unfolding wt(2) by (simp add: td_read_def)
    moreover have "?blocks ! i = take ?bs (drop (i * ?bs) t)" using that unfolding m by (simp add: text_blocks_def del: upt_Suc)
    ultimately show ?thesis using f wt(3) by simp
  qed
  have "on_nodes C (fs_cluster ?s) F []" by (simp add: on_nodes_def)
  from fsync_loop_good [OF g, of 0 ?s "[]" "[]", OF _ _ _ _ this] wr i(4) m obtain s' subs where
    l: "fsync_loop fuel C st env nodes [0..<length ?blocks] ?s = Some (Ok (), s')" "fs_subs s' = subs"
    "list_all2 (stored C st F) ?blocks subs" "on_nodes C (fs_cluster s') F (concat (map decode_one_sub subs))"
    "fs_last s' = length (last ?blocks)" by auto
  have "last ?blocks = take ?bs (drop (?n * ?bs) t)" by (simp add: text_blocks_def)
  moreover have "length t - ?n * ?bs = length t mod ?bs" by (simp add: minus_div_mult_eq_mod)
  ultimately have last: "fs_last s' = length t mod ?bs" using l(5) bs by (simp add: min_absorb2 less_imp_le)
  have small: "\<not> list_ex (\<lambda>i. int i > INT_MAX) [0..<length ?blocks]"
  proof -
    have "?n < 2 ^ 31" by (rule le_less_trans [OF div_le_dividend len])
    then show ?thesis unfolding m by (auto simp: list_ex_iff INT_MAX_def)
  qed
  have ne: "[0..<length ?blocks] \<noteq> []" "last [0..<length ?blocks] = ?n" unfolding m by simp_all
  have "fsync fuel C env nodes cl (Some inode) td = Some (Ok (Some (subs, of_nat (length t))), fs_dir s', fs_cluster s')"
    unfolding fsync_def srt Let_def get_inode_cached_def option.case outcome.case i(1) ne(2)
    using small ne(1) wt(1) l(1,2) fsync_size [OF i(2,3) len] by (simp only: if_False if_True simp_thms option.map prod.case bindO.simps last)
  with l(3,4) show ?thesis by blast
qed

lemma stored_readable:
  assumes "stored C st F b one" "digest_safe C F" "all_good env F" "on_nodes C cl F (decode_one_sub one)"
  shows "block_readable C st env cl one b"
  using assms decode_good unfolding stored_def block_readable_def by blast

lemma stored_all_readable:
  assumes "list_all2 (stored C st F) blocks subs" "digest_safe C F" "all_good env F"
    "on_nodes C cl F (concat (map decode_one_sub subs))"
  shows "list_all2 (block_readable C st env cl) subs blocks"
  using assms(1,4)
proof (induction rule: list_all2_induct)
  case (Cons b bs one ones)
  then show ?case using stored_readable [OF Cons.hyps(1) assms(2,3)] by (simp add: on_nodes_append)
qed simp

lemma cached_read:
  assumes "td_read td 0 = Some c" "c \<noteq> []" "storage_type_ptr inode = Some st" "sub inode = [blk]"
  shows "read_blocks C env cl io 0 inode (0, 1) td = Some (Ok c, td)"
proof -
  obtain x xs where "c = x # xs" using assms(2) by (cases c) auto
  with assms show ?thesis by (simp add: read_blocks_def nat_one_as_int numeral_eq_Suc)
qed

lemma index_name_0: "index_name 0 = 0"
  by (simp add: index_name_def)

lemma write_blocks_one:
  "unat (r - l) = length s \<Longrightarrow> io 0 \<Longrightarrow> ln_path_index (td_append td 0 s) 0 = Ok td2 \<Longrightarrow>
     write_blocks io bs l r (0, 1) [0] s td = (Ok (), td2)"
  by (simp add: Let_def index_name_0)

text \<open>Positions inside the first block.\<close>

lemma one_block_access:
  assumes "int n < Inode_block_size inode" "off + m \<le> n"
  shows "get_indexs inode (of_nat off) (of_nat m) = Ok (0, 1)" "unat (of_nat off :: u64) = off" "unat (of_nat m :: u64) = m"
    "unat (of_nat off + of_nat m :: u64) = off + m"
    "unat ((of_nat off + of_nat m) mod word_of_int (Inode_block_size inode) - of_nat off mod word_of_int (Inode_block_size inode) :: u64) = m"
    "unat (of_nat n :: u64) = n"
proof -
  let ?bs = "Inode_block_size inode"
  have bs: "0 < ?bs" using assms(1) by linarith
  have "?bs < 2 ^ 31" using Inode_block_size_int [of inode] by (simp add: in_int_def INT_MAX_def)
  then have "int n < 2 ^ 31" using assms(1) by linarith
  then have n: "n < 2 ^ 31" by simp
  show u: "unat (of_nat off :: u64) = off" "unat (of_nat m :: u64) = m" "unat (of_nat n :: u64) = n"
    using n assms(2) by (simp_all add: unat_of_nat)
  show sum: "unat (of_nat off + of_nat m :: u64) = off + m" using n assms(2) u by (simp add: unat_word_ariths)
  have lt: "off + m < nat ?bs" "off < nat ?bs" using assms by linarith+
  have "unat (of_nat off :: u64) + unat (of_nat m :: u64) < 2 ^ 31" unfolding u using n assms(2) by linarith
  from get_indexs_nat [OF bs this] show "get_indexs inode (of_nat off) (of_nat m) = Ok (0, 1)" unfolding u using lt by simp
  have md: "unat (of_nat off mod word_of_int ?bs :: u64) = off" "unat ((of_nat off + of_nat m) mod word_of_int ?bs :: u64) = off + m"
    unfolding unat_mod u sum block_size_word [OF bs] using lt by simp_all
  then have "of_nat off mod word_of_int ?bs \<le> ((of_nat off + of_nat m) mod word_of_int ?bs :: u64)"
    unfolding word_le_nat_alt by simp
  with md show "unat ((of_nat off + of_nat m) mod word_of_int ?bs - of_nat off mod word_of_int ?bs :: u64) = m"
    by (simp add: unat_sub)
qed

lemma to_int32_high:
  assumes "2 ^ 31 \<le> uint (x :: u64)" "uint x < 2 ^ 32"
  shows "to_int32 (uint x) = uint x - 2 ^ 32"
proof -
  have "uint x + 2 ^ 31 = (uint x - 2 ^ 31) + 2 ^ 32" by simp
  then have "(uint x + 2 ^ 31) mod 2 ^ 32 = (uint x - 2 ^ 31) mod 2 ^ 32" by (simp only: mod_add_self2)
  also have "\<dots> = uint x - 2 ^ 31" using assms by (intro mod_pos_pos_trivial) simp_all
  finally show ?thesis by (simp add: to_int32_def)
qed

lemma c_div_negative:
  assumes "0 < b" "a \<le> - b"
  shows "c_div a b < 0"
proof -
  have "b div b \<le> (- a) div b" using assms by (intro zdiv_mono1) linarith+
  then have "1 \<le> (- a) div b" using assms(1) by simp
  moreover have "c_div a b = - ((- a) div b)" using assms by (simp add: c_div_def sgn_if)
  ultimately show ?thesis by linarith
qed

section \<open>Properties\<close>

text \<open>C16: Reading from an open file gives the bytes that were asked for: for a file of less than 2 GiB whose blocks can be
  read and whose local copies are right, \<open>read_data\<close> at any position returns that part of the contents, cut at the end of
  the file, and leaves right local copies.\<close>

theorem read_data_slice:
  assumes "file_ready C env cl inode blocks content td" "\<forall>i. io i" "int (length content) + 2 * Inode_block_size inode < 2 ^ 31"
    "unat offset + unat sz < 2 ^ 64"
  shows "\<exists>td'. read_data C env cl io (Some inode) offset sz td = Some (Ok (take (unat sz) (drop (unat offset) content)), td') \<and>
    file_ready C env cl inode blocks content td'"
  using assms by (rule read_data_ready)

text \<open>C10: A new file that is written from the beginning to the end, in pieces of any sizes, and then sent with \<open>fsync\<close>, is read
  back: \<open>fsync\<close> sends the length of the text, and with the blocks it sends any part of the text can be read by a client
  that has no local copies. All calls are assumed to succeed, and the text to be shorter than 2 GiB.\<close>

theorem written_file_is_read:
  assumes "storage_type_ptr inode = Some st" "0 < Inode_block_size inode" "filesize inode = 0" "sub inode = []" "\<forall>i. io i"
    "ss \<noteq> []" "int (length (concat ss)) + 2 * Inode_block_size inode < 2 ^ 31"
    "calls_good C st env nodes fuel F (text_blocks (nat (Inode_block_size inode)) (concat ss))" "all_good env' F"
    "unat offset + unat sz < 2 ^ 64"
  shows "\<exists>td subs td' cl' td''. write_all C env cl io inode 0 ss (empty_dir\<lparr>td_has_write := True\<rparr>) = Some (Ok (), td) \<and>
    fsync fuel C env nodes cl (Some inode) td = Some (Ok (Some (subs, of_nat (length (concat ss)))), td', cl') \<and>
    read_data C env' cl' io (Some (inode\<lparr>sub := subs, filesize := of_nat (length (concat ss))\<rparr>)) offset sz empty_dir =
      Some (Ok (take (unat sz) (drop (unat offset) (concat ss))), td'')"
proof -
  let ?bs = "nat (Inode_block_size inode)" and ?t = "concat ss"
  have bs: "0 < ?bs" using assms(2) by simp
  have "int (length ?t) < 2 ^ 31" using assms(2,7) by linarith
  then have len: "length ?t < 2 ^ 31" by simp
  obtain td where w: "write_all C env cl io inode 0 ss (empty_dir\<lparr>td_has_write := True\<rparr>) = Some (Ok (), td)"
    "written_text ?bs ?t td" "td_read td (length ?t div ?bs) \<noteq> None"
    using write_all_text [OF written_text_start [OF bs] assms(2,5,3), of ss C env cl] len assms(6) by auto
  obtain subs td' cl' where f: "fsync fuel C env nodes cl (Some inode) td = Some (Ok (Some (subs, of_nat (length ?t))), td', cl')"
    "list_all2 (stored C st F) (text_blocks ?bs ?t) subs" "on_nodes C cl' F (concat (map decode_one_sub subs))"
    using fsync_text [OF w(2,3) assms(1-4,8) len] by blast
  let ?inode = "inode\<lparr>sub := subs, filesize := of_nat (length ?t)\<rparr>"
  have b: "Inode_block_size ?inode = Inode_block_size inode" by (simp add: Inode_block_size_def)
  have "digest_safe C F" using assms(8) by (simp add: calls_good_def)
  then have "list_all2 (block_readable C st env' cl') subs (text_blocks ?bs ?t)"
    using stored_all_readable [OF f(2) _ assms(9) f(3)] by blast
  moreover have "cache_ok empty_dir (text_blocks ?bs ?t)" by (simp add: cache_ok_def td_read_def empty_dir_def td_wf_def)
  moreover have "unat (of_nat (length ?t) :: u64) = length ?t" using len by (simp add: unat_of_nat)
  ultimately have ready: "file_ready C env' cl' ?inode (text_blocks ?bs ?t) ?t empty_dir"
    unfolding file_ready_def b using assms(1,2) text_blocks_file [OF bs] by simp
  from read_data_ready [OF ready assms(5) _ assms(10)] assms(7) w(1) f(1) show ?thesis unfolding b by blast
qed

text \<open>C39: Bytes written into the middle of a block that is there already do not replace what was there: the local file
  of the block is opened for appending, so they end up behind the old contents, and reading the same position again
  returns the old bytes.\<close>

theorem overwrite_is_lost:
  assumes "cache_ok td [c]" "td_read td 0 = Some c" "td_has_write td" "\<forall>i. io i"
    "storage_type_ptr inode = Some st" "sub inode = [blk]" "filesize inode = of_nat (length c)"
    "int (length c) < Inode_block_size inode" "0 < off" "off + length s \<le> length c"
  shows "\<exists>td'. write_data C env cl io (Some inode) (of_nat off) s td = Some (Ok (), td') \<and>
    td_read td' 0 = Some (c @ s) \<and>
    read_data C env' cl' io (Some inode) (of_nat off) (of_nat (length s)) td' = Some (Ok (take (length s) (drop off c)), td')"
proof -
  have wf: "td_wf td" using assms(1) by (simp add: cache_ok_def)
  note a = td_append_props [OF wf, of 0 s]
  obtain f where f: "map_of (td_index (td_append td 0 s)) 0 = Some f"
    using a(1) [of 0] by (auto simp: td_read_def split: option.splits)
  let ?td = "(td_append td 0 s)\<lparr>td_write := AList.update 0 f (td_write td)\<rparr>"
  have ln: "ln_path_index (td_append td 0 s) 0 = Ok ?td" using f a(3,4) assms(3) by (simp add: ln_path_index_def)
  have rd: "td_read ?td 0 = Some (c @ s)" 
  proof -
    have "td_read ?td 0 = td_read (td_append td 0 s) 0" by (simp add: td_read_def)
    then show ?thesis using a(1) [of 0] assms(2) by simp
  qed
  note one = one_block_access [OF assms(8,10)]
  have c: "c \<noteq> []" using assms(9,10) by auto
  have pre: "preread C env cl io inode needed 0 (Ok (), td) = Some (Ok (), td)" for needed
    using cached_read [OF assms(2) c assms(5,6), of C env cl io] by (simp add: preread_def)
  have no: "preread C env cl io inode False x (Ok (), td) = Some (Ok (), td)" for x by (simp add: preread_def)
  have io: "io 0" using assms(4) by blast
  have ints: "[0..(1 :: int) - 1] = [0]" "((0 :: int) \<noteq> 1 - 1) = False" by simp_all
  note w = write_blocks_one [OF one(5), of io, OF io ln]
  have "write_data C env cl io (Some inode) (of_nat off) s td = Some (Ok (), ?td)"
    unfolding write_data_def get_inode_cached_def Let_def option.case outcome.case one(1) prod.case pre
    by (simp only: option.case ints simp_thms no outcome.case prod.case w)
  moreover have "read_data C env' cl' io (Some inode) (of_nat off) (of_nat (length s)) ?td = Some (Ok (take (length s) (drop off c)), ?td)"
  proof -
    have "\<not> filesize inode < (of_nat off :: u64)" "\<not> filesize inode < (of_nat off + of_nat (length s) :: u64)"
      unfolding assms(7) word_less_nat_alt one(2,3,4) using assms(10) one(6) by simp_all
    moreover have "read_blocks C env' cl' io 0 inode (0, 1) ?td = Some (Ok (c @ s), ?td)"
      using cached_read [OF rd _ assms(5,6), of C env' cl' io] c by simp
    moreover have "read_slice inode (of_nat off) (of_nat (length s)) 0 (c @ s) = Ok (take (length s) (drop off c))"
      unfolding read_slice_def Let_def uint_nat one(2,3) using assms(10) by simp
    ultimately show ?thesis unfolding read_data_cached [of inode "of_nat off", OF \<open>\<not> filesize inode < of_nat off\<close>]
      by (simp only: if_False one(1) outcome.case option.map prod.case bindO.simps fst_conv)
  qed
  ultimately show ?thesis using rd by blast
qed


section \<open>Witnesses\<close>

definition demo_inode :: Inode where
  "demo_inode = (new_inode ''/f'')\<lparr>storage_type_ptr := Some (REStorageType 2 1)\<rparr>"

lemma demo_inode_simps:
  "storage_type_ptr demo_inode = Some (REStorageType 2 1)" "Inode_block_size demo_inode = 1048576" "filesize demo_inode = 0"
  "sub demo_inode = []" "Inode_block_size (demo_inode\<lparr>sub := ss, filesize := n\<rparr>) = 1048576"
  by (simp_all add: demo_inode_def new_inode_def Inode_block_size_def get_block_size_def to_int32_def)

lemma demo_readable:
  "block_readable (demo_client ''abc'') (REStorageType 2 1) (\<lambda>n. demo_call 9) (\<lambda>a. [''/data/blk_A'' \<mapsto> ''abc'']) ''n:1|A'' ''abc''"
proof -
  have "decode_one_sub ''n:1|A'' = [(''n:1'', ''A'')]" by code_simp
  moreover have "get_from_datanode (cl_sha (demo_client ''abc'')) (cl_dir (demo_client ''abc'')) (demo_call 9)
      [''/data/blk_A'' \<mapsto> ''abc''] ''A'' = Some (Ok ''abc'')"
    by (rule get_good [OF demo_call_good(1) demo_call_good(2)]) (simp_all add: demo_client_def blk_file_def)
  ultimately show ?thesis by (simp add: block_readable_def decode_one_block_def demo_client_facts)
qed

lemma demo_file_ready:
  "file_ready (demo_client ''abc'') (\<lambda>n. demo_call 9) (\<lambda>a. [''/data/blk_A'' \<mapsto> ''abc''])
     (demo_inode\<lparr>sub := [''n:1|A''], filesize := 3\<rparr>) [''abc''] ''abc'' empty_dir"
  using demo_readable by (simp add: file_ready_def demo_inode_simps file_blocks_def cache_ok_def td_read_def empty_dir_def td_wf_def)

theorem read_data_slice_witness:
  "\<exists>td'. read_data (demo_client ''abc'') (\<lambda>n. demo_call 9) (\<lambda>a. [''/data/blk_A'' \<mapsto> ''abc'']) (\<lambda>i. True)
     (Some (demo_inode\<lparr>sub := [''n:1|A''], filesize := 3\<rparr>)) 1 5 empty_dir = Some (Ok ''bc'', td')"
  using read_data_slice [OF demo_file_ready, of "\<lambda>i. True" 1 5] by (auto simp: demo_inode_simps)

lemma demo_text: "text_blocks 1048576 ''abc'' = [''abc'']"
  by (simp add: text_blocks_def)

theorem written_file_is_read_witness:
  "\<exists>td subs td' cl' td''. write_all (demo_client ''abc'') (\<lambda>n. demo_call 9) (\<lambda>a. Map.empty) (\<lambda>i. True) demo_inode 0 [''a'', ''bc'']
      (empty_dir\<lparr>td_has_write := True\<rparr>) = Some (Ok (), td) \<and>
    fsync 2 (demo_client ''abc'') (\<lambda>n. demo_call 9) [''n:1''] (\<lambda>a. Map.empty) (Some demo_inode) td = Some (Ok (Some (subs, 3)), td', cl') \<and>
    read_data (demo_client ''abc'') (\<lambda>n. demo_call 9) cl' (\<lambda>i. True) (Some (demo_inode\<lparr>sub := subs, filesize := 3\<rparr>)) 1 5 empty_dir =
      Some (Ok ''bc'', td'')"
proof -
  have good: "all_good (\<lambda>n. demo_call 9) [''abc'']" using demo_call_good by (simp add: all_good_def)
  have "calls_good (demo_client ''abc'') (REStorageType 2 1) (\<lambda>n. demo_call 9) [''n:1''] 2 [''abc''] [''abc'']"
    using good demo_client_facts demo_node_text by (auto simp: calls_good_def)
  then have cg: "calls_good (demo_client ''abc'') (REStorageType 2 1) (\<lambda>n. demo_call 9) [''n:1''] 2 [''abc'']
      (text_blocks (nat (Inode_block_size demo_inode)) (concat [''a'', ''bc'']))"
    using demo_text by (simp add: demo_inode_simps)
  have "of_nat (length (concat [''a'', ''bc''])) = (3 :: u64)" by simp
  with written_file_is_read [OF demo_inode_simps(1) _ demo_inode_simps(3,4) _ _ _ cg good, of "\<lambda>i. True" 1 5 "\<lambda>a. Map.empty"]
  show ?thesis by (simp add: demo_inode_simps)
qed

theorem overwrite_is_lost_witness:
  "\<exists>td'. write_data (demo_client ''x'') (\<lambda>n. demo_down) (\<lambda>a. Map.empty) (\<lambda>i. True)
      (Some (demo_inode\<lparr>sub := [''n:1|A''], filesize := 3\<rparr>)) 1 ''X'' (td_overwrite (empty_dir\<lparr>td_has_write := True\<rparr>) 0 ''abc'') = Some (Ok (), td') \<and>
    td_read td' 0 = Some ''abcX'' \<and>
    read_data (demo_client ''x'') (\<lambda>n. demo_down) (\<lambda>a. Map.empty) (\<lambda>i. True)
      (Some (demo_inode\<lparr>sub := [''n:1|A''], filesize := 3\<rparr>)) 1 1 td' = Some (Ok ''b'', td')"
proof -
  let ?td = "td_overwrite (empty_dir\<lparr>td_has_write := True\<rparr>) 0 ''abc''"
  have wf: "td_wf (empty_dir\<lparr>td_has_write := True\<rparr>)" by (simp add: td_wf_def empty_dir_def)
  have rd: "td_read ?td i = (if i = 0 then Some ''abc'' else None)" for i
    using td_overwrite_props(1) [OF wf] by (simp add: td_read_def empty_dir_def)
  have c: "cache_ok ?td [''abc'']" using td_overwrite_props(2) [OF wf] by (simp add: cache_ok_def rd)
  have h: "td_has_write ?td" by (simp add: td_overwrite_def td_open_def empty_dir_def)
  show ?thesis
    using overwrite_is_lost [OF c, of "\<lambda>i. True" "demo_inode\<lparr>sub := [''n:1|A''], filesize := 3\<rparr>" "REStorageType 2 1" "''n:1|A''" 1 "''X''"
        "demo_client ''x''" "\<lambda>n. demo_down" "\<lambda>a. Map.empty" "\<lambda>n. demo_down" "\<lambda>a. Map.empty"] rd h
    by (simp add: demo_inode_simps)
qed


end
