(* ===== verification/Upload_Queues.thy ===== *)
theory Upload_Queues
  imports Paths "HOL-Library.AList"
begin

text \<open>
  Upload tasks and the queues of the upload daemon: \<^verbatim>\<open>include/client/daemon_upload_task.h\<close> and
  \<^verbatim>\<open>src/client/daemon_upload_queue.cpp\<close>.

  Tasks are shared between a queue, its table by path and the threads, so they live in a list, and queue and table hold
  positions in it. The table is kept as nested association lists; the order of a \<^verbatim>\<open>std::unordered_map\<close> is not specified,
  and nothing here depends on it but the order of \<open>find_dir_in_map\<close>. The mutexes make each operation atomic.
\<close>

datatype UploadStatus = WAITING | DATA_UPLOADING | META_UPLOADING | CANCELED | FINISHED

datatype que_name = SmallQue | BigQue

record UploadTask =
  ut_local :: string
  ut_remote :: path
  ut_size :: u64
  ut_storage :: string
  uploadStatus :: UploadStatus
  belong_que :: que_name

record UploadQueue =
  uq_capacity :: u64
  uq_que :: "nat list"
  uq_map :: "(string \<times> (string \<times> nat) list) list"

section \<open>Queues\<close>

definition new_UploadQueue :: "u64 \<Rightarrow> UploadQueue" where
  "new_UploadQueue capacity = \<lparr>uq_capacity = (if capacity = - 1 then - 1 else capacity), uq_que = [], uq_map = []\<rparr>"

definition pop_front :: "UploadQueue \<Rightarrow> nat option \<times> UploadQueue" where
  "pop_front q = (case uq_que q of [] \<Rightarrow> (None, q) | t # ts \<Rightarrow> (Some t, q\<lparr>uq_que := ts\<rparr>))"

definition table_put :: "string \<Rightarrow> string \<Rightarrow> nat \<Rightarrow> (string \<times> (string \<times> nat) list) list \<Rightarrow> (string \<times> (string \<times> nat) list) list" where
  "table_put parent name t m =
     AList.update parent (AList.update name t (case map_of m parent of None \<Rightarrow> [] | Some d \<Rightarrow> d)) m"

definition push_back :: "que_name \<Rightarrow> nat \<Rightarrow> UploadTask list \<Rightarrow> UploadQueue \<Rightarrow> (UploadTask list \<times> UploadQueue) outcome" where
  "push_back this t heap q =
     (if length (uq_que q) \<ge> unat (uq_capacity q) then Throw (OverflowError ''full'')
      else
        let p = ut_remote (heap ! t)
        in Ok (heap[t := (heap ! t)\<lparr>uploadStatus := WAITING, belong_que := this\<rparr>],
               q\<lparr>uq_que := uq_que q @ [t], uq_map := table_put (parent_path_of p) (filename_of p) t (uq_map q)\<rparr>))"

fun until_size :: "UploadTask list \<Rightarrow> u64 \<Rightarrow> u64 \<Rightarrow> nat list \<Rightarrow> nat list \<times> nat list" where
  "until_size heap limit acc [] = ([], [])"
| "until_size heap limit acc (t # ts) =
     (if acc + ut_size (heap ! t) < limit
      then (let (ret, rest) = until_size heap limit (acc + ut_size (heap ! t)) ts in (t # ret, rest))
      else ([], t # ts))"

definition get_until_size :: "UploadTask list \<Rightarrow> u64 \<Rightarrow> UploadQueue \<Rightarrow> nat list \<times> UploadQueue" where
  "get_until_size heap limit q = (let (ret, rest) = until_size heap limit 0 (uq_que q) in (ret, q\<lparr>uq_que := rest\<rparr>))"

definition current_all_smallfile_size :: "UploadTask list \<Rightarrow> UploadQueue \<Rightarrow> u64" where
  "current_all_smallfile_size heap q = foldl (\<lambda>allsize t. allsize + ut_size (heap ! t)) 0 (uq_que q)"

definition find_in_map :: "UploadQueue \<Rightarrow> path \<Rightarrow> nat option" where
  "find_in_map q p =
     (case map_of (uq_map q) (parent_path_of p) of None \<Rightarrow> None | Some d \<Rightarrow> map_of d (filename_of p))"

definition find_dir_in_map :: "UploadQueue \<Rightarrow> path \<Rightarrow> nat list" where
  "find_dir_in_map q p = (case map_of (uq_map q) p of None \<Rightarrow> [] | Some d \<Rightarrow> map snd d)"

definition uq_ls :: "UploadTask list \<Rightarrow> UploadQueue \<Rightarrow> path \<Rightarrow> nat option" where
  "uq_ls heap q p =
     (case find (\<lambda>t. ut_remote (heap ! t) = p) (uq_que q) of
        Some t \<Rightarrow> Some t
      | None \<Rightarrow>
          (case find_in_map q p of
             None \<Rightarrow> None
           | Some t \<Rightarrow> if uploadStatus (heap ! t) = CANCELED then None else Some t))"

definition exist_in_que :: "UploadTask list \<Rightarrow> string \<Rightarrow> path \<Rightarrow> UploadQueue \<Rightarrow> nat option \<times> UploadQueue" where
  "exist_in_que heap local_path remote_path q =
     (let same = (\<lambda>t. ut_local (heap ! t) = local_path \<and> ut_remote (heap ! t) = remote_path)
      in (find same (uq_que q),
          q\<lparr>uq_que := takeWhile (\<lambda>t. \<not> same t) (uq_que q) @ tl (dropWhile (\<lambda>t. \<not> same t) (uq_que q))\<rparr>))"

definition change_status :: "UploadQueue \<Rightarrow> path \<Rightarrow> UploadStatus \<Rightarrow> UploadTask list \<Rightarrow> UploadTask list" where
  "change_status q p st heap =
     (case find_in_map q p of None \<Rightarrow> heap | Some t \<Rightarrow> heap[t := (heap ! t)\<lparr>uploadStatus := st\<rparr>])"

definition uq_rm :: "UploadQueue \<Rightarrow> path \<Rightarrow> UploadTask list \<Rightarrow> UploadTask list" where
  "uq_rm q p heap =
     (case find_in_map q p of
        None \<Rightarrow> heap
      | Some t \<Rightarrow>
          if uploadStatus (heap ! t) = WAITING \<or> uploadStatus (heap ! t) = DATA_UPLOADING
          then heap[t := (heap ! t)\<lparr>uploadStatus := CANCELED\<rparr>] else heap)"

section \<open>Queues keep the order\<close>

text \<open>What the threads rely on: tasks come out in the order in which they were put in.\<close>

locale fifo =
  fixes items :: "'q \<Rightarrow> 'a list"
    and enq :: "'a \<Rightarrow> 'q \<Rightarrow> 'q outcome"
    and deq :: "'q \<Rightarrow> 'a option \<times> 'q"
  assumes enq_items: "enq x q = Ok q' \<Longrightarrow> items q' = items q @ [x]"
    and deq_items: "deq q = (r, q') \<Longrightarrow> (case items q of [] \<Rightarrow> r = None \<and> items q' = [] | x # xs \<Rightarrow> r = Some x \<and> items q' = xs)"
begin

fun enq_all :: "'a list \<Rightarrow> 'q \<Rightarrow> 'q outcome" where
  "enq_all [] q = Ok q"
| "enq_all (x # xs) q = bindO (enq x q) (enq_all xs)"

fun deq_n :: "nat \<Rightarrow> 'q \<Rightarrow> 'a option list \<times> 'q" where
  "deq_n 0 q = ([], q)"
| "deq_n (Suc n) q = (let (r, q') = deq q; (rs, q'') = deq_n n q' in (r # rs, q''))"

lemma enq_all_items: "enq_all xs q = Ok q' \<Longrightarrow> items q' = items q @ xs"
  by (induction xs arbitrary: q) (auto simp: outcome_simps dest!: enq_items)

lemma deq_n_items: "n \<le> length (items q) \<Longrightarrow> fst (deq_n n q) = map Some (take n (items q)) \<and> items (snd (deq_n n q)) = drop n (items q)"
proof (induction n arbitrary: q)
  case (Suc n)
  obtain r q1 where d: "deq q = (r, q1)" by fastforce
  obtain x xs where x: "items q = x # xs" using Suc.prems by (cases "items q") auto
  with deq_items [OF d] have "r = Some x" "items q1 = xs" by simp_all
  with Suc.IH [of q1] Suc.prems x d show ?case by (auto simp: case_prod_beta)
qed simp

lemma fifo_order: "enq_all xs q = Ok q' \<Longrightarrow> items q = [] \<Longrightarrow> fst (deq_n (length xs) q') = map Some xs"
  using enq_all_items [of xs q q'] deq_n_items [of "length xs" q'] by simp

end

text \<open>A queue with the tasks it points to.\<close>

definition que_push :: "que_name \<Rightarrow> nat \<Rightarrow> UploadTask list \<times> UploadQueue \<Rightarrow> (UploadTask list \<times> UploadQueue) outcome" where
  "que_push n t s = push_back n t (fst s) (snd s)"

definition que_pop :: "UploadTask list \<times> UploadQueue \<Rightarrow> nat option \<times> (UploadTask list \<times> UploadQueue)" where
  "que_pop s = (let (r, q) = pop_front (snd s) in (r, (fst s, q)))"

interpretation uq: fifo "uq_que \<circ> snd" "que_push n" que_pop for n
proof
  show "que_push n x q = Ok q' \<Longrightarrow> (uq_que \<circ> snd) q' = (uq_que \<circ> snd) q @ [x]" for x q q'
    by (auto simp: que_push_def push_back_def Let_def split: if_splits)
  show "que_pop q = (r, q') \<Longrightarrow>
      (case (uq_que \<circ> snd) q of [] \<Rightarrow> r = None \<and> (uq_que \<circ> snd) q' = [] | x # xs \<Rightarrow> r = Some x \<and> (uq_que \<circ> snd) q' = xs)" for q r q'
    by (cases "uq_que (snd q)") (auto simp: que_pop_def pop_front_def)
qed

definition sizes :: "UploadTask list \<Rightarrow> nat list \<Rightarrow> u64" where
  "sizes heap ts = sum_list (map (\<lambda>t. ut_size (heap ! t)) ts)"

lemma until_size_prefix:
  assumes "until_size heap limit acc ts = (ret, rest)"
  shows "ret @ rest = ts \<and> (ret \<noteq> [] \<longrightarrow> acc + sizes heap ret < limit) \<and>
    (case rest of [] \<Rightarrow> True | t # _ \<Rightarrow> \<not> acc + sizes heap ret + ut_size (heap ! t) < limit)"
  using assms
proof (induction heap limit acc ts arbitrary: ret rest rule: until_size.induct)
  case (2 heap limit acc t ts)
  show ?case
  proof (cases "acc + ut_size (heap ! t) < limit")
    case True
    obtain r where r: "until_size heap limit (acc + ut_size (heap ! t)) ts = (r, rest)" "ret = t # r"
      using "2.prems" True by (auto split: prod.splits)
    from "2.IH" [OF True r(1)] r(2) True show ?thesis
      by (cases r) (auto simp: sizes_def add.assoc split: list.splits)
  next
    case False
    with "2.prems" show ?thesis by (auto simp: sizes_def)
  qed
qed (simp add: sizes_def)

lemma get_until_size_prefix:
  assumes "get_until_size heap limit q = (batch, q')"
  shows "batch @ uq_que q' = uq_que q" "batch \<noteq> [] \<Longrightarrow> sizes heap batch < limit" "uq_map q' = uq_map q"
    "uq_que q' = t # ts \<Longrightarrow> \<not> sizes heap batch + ut_size (heap ! t) < limit"
proof -
  have u: "until_size heap limit 0 (uq_que q) = (batch, uq_que q')" "uq_map q' = uq_map q"
    using assms by (auto simp: get_until_size_def split: prod.splits)
  note p = until_size_prefix [OF u(1)]
  show "batch @ uq_que q' = uq_que q" "batch \<noteq> [] \<Longrightarrow> sizes heap batch < limit" "uq_map q' = uq_map q" using p u(2) by simp_all
  show "\<not> sizes heap batch + ut_size (heap ! t) < limit" if "uq_que q' = t # ts" using p that by simp
qed

section \<open>Properties\<close>

text \<open>C21: Nothing is lost in a queue and nothing overtakes: when tasks were put into an empty queue, the batch that is taken
  out for an aggregate and what stays in the queue are, one after the other, the tasks in their order. The sizes of the
  batch add up to less than the limit, and with the next task they would not.\<close>

theorem batch_in_order:
  assumes "fifo.enq_all (que_push n) ts (heap, q) = Ok (heap', q')" "uq_que q = []"
    "get_until_size heap' limit q' = (batch, q'')"
  shows "batch @ uq_que q'' = ts \<and> (batch \<noteq> [] \<longrightarrow> sizes heap' batch < limit) \<and>
    (\<forall>t rest. uq_que q'' = t # rest \<longrightarrow> \<not> sizes heap' batch + ut_size (heap' ! t) < limit)"
  using uq.enq_all_items [OF assms(1)] assms(2) get_until_size_prefix [OF assms(3)] by auto

definition demo_task :: "string \<Rightarrow> u64 \<Rightarrow> UploadTask" where
  "demo_task p n = \<lparr>ut_local = p, ut_remote = p, ut_size = n, ut_storage = ''RE<2,1>'', uploadStatus = WAITING, belong_que = SmallQue\<rparr>"

theorem batch_in_order_witness:
  "\<exists>heap' q' q''. fifo.enq_all (que_push SmallQue) [0, 1, 2] ([demo_task ''/a'' 3, demo_task ''/b'' 4, demo_task ''/c'' 5], new_UploadQueue 9) =
      Ok (heap', q') \<and> get_until_size heap' 9 q' = ([0, 1], q'') \<and> [0, 1] @ uq_que q'' = [0, 1, 2]"
proof -
  let ?h = "[demo_task ''/a'' 3, demo_task ''/b'' 4, demo_task ''/c'' 5]"
  let ?q = "new_UploadQueue 9"
  obtain heap' q' where e: "fifo.enq_all (que_push SmallQue) [0, 1, 2] (?h, ?q) = Ok (heap', q')" "heap' = ?h"
    by (simp add: uq.enq_all.simps que_push_def push_back_def new_UploadQueue_def Let_def demo_task_def)
  obtain batch q'' where g: "get_until_size heap' 9 q' = (batch, q'')" by fastforce
  have "uq_que q' = [0, 1, 2]" using uq.enq_all_items [OF e(1)] by (simp add: new_UploadQueue_def)
  with g e(2) have "batch = [0, 1]" by (simp add: get_until_size_def demo_task_def)
  with batch_in_order [OF e(1) _ g] e g show ?thesis by (auto simp: new_UploadQueue_def)
qed

end
