(* ===== verification/Sdk_Session.thy ===== *)
theory Sdk_Session
  imports Namenodes Sdk_Writes Path_Locks Upload_Queues Cluster
begin

unbundle bit_operations_syntax

text \<open>
  The client library as a whole: the class \<open>SDK\<close> of \<^verbatim>\<open>src/client/sdk.cpp\<close> and the parts of \<open>DataRetrive\<close>
  (\<^verbatim>\<open>include/common/data_retrive.hpp\<close>) that talk to the name node.

  \<open>sdk\<close> is the state of a client together with what it reaches: the name nodes, as the remote calls change them, and the
  disks of the data nodes. An operation takes a state and gives a result and the new state; \<open>None\<close> is an operation that has
  not returned (it waits for a lock, or for a data node). What happens around an operation is the record \<open>sdk_env\<close>:
  \<open>se_rpc\<close> is one remote call to a name node, and the other fields say what the local files, the data nodes and the
  stream calls do. \<open>sdk_env\<close> extends the JSON library.
\<close>

section \<open>Computations\<close>

type_synonym ('s, 'a) act = "'s \<Rightarrow> ('a outcome \<times> 's) option"

definition retM :: "'a outcome \<Rightarrow> ('s, 'a) act" where
  "retM r s = Some (r, s)"

definition bindM :: "('s, 'a) act \<Rightarrow> ('a \<Rightarrow> ('s, 'b) act) \<Rightarrow> ('s, 'b) act" where
  "bindM m f s =
     (case m s of
        None \<Rightarrow> None
      | Some (Ok x, s') \<Rightarrow> f x s'
      | Some (Throw e, s') \<Rightarrow> Some (Throw e, s')
      | Some (Abort a, s') \<Rightarrow> Some (Abort a, s'))"

definition updM :: "('s \<Rightarrow> 's) \<Rightarrow> ('s, unit) act" where
  "updM f s = Some (Ok (), f s)"

definition whenM :: "bool \<Rightarrow> ('s, unit) act \<Rightarrow> ('s, unit) act" where
  "whenM c m = (if c then m else retM (Ok ()))"

text \<open>\<^verbatim>\<open>try { m } catch (...) { h }\<close>\<close>

definition catchM :: "('s, 'a) act \<Rightarrow> (exn \<Rightarrow> ('s, 'a) act) \<Rightarrow> ('s, 'a) act" where
  "catchM m h s = (case m s of Some (Throw e, s') \<Rightarrow> h e s' | r \<Rightarrow> r)"

section \<open>Remote calls\<close>

datatype 'a rpc_result = RpcFailed string | Reply Response 'a

text \<open>\<open>check_response\<close> and the data of the response. A response that failed without a message has the default one.\<close>

fun check_response :: "'a rpc_result \<Rightarrow> 'a outcome" where
  "check_response (RpcFailed txt) = Throw (RuntimeError (''brpc not success: '' @ txt))"
| "check_response (Reply response data) =
     (if success response then Ok data
      else case fail_info response of
             Some (code, msg) \<Rightarrow> Throw (MessageException code msg)
           | None \<Rightarrow> Throw (MessageException COMMON_EXCEPTION []))"

text \<open>\<open>RETRY_WITH_CONDITION\<close> around a call that changes the other side: three attempts. The controller is used again as
  it is; what the RPC library does with it is up to \<open>f\<close>.\<close>

fun retry_call :: "nat \<Rightarrow> ('n \<Rightarrow> 'a rpc_result \<times> 'n) \<Rightarrow> 'n \<Rightarrow> 'a rpc_result \<times> 'n" where
  "retry_call 0 f n = f n"
| "retry_call (Suc k) f n = (case f n of (RpcFailed txt, n') \<Rightarrow> retry_call k f n' | r \<Rightarrow> r)"

datatype stub = Master | Slave

record 'n sdk_env = json_lib +
  se_rpc :: "stub \<Rightarrow> nn_request \<Rightarrow> 'n \<Rightarrow> string rpc_result \<times> 'n"
  se_client :: client
  se_calls :: "nat \<Rightarrow> call_env"
  se_nodes :: "string list"
  se_fuel :: nat
  se_io :: "nat \<Rightarrow> bool"
  se_mkdir :: bool
  se_data_dir :: string
  se_md5 :: "string \<Rightarrow> string"

record 'n sdk =
  sdk_nn :: 'n
  sdk_cluster :: cluster
  pathlocks :: PathLocks
  remoteLocks :: "string list"
  local_inode_cache :: "path \<rightharpoonup> Inode"
  sdk_dirs :: "string \<Rightarrow> tmp_dir"

definition nn_call :: "'n sdk_env \<Rightarrow> stub \<Rightarrow> nn_request \<Rightarrow> (('n, 'z) sdk_scheme, string) act" where
  "nn_call E st req S =
     (let (r, n) = retry_call 2 (se_rpc E st req) (sdk_nn S) in Some (check_response r, S\<lparr>sdk_nn := n\<rparr>))"

abbreviation ignore :: "('s, 'a) act \<Rightarrow> ('s, unit) act" where
  "ignore m \<equiv> bindM m (\<lambda>_. retM (Ok ()))"

section \<open>Metadata\<close>

definition get_remote_inode :: "'n sdk_env \<Rightarrow> path \<Rightarrow> (('n, 'z) sdk_scheme, Inode) act" where
  "get_remote_inode E dst = bindM (nn_call E Slave (Ls dst)) (\<lambda>text. retM (Inode_of_text E text))"

definition sdk_ls :: "'n sdk_env \<Rightarrow> path \<Rightarrow> (('n, 'z) sdk_scheme, Inode) act" where
  "sdk_ls E p = get_remote_inode E p"

definition sdk_mkdir :: "'n sdk_env \<Rightarrow> path \<Rightarrow> (('n, 'z) sdk_scheme, unit) act" where
  "sdk_mkdir E dst = ignore (nn_call E Master (Mkdir dst))"

definition sdk_rm :: "'n sdk_env \<Rightarrow> path \<Rightarrow> (('n, 'z) sdk_scheme, unit) act" where
  "sdk_rm E dst = ignore (nn_call E Master (Rm dst))"

definition guess_storage_type :: string where
  "guess_storage_type = ''RS<7,5,16>''"

text \<open>Which data nodes there are; \<open>dn_call\<close> is one call of \<^verbatim>\<open>get_datanodes\<close>, \<open>n\<close> counts the attempts.\<close>

definition call_checked :: "(nat \<Rightarrow> 'a rpc_result) \<Rightarrow> 'a outcome" where
  "call_checked call = check_response (fst (retry_call 2 (\<lambda>n. (call n, Suc n)) 0))"

definition get_datanodes :: "(nat \<Rightarrow> string list rpc_result) \<Rightarrow> string list outcome" where
  "get_datanodes dn_call = call_checked dn_call"

definition sdk_online_datanodes :: "net \<Rightarrow> (nat \<Rightarrow> string list rpc_result) \<Rightarrow> string list outcome" where
  "sdk_online_datanodes W dn_call = bindO (get_datanodes dn_call) (get_online_datanodes W)"

definition tmp_key :: "'n sdk_env \<Rightarrow> path \<Rightarrow> string" where
  "tmp_key E p = get_tmp_path (se_data_dir E) (se_md5 E) p"

definition set_dir :: "'n sdk_env \<Rightarrow> path \<Rightarrow> tmp_dir \<Rightarrow> ('n, 'z) sdk_scheme \<Rightarrow> ('n, 'z) sdk_scheme" where
  "set_dir E p td S = S\<lparr>sdk_dirs := (sdk_dirs S)(tmp_key E p := td)\<rparr>"

definition sdk_update_inode :: "'n sdk_env \<Rightarrow> path \<Rightarrow> (('n, 'z) sdk_scheme, unit) act" where
  "sdk_update_inode E p =
     bindM (get_remote_inode E p) (\<lambda>remote.
     updM (\<lambda>S. let (cached, td) = update_inode (local_inode_cache S p) remote (sdk_dirs S (tmp_key E p))
               in set_dir E p td (S\<lparr>local_inode_cache := (local_inode_cache S)(p := cached)\<rparr>)))"

section \<open>Locks\<close>

text \<open>\<^verbatim>\<open>remoteLocks\<close> is a \<^verbatim>\<open>std::set\<close>, kept as a sorted list. A local lock that is not free is waited for.\<close>

definition lock_remote_paths :: "'n sdk_env \<Rightarrow> path list \<Rightarrow> (('n, 'z) sdk_scheme, unit) act" where
  "lock_remote_paths E paths = ignore (nn_call E Master (UpdateLock paths))"

definition lock_remote :: "'n sdk_env \<Rightarrow> path \<Rightarrow> (('n, 'z) sdk_scheme, unit) act" where
  "lock_remote E p =
     bindM (lock_remote_paths E [p]) (\<lambda>_.
     updM (\<lambda>S. S\<lparr>remoteLocks := (if p \<in> set (remoteLocks S) then remoteLocks S else insort p (remoteLocks S))\<rparr>))"

definition unlock_remote :: "path \<Rightarrow> (('n, 'z) sdk_scheme, unit) act" where
  "unlock_remote p = updM (\<lambda>S. S\<lparr>remoteLocks := removeAll p (remoteLocks S)\<rparr>)"

definition take_lock :: "(PathLocks \<Rightarrow> bool \<times> PathLocks) \<Rightarrow> (('n, 'z) sdk_scheme, unit) act" where
  "take_lock f S = (case f (pathlocks S) of (True, l) \<Rightarrow> Some (Ok (), S\<lparr>pathlocks := l\<rparr>) | (False, l) \<Rightarrow> None)"

definition sdk_read_lock :: "'n sdk_env \<Rightarrow> path \<Rightarrow> (('n, 'z) sdk_scheme, unit) act" where
  "sdk_read_lock E dst = take_lock (PathLocks_read_lock (tmp_key E dst))"

definition sdk_write_lock :: "'n sdk_env \<Rightarrow> path \<Rightarrow> (('n, 'z) sdk_scheme, unit) act" where
  "sdk_write_lock E dst =
     bindM (take_lock (PathLocks_write_lock (tmp_key E dst))) (\<lambda>_. lock_remote E dst)"

definition sdk_unlock :: "'n sdk_env \<Rightarrow> path \<Rightarrow> (('n, 'z) sdk_scheme, unit) act" where
  "sdk_unlock E dst =
     bindM (unlock_remote dst) (\<lambda>_ S.
       case PathLocks_unlock (tmp_key E dst) (pathlocks S) of
         Ok l \<Rightarrow> Some (Ok (), S\<lparr>pathlocks := l\<rparr>)
       | Throw e \<Rightarrow> Some (Throw e, S)
       | Abort a \<Rightarrow> Some (Abort a, S))"

text \<open>What the timer does with the locks that are held: four attempts, then the process ends with the exception.\<close>

fun refresh_loop :: "nat \<Rightarrow> 'n sdk_env \<Rightarrow> (('n, 'z) sdk_scheme, unit) act" where
  "refresh_loop 0 E = (\<lambda>S. lock_remote_paths E (remoteLocks S) S)"
| "refresh_loop (Suc k) E = catchM (\<lambda>S. lock_remote_paths E (remoteLocks S) S) (\<lambda>e. refresh_loop k E)"

definition refresh_locks :: "'n sdk_env \<Rightarrow> (('n, 'z) sdk_scheme, unit) act" where
  "refresh_locks E S =
     (if remoteLocks S = [] then Some (Ok (), S)
      else case refresh_loop 3 E S of
             Some (r, S') \<Rightarrow> Some (thread_result r, S')
           | None \<Rightarrow> None)"

section \<open>Uploading a file\<close>

text \<open>The constructor of \<open>DataRetrive\<close>. Mapping zero bytes is an error, so an empty file cannot be opened.\<close>

definition open_local :: "string option \<Rightarrow> string \<Rightarrow> (StorageType \<times> string) outcome" where
  "open_local local_file storage_type =
     bindO (StorageType_from_string storage_type) (\<lambda>st.
       case local_file of
         None \<Rightarrow> Throw (RuntimeError ''open file error'')
       | Some content \<Rightarrow>
           if content = [] then Throw (RuntimeError ''Failed to create anonymous mmap'') else Ok (st, content))"

text \<open>Both catch every exception.\<close>

definition namenode_put :: "'n sdk_env \<Rightarrow> StorageType \<Rightarrow> path \<Rightarrow> (('n, 'z) sdk_scheme, unit) act" where
  "namenode_put E st p = catchM (ignore (nn_call E Master (Put p (StorageType_to_string st)))) (\<lambda>_. retM (Ok ()))"

definition namenode_putok :: "'n sdk_env \<Rightarrow> path \<Rightarrow> nat \<Rightarrow> string list \<Rightarrow> (('n, 'z) sdk_scheme, unit) act" where
  "namenode_putok E p sz subs =
     catchM (bindM (unlock_remote p) (\<lambda>_. ignore (nn_call E Master (PutOk (p, subs, of_nat sz))))) (\<lambda>_. retM (Ok ()))"

definition sdk_datanode_put :: "'n sdk_env \<Rightarrow> StorageType \<Rightarrow> string list list \<Rightarrow> (('n, 'z) sdk_scheme, string list) act" where
  "sdk_datanode_put E st encoded S =
     map_option (\<lambda>(r, s). (r, S\<lparr>sdk_cluster := pl_cluster s\<rparr>))
       (datanode_put (se_fuel E) (se_client E) st (se_calls E) (se_nodes E) encoded
          \<lparr>pl_index = 0, pl_succ = 0, pl_fail = 0, pl_hashs = [], pl_cluster = sdk_cluster S, pl_calls = 0\<rparr>)"

text \<open>\<open>SDK::put\<close>. \<open>mark\<close> is what setting the state of the task does: with a null queue it stops the process.\<close>

definition sdk_put ::
  "'n sdk_env \<Rightarrow> (UploadStatus \<Rightarrow> (('n, 'z) sdk_scheme, unit) act) \<Rightarrow> string option \<Rightarrow> path \<Rightarrow> string \<Rightarrow> (('n, 'z) sdk_scheme, unit) act" where
  "sdk_put E mark local_file remote_path storage_type =
     bindM (retM (open_local local_file storage_type)) (\<lambda>(st, content).
     bindM (namenode_put E st remote_path) (\<lambda>_.
     bindM (retM (encode_content (se_client E) st content)) (\<lambda>encoded.
     bindM (lock_remote_paths E [remote_path]) (\<lambda>_.
     bindM (mark DATA_UPLOADING) (\<lambda>_.
     bindM (sdk_datanode_put E st encoded) (\<lambda>sub_res.
     bindM (mark META_UPLOADING) (\<lambda>_.
     bindM (namenode_putok E remote_path (length content) sub_res) (\<lambda>_.
     mark FINISHED))))))))"

section \<open>Open files\<close>

text \<open>The new file is an empty local file, and its task belongs to no queue. \<open>se_mkdir\<close>: the directory for local files is there.\<close>

definition no_queue :: "UploadStatus \<Rightarrow> (('n, 'z) sdk_scheme, unit) act" where
  "no_queue st = retM (Abort ''change_status of a null queue'')"

definition create_file :: "'n sdk_env \<Rightarrow> path \<Rightarrow> (('n, 'z) sdk_scheme, unit) act" where
  "create_file E p =
     (if se_mkdir E then sdk_put E no_queue (Some []) p guess_storage_type
      else retM (Throw (RuntimeError ''filesystem_error'')))"

definition mkdir_f :: "'n sdk_env \<Rightarrow> (('n, 'z) sdk_scheme, unit) act" where
  "mkdir_f E = retM (guardO (se_mkdir E) (RuntimeError ''mkdir error''))"

definition cached_inode :: "path \<Rightarrow> (('n, 'z) sdk_scheme, Inode) act" where
  "cached_inode p S = Some (get_inode_cached (local_inode_cache S p), S)"

text \<open>The texts of the first blocks; reading past the end of \<^verbatim>\<open>sub\<close> is undefined.\<close>

definition first_subs :: "Inode \<Rightarrow> u64 \<Rightarrow> string list outcome" where
  "first_subs inode sz =
     (let bs = Inode_block_size inode
      in if bs = 0 then Abort ''division by zero''
         else let n = nat (align_up (to_int32 (uint sz)) bs)
              in if n \<le> length (sub inode) then Ok (take n (sub inode)) else Abort ''sub[i] out of range'')"

definition truncate_file :: "'n sdk_env \<Rightarrow> path \<Rightarrow> u64 \<Rightarrow> (('n, 'z) sdk_scheme, unit) act" where
  "truncate_file E dst sz =
     bindM (cached_inode dst) (\<lambda>inode.
       if filesize inode = sz then retM (Ok ())
       else
         bindM (retM (first_subs inode sz)) (\<lambda>subs.
         bindM (nn_call E Master (PutOk (dst, subs, sz))) (\<lambda>_.
         sdk_unlock E dst)))"

text \<open>The flags of \<^verbatim>\<open>fcntl.h\<close> on Linux.\<close>

definition O_ACCMODE :: "32 word" where "O_ACCMODE = 3"
definition O_RDONLY :: "32 word" where "O_RDONLY = 0"
definition O_WRONLY :: "32 word" where "O_WRONLY = 1"
definition O_CREAT :: "32 word" where "O_CREAT = 64"
definition O_TRUNC :: "32 word" where "O_TRUNC = 512"

definition sdk_open :: "'n sdk_env \<Rightarrow> path \<Rightarrow> 32 word \<Rightarrow> (('n, 'z) sdk_scheme, unit) act" where
  "sdk_open E p flags =
     bindM (whenM (flags AND O_CREAT \<noteq> 0) (create_file E p)) (\<lambda>_.
     bindM (mkdir_f E) (\<lambda>_.
     bindM (if flags AND O_ACCMODE \<noteq> O_RDONLY
            then bindM (sdk_write_lock E p) (\<lambda>_.
                 bindM (mkdir_f E) (\<lambda>_.
                 updM (\<lambda>S. set_dir E p ((sdk_dirs S (tmp_key E p))\<lparr>td_has_write := True, td_write := []\<rparr>) S)))
            else sdk_read_lock E p) (\<lambda>_.
     bindM (sdk_update_inode E p) (\<lambda>_.
     whenM (flags AND O_TRUNC \<noteq> 0) (truncate_file E p 0)))))"

definition sdk_create :: "'n sdk_env \<Rightarrow> path \<Rightarrow> (('n, 'z) sdk_scheme, unit) act" where
  "sdk_create E p = sdk_open E p (O_WRONLY OR O_CREAT)"

definition sdk_truncate :: "'n sdk_env \<Rightarrow> path \<Rightarrow> u64 \<Rightarrow> (('n, 'z) sdk_scheme, unit) act" where
  "sdk_truncate E dst sz = bindM (sdk_open E dst (O_WRONLY OR O_TRUNC)) (\<lambda>_. sdk_unlock E dst)"

text \<open>An action on the directory of a path.\<close>

definition with_dir :: "'n sdk_env \<Rightarrow> path \<Rightarrow> (('n, 'z) sdk_scheme \<Rightarrow> tmp_dir \<Rightarrow> ('a outcome \<times> tmp_dir) option) \<Rightarrow> (('n, 'z) sdk_scheme, 'a) act" where
  "with_dir E p f S = map_option (\<lambda>(r, td). (r, set_dir E p td S)) (f S (sdk_dirs S (tmp_key E p)))"

definition sdk_read_data :: "'n sdk_env \<Rightarrow> path \<Rightarrow> u64 \<Rightarrow> u64 \<Rightarrow> (('n, 'z) sdk_scheme, string) act" where
  "sdk_read_data E p offset sz =
     with_dir E p (\<lambda>S. read_data (se_client E) (se_calls E) (sdk_cluster S) (se_io E) (local_inode_cache S p) offset sz)"

definition sdk_write_data :: "'n sdk_env \<Rightarrow> path \<Rightarrow> u64 \<Rightarrow> string \<Rightarrow> (('n, 'z) sdk_scheme, unit) act" where
  "sdk_write_data E p offset s =
     with_dir E p (\<lambda>S. write_data (se_client E) (se_calls E) (sdk_cluster S) (se_io E) (local_inode_cache S p) offset s)"

definition sdk_fsync :: "'n sdk_env \<Rightarrow> path \<Rightarrow> (('n, 'z) sdk_scheme, unit) act" where
  "sdk_fsync E dst =
     bindM (\<lambda>S. map_option (\<lambda>(r, td, cl). (r, set_dir E dst td (S\<lparr>sdk_cluster := cl\<rparr>)))
              (fsync (se_fuel E) (se_client E) (se_calls E) (se_nodes E) (sdk_cluster S) (local_inode_cache S dst)
                 (sdk_dirs S (tmp_key E dst)))) (\<lambda>req.
       case req of
         None \<Rightarrow> retM (Ok ())
       | Some (subs, sz) \<Rightarrow> ignore (nn_call E Master (PutOk (dst, subs, sz))))"

definition sdk_close :: "'n sdk_env \<Rightarrow> path \<Rightarrow> (('n, 'z) sdk_scheme, unit) act" where
  "sdk_close E dst =
     bindM (sdk_fsync E dst) (\<lambda>_.
     bindM (updM (\<lambda>S. S\<lparr>local_inode_cache := (local_inode_cache S)(dst := None)\<rparr>)) (\<lambda>_.
     sdk_unlock E dst))"

text \<open>\<open>SDK::get\<close>: the contents of the local file.\<close>

definition sdk_download :: "'n sdk_env \<Rightarrow> bool \<Rightarrow> path \<Rightarrow> (('n, 'z) sdk_scheme, string) act" where
  "sdk_download E dst_open src =
     bindM (get_remote_inode E src) (\<lambda>inode S.
       map_option (\<lambda>r. (r, S)) (sdk_get (se_client E) (se_calls E) (sdk_cluster S) dst_open inode))"

section \<open>The constructor\<close>

text \<open>How a client finds its name nodes. \<open>pick n\<close> is \<^verbatim>\<open>rand() % n\<close>; the remainder by zero stops the process. \<open>dn_call\<close> and
  \<open>master_of\<close> are the calls of \<^verbatim>\<open>get_namenodes\<close> and \<^verbatim>\<open>get_master\<close>, by attempt; \<open>init_ok\<close> is the result of \<^verbatim>\<open>Channel::Init\<close>.
  The result has the addresses of the master and of the slave.\<close>

definition get_slave_namenode :: "(nat \<Rightarrow> nat) \<Rightarrow> string list \<Rightarrow> string outcome" where
  "get_slave_namenode pick namenodes =
     (if namenodes = [] then Abort ''rand() % 0'' else Ok (namenodes ! (pick (length namenodes) mod length namenodes)))"

definition new_SDK ::
  "(nat \<Rightarrow> nat) \<Rightarrow> (string \<Rightarrow> bool) \<Rightarrow> (nat \<Rightarrow> string list rpc_result) \<Rightarrow> (string \<Rightarrow> nat \<Rightarrow> string rpc_result) \<Rightarrow> string
     \<Rightarrow> (string \<times> string) outcome" where
  "new_SDK pick init_ok dn_call master_of namenode =
     bindO (call_checked dn_call) (\<lambda>namenodes.
     bindO (if namenode = [] then get_slave_namenode pick namenodes else Ok namenode) (\<lambda>slave.
     bindO (guardO (init_ok slave) (RuntimeError ''namenode master channel init failed'')) (\<lambda>_.
     bindO (call_checked (master_of slave)) (\<lambda>master.
     bindO (guardO (init_ok master) (RuntimeError ''namenode_master channel init failed'')) (\<lambda>_.
     if master = slave then
       bindO (get_slave_namenode pick (removeAll slave namenodes)) (\<lambda>slave'.
       bindO (guardO (init_ok slave') (RuntimeError ''namenode_slave channel init failed'')) (\<lambda>_. Ok (master, slave')))
     else Ok (master, slave))))))"

section \<open>Running computations\<close>

lemma bindM_simps [simp]:
  "m s = Some (Ok x, s') \<Longrightarrow> bindM m f s = f x s'"
  "m s = Some (Throw e, s') \<Longrightarrow> bindM m f s = Some (Throw e, s')"
  "m s = Some (Abort a, s') \<Longrightarrow> bindM m f s = Some (Abort a, s')"
  "m s = None \<Longrightarrow> bindM m f s = None"
  by (simp_all add: bindM_def)

lemma retM_simps [simp]: "retM r s = Some (r, s)" "updM g s = Some (Ok (), g s)"
  by (simp_all add: retM_def updM_def)

lemma bindM_retM [simp]: "bindM (retM (Ok x)) f s = f x s" "bindM (updM g) h s = h () (g s)"
  by (simp_all add: bindM_def)

lemma catchM_Ok [simp]: "m s = Some (Ok x, s') \<Longrightarrow> catchM m h s = Some (Ok x, s')"
  by (simp add: catchM_def)

lemma catchM_Throw [simp]: "m s = Some (Throw e, s') \<Longrightarrow> catchM m h s = h e s'"
  by (simp add: catchM_def)

lemma nn_call_reply:
  assumes "se_rpc E st req (sdk_nn S) = (Reply r d, n)"
  shows "nn_call E st req S = Some (if success r then Ok d else case fail_info r of
      Some (code, msg) \<Rightarrow> Throw (MessageException code msg) | None \<Rightarrow> Throw (MessageException COMMON_EXCEPTION []), S\<lparr>sdk_nn := n\<rparr>)"
  using assms by (simp add: nn_call_def numeral_2_eq_2 split: option.splits)

lemma ignore_reply:
  assumes "se_rpc E st req (sdk_nn S) = (Reply r d, n)"
  shows "success r \<Longrightarrow> ignore (nn_call E st req) S = Some (Ok (), S\<lparr>sdk_nn := n\<rparr>)"
    "\<not> success r \<Longrightarrow> \<exists>c m. ignore (nn_call E st req) S = Some (Throw (MessageException c m), S\<lparr>sdk_nn := n\<rparr>)"
  using nn_call_reply [OF assms] by (auto split: option.splits prod.splits)

named_theorems act_simps \<open>inversion of computations that return\<close>

lemma bindM_Ok_iff [act_simps]:
  "bindM m f s = Some (Ok y, s'') \<longleftrightarrow> (\<exists>x s'. m s = Some (Ok x, s') \<and> f x s' = Some (Ok y, s''))"
  by (auto simp: bindM_def split: option.splits outcome.splits)

lemma bindM_OkE:
  assumes "bindM m f s = Some (Ok y, s'')"
  obtains x s' where "m s = Some (Ok x, s')" "f x s' = Some (Ok y, s'')"
  using assms by (auto simp: bindM_Ok_iff)

lemma retM_Ok_iff [act_simps]: "retM r s = Some (Ok y, s') \<longleftrightarrow> r = Ok y \<and> s' = s" "updM g s = Some (Ok (), s') \<longleftrightarrow> s' = g s"
  by auto

lemma whenM_simps [simp]: "whenM True m = m" "whenM False m = retM (Ok ())"
  by (simp_all add: whenM_def)

text \<open>What a computation leaves alone.\<close>

definition keeps :: "('s \<Rightarrow> 'b) \<Rightarrow> ('s, 'a) act \<Rightarrow> bool" where
  "keeps g m \<longleftrightarrow> (\<forall>s r s'. m s = Some (r, s') \<longrightarrow> g s' = g s)"

lemma keepsD: "keeps g m \<Longrightarrow> m s = Some (r, s') \<Longrightarrow> g s' = g s"
  by (simp add: keeps_def)

lemma keeps_bindM [intro]: "keeps g m \<Longrightarrow> (\<And>x. keeps g (f x)) \<Longrightarrow> keeps g (bindM m f)"
  unfolding keeps_def bindM_def by (fastforce split: option.splits outcome.splits)

lemma keeps_retM [simp]: "keeps g (retM r)" "keeps g (updM h) \<longleftrightarrow> (\<forall>s. g (h s) = g s)"
  by (auto simp: keeps_def)

lemma keeps_nn_call [simp]:
  "keeps pathlocks (nn_call E st req)" "keeps remoteLocks (nn_call E st req)" "keeps local_inode_cache (nn_call E st req)"
  by (auto simp: keeps_def nn_call_def split: prod.splits)

lemma keeps_fsync: "keeps pathlocks (sdk_fsync E dst)"
  unfolding sdk_fsync_def
proof (rule keeps_bindM)
  show "keeps pathlocks (case req of None \<Rightarrow> retM (Ok ()) | Some (subs, sz) \<Rightarrow> ignore (nn_call E Master (PutOk (dst, subs, sz))))" for req
    by (cases req) (auto intro!: keeps_bindM)
qed (auto simp: keeps_def set_dir_def)

section \<open>Properties\<close>

text \<open>Files cannot be created. Opening with \<^verbatim>\<open>O_CREAT\<close> uploads an empty local file, and mapping an empty file fails: the call
  always ends with an exception, before anything was sent, and the state is as before.\<close>

theorem open_create_fails:
  assumes "flags AND O_CREAT \<noteq> 0"
  shows "\<exists>msg. sdk_open E p flags S = Some (Throw (RuntimeError msg), S)"
proof -
  have "StorageType_from_string guess_storage_type = Ok (RSStorageType 7 5 16)" by code_simp
  then have "create_file E p S = Some (Throw (RuntimeError (if se_mkdir E then ''Failed to create anonymous mmap'' else ''filesystem_error'')), S)"
    by (simp add: create_file_def sdk_put_def open_local_def)
  then show ?thesis using assms by (simp add: sdk_open_def)
qed

definition demo_sdk :: "'n \<Rightarrow> 'n sdk" where
  "demo_sdk n = \<lparr>sdk_nn = n, sdk_cluster = (\<lambda>a. Map.empty), pathlocks = Map.empty, remoteLocks = [], local_inode_cache = Map.empty,
     sdk_dirs = (\<lambda>d. empty_dir)\<rparr>"

definition demo_rpc :: "stub \<Rightarrow> nn_request \<Rightarrow> Inode \<Rightarrow> string rpc_result \<times> Inode" where
  "demo_rpc st req i =
     (case req of
        Ls p \<Rightarrow> (Reply (succ_response new_Response) (Inode_value tiny_json i), i)
      | _ \<Rightarrow> (Reply (succ_response new_Response) [], i))"

definition demo_session :: "Inode sdk_env" where
  "demo_session = \<lparr>jdump = jdump tiny_json, jparse = jparse tiny_json, se_rpc = demo_rpc,
     se_client = demo_client ''x'', se_calls = (\<lambda>n. demo_call 9), se_nodes = [''n:1''], se_fuel = 2,
     se_io = (\<lambda>i. True), se_mkdir = True, se_data_dir = ''/tmp'', se_md5 = id\<rparr>"

theorem open_create_fails_witness:
  "\<exists>msg. sdk_open demo_session ''/f'' (O_WRONLY OR O_CREAT) (demo_sdk demo_inode) = Some (Throw (RuntimeError msg), demo_sdk demo_inode)"
  by (rule open_create_fails) (simp add: O_WRONLY_def O_CREAT_def)

lemma sdk_open_trunc:
  assumes "sdk_open E dst (O_WRONLY OR O_TRUNC) S = Some (Ok (), S')"
  obtains S1 S2 where "sdk_write_lock E dst S = Some (Ok (), S1)" "pathlocks S2 = pathlocks S1" "remoteLocks S2 = remoteLocks S1"
    "truncate_file E dst 0 S2 = Some (Ok (), S')"
proof -
  have f: "(O_WRONLY OR O_TRUNC) AND O_CREAT = 0" "(O_WRONLY OR O_TRUNC) AND O_ACCMODE \<noteq> O_RDONLY" "(O_WRONLY OR O_TRUNC) AND O_TRUNC \<noteq> 0"
    by (simp_all add: O_WRONLY_def O_TRUNC_def O_CREAT_def O_ACCMODE_def O_RDONLY_def)
  obtain S1 S2 td where s: "sdk_write_lock E dst S = Some (Ok (), S1)"
    "sdk_update_inode E dst (set_dir E dst td S1) = Some (Ok (), S2)" "truncate_file E dst 0 S2 = Some (Ok (), S')"
    using assms f by (auto simp: sdk_open_def mkdir_f_def act_simps guardO_def split: if_splits)
  have k: "keeps pathlocks (sdk_update_inode E dst)" "keeps remoteLocks (sdk_update_inode E dst)"
    unfolding sdk_update_inode_def get_remote_inode_def
    by (intro keeps_bindM; simp add: set_dir_def Let_def split: prod.splits)+
  have "pathlocks S2 = pathlocks S1" "remoteLocks S2 = remoteLocks S1"
    using keepsD [OF k(1) s(2)] keepsD [OF k(2) s(2)] by (simp_all add: set_dir_def)
  with that s show thesis by blast
qed

lemma write_lock_fresh:
  assumes "sdk_write_lock E dst S = Some (Ok (), S1)" "pathlocks S (tmp_key E dst) = None"
  shows "pathlocks S1 (tmp_key E dst) = Some \<lparr>for_write = True, mutex = Exclusive\<rparr>"
proof -
  let ?l = "(pathlocks S)(tmp_key E dst \<mapsto> \<lparr>for_write = True, mutex = Exclusive\<rparr>)"
  have "PathLocks_write_lock (tmp_key E dst) (pathlocks S) = (True, ?l)"
    using assms(2) by (simp add: PathLocks_write_lock_def lock_entry_of_def)
  then have "lock_remote E dst (S\<lparr>pathlocks := ?l\<rparr>) = Some (Ok (), S1)"
    using assms(1) by (auto simp: sdk_write_lock_def take_lock_def act_simps)
  moreover have "keeps pathlocks (lock_remote E dst)"
    unfolding lock_remote_def lock_remote_paths_def by (intro keeps_bindM) simp_all
  ultimately show ?thesis by (auto dest: keepsD)
qed

lemma unlock_free:
  assumes "pathlocks S (tmp_key E dst) = Some \<lparr>for_write = True, mutex = Free\<rparr>"
  shows "\<exists>msg S'. sdk_unlock E dst S = Some (Abort msg, S')"
  using assms by (simp add: sdk_unlock_def unlock_remote_def PathLocks_unlock_def)

text \<open>Truncating a file that is not empty releases its lock twice. Opening it with \<^verbatim>\<open>O_TRUNC\<close> already unlocks the path, here and at
  the name node, although the file is open for writing, and keeps the old inode in the cache; the second release, by
  \<open>truncate\<close> or by the \<open>close\<close> of the open file, is undefined.\<close>

theorem truncate_unlocks_twice:
  assumes "sdk_open E dst (O_WRONLY OR O_TRUNC) S = Some (Ok (), S')" "pathlocks S (tmp_key E dst) = None"
    "local_inode_cache S' dst = Some i" "filesize i \<noteq> 0"
  shows "pathlocks S' (tmp_key E dst) = Some \<lparr>for_write = True, mutex = Free\<rparr> \<and> dst \<notin> set (remoteLocks S') \<and>
    (\<exists>msg S''. sdk_truncate E dst sz S = Some (Abort msg, S'')) \<and> \<not> (\<exists>S''. sdk_close E dst S' = Some (Ok (), S''))"
proof -
  obtain S1 S2 where o: "sdk_write_lock E dst S = Some (Ok (), S1)" "pathlocks S2 = pathlocks S1" "remoteLocks S2 = remoteLocks S1"
    "truncate_file E dst 0 S2 = Some (Ok (), S')" using sdk_open_trunc [OF assms(1)] .
  note ex = write_lock_fresh [OF o(1) assms(2)]
  have "keeps local_inode_cache (truncate_file E dst 0)"
    unfolding truncate_file_def by (auto simp: keeps_def cached_inode_def sdk_unlock_def unlock_remote_def bindM_def nn_call_def split: outcome.splits option.splits if_splits prod.splits)
  from keepsD [OF this o(4)] assms(3) have c: "local_inode_cache S2 dst = Some i" by simp
  then obtain d S3 where n: "nn_call E Master (PutOk (dst, d, 0)) S2 = Some (Ok (fst S3), snd S3)" "sdk_unlock E dst (snd S3) = Some (Ok (), S')"
    using o(4) assms(4) by (auto simp: truncate_file_def cached_inode_def get_inode_cached_def act_simps)
  have "pathlocks (snd S3) = pathlocks S1" using keepsD [OF keeps_nn_call(1) n(1)] o(2) by simp
  then have S': "pathlocks S' (tmp_key E dst) = Some \<lparr>for_write = True, mutex = Free\<rparr>" "dst \<notin> set (remoteLocks S')"
    using n(2) ex by (auto simp: sdk_unlock_def unlock_remote_def PathLocks_unlock_def)
  moreover have "\<exists>msg S''. sdk_truncate E dst sz S = Some (Abort msg, S'')"
    using unlock_free [OF S'(1)] assms(1) by (simp add: sdk_truncate_def)
  moreover have "\<not> (\<exists>S''. sdk_close E dst S' = Some (Ok (), S''))"
  proof
    assume "\<exists>S''. sdk_close E dst S' = Some (Ok (), S'')"
    then obtain S4 S'' where f: "sdk_fsync E dst S' = Some (Ok (), S4)"
      "sdk_unlock E dst (S4\<lparr>local_inode_cache := (local_inode_cache S4)(dst := None)\<rparr>) = Some (Ok (), S'')"
      by (auto simp: sdk_close_def act_simps)
    have "pathlocks (S4\<lparr>local_inode_cache := (local_inode_cache S4)(dst := None)\<rparr>) (tmp_key E dst) = Some \<lparr>for_write = True, mutex = Free\<rparr>"
      using keepsD [OF keeps_fsync f(1)] S'(1) by simp
    from unlock_free [OF this] f(2) show False by auto
  qed
  ultimately show ?thesis by blast
qed

definition demo_nonempty :: Inode where
  "demo_nonempty = demo_inode\<lparr>filesize := 3, sub := [''n:1|A''], valid := True\<rparr>"

fun opened_nonempty :: "path \<Rightarrow> (unit outcome \<times> 'n sdk) option \<Rightarrow> bool" where
  "opened_nonempty p (Some (Ok u, S)) = (case local_inode_cache S p of Some i \<Rightarrow> filesize i \<noteq> 0 | None \<Rightarrow> False)"
| "opened_nonempty p r = False"

theorem truncate_unlocks_twice_witness:
  "\<exists>msg S''. sdk_truncate demo_session ''/f'' 0 (demo_sdk demo_nonempty) = Some (Abort msg, S'')"
proof -
  let ?o = "sdk_open demo_session ''/f'' (O_WRONLY OR O_TRUNC) (demo_sdk demo_nonempty)"
  have "opened_nonempty ''/f'' ?o" by code_simp
  then obtain S' i where o: "?o = Some (Ok (), S')" "local_inode_cache S' ''/f'' = Some i" "filesize i \<noteq> 0"
    by (auto elim!: opened_nonempty.elims split: option.splits)
  have "pathlocks (demo_sdk demo_nonempty) (tmp_key demo_session ''/f'') = None" by (simp add: demo_sdk_def)
  from truncate_unlocks_twice [OF o(1) this o(2,3), of 0] show ?thesis by blast
qed

text \<open>A client needs two name nodes. When the constructor returns, the master is the node that the slave named, and the slave is
  another one; when the only name node of the cluster is its own master, the constructor divides by zero.\<close>

theorem client_needs_two_name_nodes:
  assumes "call_checked dn_call = Ok namenodes"
  shows "(new_SDK pick init_ok dn_call master_of namenode = Ok (m, sl) \<longrightarrow>
      m \<noteq> sl \<and> init_ok m \<and> init_ok sl \<and> (sl \<in> set namenodes \<or> sl = namenode)) \<and>
    (namenodes = [a] \<and> namenode = [] \<and> init_ok a \<and> call_checked (master_of a) = Ok a \<longrightarrow>
      new_SDK pick init_ok dn_call master_of namenode = Abort ''rand() % 0'')"
proof (intro conjI impI)
  have slave: "get_slave_namenode pick ns = Ok x \<Longrightarrow> x \<in> set ns" for ns x
    by (auto simp: get_slave_namenode_def split: if_splits)
  let ?slave = "if namenode = [] then get_slave_namenode pick namenodes else Ok namenode"
  assume "new_SDK pick init_ok dn_call master_of namenode = Ok (m, sl)"
  then obtain s0 where s0: "?slave = Ok s0" "init_ok s0" "init_ok m"
    "if m = s0 then get_slave_namenode pick (removeAll s0 namenodes) = Ok sl \<and> init_ok sl else sl = s0"
    by (auto simp: new_SDK_def assms outcome_simps guardO_def split: if_splits)
  have m0: "s0 \<in> set namenodes \<or> s0 = namenode" using s0(1) slave [of namenodes s0] by (auto split: if_splits)
  have "m \<noteq> sl \<and> init_ok sl \<and> (sl \<in> set namenodes \<or> sl = namenode)"
    using s0(2,4) m0 slave [of "removeAll s0 namenodes" sl] by (cases "m = s0") auto
  with s0(3) show "m \<noteq> sl" "init_ok m" "init_ok sl" "sl \<in> set namenodes \<or> sl = namenode" by simp_all
next
  assume "namenodes = [a] \<and> namenode = [] \<and> init_ok a \<and> call_checked (master_of a) = Ok a"
  then show "new_SDK pick init_ok dn_call master_of namenode = Abort ''rand() % 0''"
    by (simp add: new_SDK_def assms get_slave_namenode_def)
qed

theorem client_needs_two_name_nodes_witness:
  "new_SDK (\<lambda>n. 0) (\<lambda>a. True) (\<lambda>n. Reply (succ_response new_Response) [''n:1'']) (\<lambda>a n. Reply (succ_response new_Response) a) []
     = Abort ''rand() % 0''"
proof -
  have "call_checked (\<lambda>n. Reply (succ_response new_Response) [''n:1'']) = Ok [''n:1'']"
    "call_checked (\<lambda>n. Reply (succ_response new_Response) ''n:1'') = Ok ''n:1''"
    by code_simp+
  with client_needs_two_name_nodes [OF this(1), of "\<lambda>n. 0" "\<lambda>a. True" "\<lambda>a n. Reply (succ_response new_Response) a" "[]" _ _ "''n:1''"]
  show ?thesis by simp
qed

end
