(* ===== verification/File_Service.thy ===== *)
theory File_Service
  imports Sdk_Session Sdk_Props Namenode_Props
begin

text \<open>
  The client library together with a name node.

  \<open>file_service\<close> is what the client relies on: which answers the name node gives to the requests of an upload, and what it
  knows of a path afterwards. The lemmas of the locale follow a whole upload (\<open>SDK::put\<close>) through it. The interpretation
  \<open>nn\<close> is on the handlers of \<open>Namenodes\<close>: \<open>nn_rpc\<close> is a name node that executes one request after the other.
\<close>

section \<open>Tasks\<close>

text \<open>The state of a task is not part of the client: setting it leaves name nodes and data nodes alone.\<close>

definition harmless :: "(UploadStatus \<Rightarrow> (('n, 'z) sdk_scheme, unit) act) \<Rightarrow> bool" where
  "harmless mark \<longleftrightarrow> (\<forall>u S. \<exists>S'. mark u S = Some (Ok (), S') \<and> sdk_nn S' = sdk_nn S \<and> sdk_cluster S' = sdk_cluster S)"

lemma harmlessE:
  assumes "harmless mark"
  obtains S' where "mark u S = Some (Ok (), S')" "sdk_nn S' = sdk_nn S" "sdk_cluster S' = sdk_cluster S"
  using assms by (auto simp: harmless_def)

section \<open>What a client relies on\<close>

locale file_service =
  fixes rpc :: "stub \<Rightarrow> nn_request \<Rightarrow> 'n \<Rightarrow> string rpc_result \<times> 'n"
    and entry :: "'n \<Rightarrow> path \<Rightarrow> Inode option"
    and ready :: "'n \<Rightarrow> path \<Rightarrow> bool"
    and locked :: "'n \<Rightarrow> path \<Rightarrow> bool"
    and inode_text :: "Inode \<Rightarrow> string"
    and inode_read :: "string \<Rightarrow> Inode outcome"
  assumes lookup: "ready n p \<Longrightarrow> entry n p = Some i \<Longrightarrow> valid i \<Longrightarrow>
      \<exists>r. rpc st (Ls p) n = (Reply r (inode_text i), n) \<and> success r \<and> inode_read (inode_text i) = Ok i"
    and accept: "ready n p \<Longrightarrow> \<not> locked n p \<Longrightarrow> StorageType_from_string s = Ok t \<Longrightarrow>
      \<exists>r d n' i. rpc Master (Put p s) n = (Reply r d, n') \<and> success r \<and> ready n' p \<and> entry n' p = Some i \<and>
        valid i \<and> \<not> is_directory i \<and> storage_type_ptr i = Some t \<and>
        agg_inode_id i = (case entry n p of None \<Rightarrow> [] | Some j \<Rightarrow> agg_inode_id j)"
    and refuse: "ready n p \<Longrightarrow> locked n p \<Longrightarrow> \<exists>r d. rpc Master (Put p s) n = (Reply r d, n) \<and> \<not> success r"
    and relock: "ready n p \<Longrightarrow> entry n p = Some i \<Longrightarrow> valid i \<Longrightarrow>
      \<exists>r d n' t. rpc Master (UpdateLock [p]) n = (Reply r d, n') \<and> success r \<and> ready n' p \<and> entry n' p = Some (i\<lparr>ddl_lock := t\<rparr>)"
    and confirm: "ready n p \<Longrightarrow> entry n p = Some i \<Longrightarrow> valid i \<Longrightarrow> \<not> is_directory i \<Longrightarrow> list_all ascii subs \<Longrightarrow>
      \<exists>r d n'. rpc Master (PutOk (p, subs, sz)) n = (Reply r d, n') \<and> success r \<and> ready n' p \<and>
        entry n' p = Some (i\<lparr>sub := subs, filesize := sz, ddl_lock := 0\<rparr>)"
begin

text \<open>From the point where the name node has the path, whether it accepted the \<open>put\<close> or not.\<close>

lemma put_rest:
  assumes E: "se_rpc E = rpc" and opn: "open_local (Some content) s = Ok (st, content)"
    and enc: "encode_content (se_client E) st content = Ok vecs" and mark: "harmless mark"
    and place: "datanode_put (se_fuel E) (se_client E) st (se_calls E) (se_nodes E) vecs (start_placing (sdk_cluster S)) = Some (Ok subs, pl)"
    and ascii: "list_all ascii subs"
    and put: "namenode_put E st p S = Some (Ok (), S1)" "sdk_cluster S1 = sdk_cluster S"
    and i: "ready (sdk_nn S1) p" "entry (sdk_nn S1) p = Some i" "valid i" "\<not> is_directory i"
  shows "\<exists>S'. sdk_put E mark (Some content) p s S = Some (Ok (), S') \<and> ready (sdk_nn S') p \<and> sdk_cluster S' = pl_cluster pl \<and>
    entry (sdk_nn S') p = Some (i\<lparr>sub := subs, filesize := of_nat (length content), ddl_lock := 0\<rparr>)"
proof -
  obtain r d n2 t where l: "rpc Master (UpdateLock [p]) (sdk_nn S1) = (Reply r d, n2)" "success r" "ready n2 p"
    "entry n2 p = Some (i\<lparr>ddl_lock := t\<rparr>)" using relock [OF i(1-3)] by blast
  let ?S2 = "S1\<lparr>sdk_nn := n2\<rparr>"
  have lock: "lock_remote_paths E [p] S1 = Some (Ok (), ?S2)"
    unfolding lock_remote_paths_def using ignore_reply(1) [of E Master "UpdateLock [p]" S1 r d n2] l(1,2) by (simp add: E)
  obtain S3 where m1: "mark DATA_UPLOADING ?S2 = Some (Ok (), S3)" "sdk_nn S3 = n2" "sdk_cluster S3 = sdk_cluster S"
    using harmlessE [OF mark, of DATA_UPLOADING ?S2] put(2) by auto
  let ?S4 = "S3\<lparr>sdk_cluster := pl_cluster pl\<rparr>"
  have dn: "sdk_datanode_put E st vecs S3 = Some (Ok subs, ?S4)"
    using place m1(3) by (simp add: sdk_datanode_put_def start_placing_def)
  obtain S5 where m2: "mark META_UPLOADING ?S4 = Some (Ok (), S5)" "sdk_nn S5 = n2" "sdk_cluster S5 = pl_cluster pl"
    using harmlessE [OF mark, of META_UPLOADING ?S4] m1(2) by auto
  let ?S6 = "S5\<lparr>remoteLocks := removeAll p (remoteLocks S5)\<rparr>"
  obtain r' d' n3 where c: "rpc Master (PutOk (p, subs, of_nat (length content))) n2 = (Reply r' d', n3)" "success r'" "ready n3 p"
    "entry n3 p = Some (i\<lparr>ddl_lock := t, sub := subs, filesize := of_nat (length content), ddl_lock := 0\<rparr>)"
    using confirm [OF l(3,4), of subs "of_nat (length content)"] i(3,4) ascii by auto
  let ?S7 = "?S6\<lparr>sdk_nn := n3\<rparr>"
  have "ignore (nn_call E Master (PutOk (p, subs, of_nat (length content)))) ?S6 = Some (Ok (), ?S7)"
    using ignore_reply(1) [of E Master "PutOk (p, subs, of_nat (length content))" ?S6 r' d' n3] c(1,2) by (simp add: E m2(2))
  then have ok: "namenode_putok E p (length content) subs S5 = Some (Ok (), ?S7)"
    by (simp add: namenode_putok_def unlock_remote_def)
  obtain S8 where m3: "mark FINISHED ?S7 = Some (Ok (), S8)" "sdk_nn S8 = n3" "sdk_cluster S8 = pl_cluster pl"
    using harmlessE [OF mark, of FINISHED ?S7] m2(3) by auto
  have "sdk_put E mark (Some content) p s S = Some (Ok (), S8)"
    by (simp add: sdk_put_def opn enc put(1) lock m1(1) dn m2(1) ok m3(1))
  with m3 c(3,4) show ?thesis by simp
qed

lemma namenode_put_run:
  assumes "se_rpc E = rpc" "ready (sdk_nn S) p" "StorageType_from_string (StorageType_to_string st) = Ok st"
  shows "\<not> locked (sdk_nn S) p \<Longrightarrow> \<exists>n i. namenode_put E st p S = Some (Ok (), S\<lparr>sdk_nn := n\<rparr>) \<and> ready n p \<and> entry n p = Some i \<and>
      valid i \<and> \<not> is_directory i \<and> storage_type_ptr i = Some st \<and>
      agg_inode_id i = (case entry (sdk_nn S) p of None \<Rightarrow> [] | Some j \<Rightarrow> agg_inode_id j)"
    "locked (sdk_nn S) p \<Longrightarrow> namenode_put E st p S = Some (Ok (), S)"
proof -
  assume "\<not> locked (sdk_nn S) p"
  then obtain r d n i where a: "rpc Master (Put p (StorageType_to_string st)) (sdk_nn S) = (Reply r d, n)" "success r" "ready n p"
    "entry n p = Some i" "valid i" "\<not> is_directory i" "storage_type_ptr i = Some st"
    "agg_inode_id i = (case entry (sdk_nn S) p of None \<Rightarrow> [] | Some j \<Rightarrow> agg_inode_id j)"
    using accept [OF assms(2) _ assms(3)] by blast
  have "ignore (nn_call E Master (Put p (StorageType_to_string st))) S = Some (Ok (), S\<lparr>sdk_nn := n\<rparr>)"
    using ignore_reply(1) [of E Master "Put p (StorageType_to_string st)" S r d n] a(1,2) by (simp add: assms(1))
  then have "namenode_put E st p S = Some (Ok (), S\<lparr>sdk_nn := n\<rparr>)" by (simp add: namenode_put_def)
  with a show "\<exists>n i. namenode_put E st p S = Some (Ok (), S\<lparr>sdk_nn := n\<rparr>) \<and> ready n p \<and> entry n p = Some i \<and>
      valid i \<and> \<not> is_directory i \<and> storage_type_ptr i = Some st \<and>
      agg_inode_id i = (case entry (sdk_nn S) p of None \<Rightarrow> [] | Some j \<Rightarrow> agg_inode_id j)" by blast
next
  assume "locked (sdk_nn S) p"
  then obtain r d where "rpc Master (Put p (StorageType_to_string st)) (sdk_nn S) = (Reply r d, sdk_nn S)" "\<not> success r"
    using refuse [OF assms(2)] by blast
  then obtain c m where "ignore (nn_call E Master (Put p (StorageType_to_string st))) S = Some (Throw (MessageException c m), S\<lparr>sdk_nn := sdk_nn S\<rparr>)"
    using ignore_reply(2) [of E Master "Put p (StorageType_to_string st)" S] assms(1) by metis
  then show "namenode_put E st p S = Some (Ok (), S)" by (simp add: namenode_put_def)
qed

lemma remote_entry:
  assumes "se_rpc E = rpc" "Inode_of_text E = inode_read" "ready (sdk_nn S) p" "entry (sdk_nn S) p = Some i" "valid i"
  shows "get_remote_inode E p S = Some (Ok i, S)"
proof -
  obtain r where r: "rpc Slave (Ls p) (sdk_nn S) = (Reply r (inode_text i), sdk_nn S)" "success r" "inode_read (inode_text i) = Ok i"
    using lookup [OF assms(3-5)] by blast
  have "nn_call E Slave (Ls p) S = Some (Ok (inode_text i), S\<lparr>sdk_nn := sdk_nn S\<rparr>)"
    using nn_call_reply [of E Slave "Ls p" S r "inode_text i" "sdk_nn S"] assms(1) r by simp
  then show ?thesis using assms(2) r(3) by (simp add: get_remote_inode_def)
qed

lemma download_entry:
  assumes "se_rpc E = rpc" "Inode_of_text E = inode_read" "ready (sdk_nn S) p" "entry (sdk_nn S) p = Some i" "valid i"
    "sdk_get (se_client E) (se_calls E) (sdk_cluster S) True i = Some (Ok content)"
  shows "sdk_download E True p S = Some (Ok content, S)"
  using remote_entry [OF assms(1-5)] assms(6) by (simp add: sdk_download_def)

end

section \<open>The name node provides it\<close>

text \<open>A name node behind remote calls: it executes each request at once, on its own store. A process that ends is a failed call.\<close>

definition nn_rpc ::
  "('db, 'bk) libs \<Rightarrow> nn_env \<Rightarrow> stub \<Rightarrow> nn_request \<Rightarrow> ('db, 'bk) RocksDB \<Rightarrow> string rpc_result \<times> ('db, 'bk) RocksDB" where
  "nn_rpc L W st req db =
     (case nn_exec L W db req of
        Ok (db', rp) \<Rightarrow> (Reply (common rp) (rsp_data rp), db')
      | _ \<Rightarrow> (RpcFailed ''connection closed'', db))"

text \<open>The name node leads, its store accepts writes, and the path can be a file: its directory is there.\<close>

definition nn_ready :: "('db, 'bk) libs \<Rightarrow> nn_env \<Rightarrow> ('db, 'bk) RocksDB \<Rightarrow> path \<Rightarrow> bool" where
  "nn_ready L W db p \<longleftrightarrow> nn_inv L db \<and> kv_live L \<and> check_leader W = Ok () \<and> path_ok p \<and> simplify_path p \<noteq> ''/'' \<and>
     ns_parent (fs L db) (new_inode p) \<noteq> None \<and> kind (fs L db) (simplify_path p) \<noteq> Some True"

definition nn_entry :: "('db, 'bk) libs \<Rightarrow> ('db, 'bk) RocksDB \<Rightarrow> path \<Rightarrow> Inode option" where
  "nn_entry L db p = fs L db (simplify_path p)"

definition nn_locked :: "('db, 'bk) libs \<Rightarrow> nn_env \<Rightarrow> ('db, 'bk) RocksDB \<Rightarrow> path \<Rightarrow> bool" where
  "nn_locked L W db p \<longleftrightarrow> now W \<le> (case nn_entry L db p of None \<Rightarrow> 0 | Some i \<Rightarrow> ddl_lock i)"

lemma nn_readyD:
  assumes "nn_ready L W db p"
  shows "nn_inv L db" "db_inv L db" "codec_ok L" "kv_live L" "check_leader W = Ok ()" "path_ok p" "simplify_path p \<noteq> ''/''" "p \<noteq> []"
    "db_ready db"
  using assms nn_invD [of L db] db_inv_ready by (auto simp: nn_ready_def path_ok_def is_rooted_def)

lemma new_inode_parent: "Inode_parent_path (new_inode p) = get_parent_path (simplify_path p)"
  by (simp add: Inode_parent_path_def)

lemma parent_differs: "path_ok p \<Longrightarrow> simplify_path p \<noteq> ''/'' \<Longrightarrow> get_parent_path (simplify_path p) \<noteq> simplify_path p"
  using abs_parent(4) [OF abs_inode_path_ok, of p] by (auto simp: new_inode_parent)

text \<open>A file is written at the path.\<close>

lemma nn_ready_upd:
  assumes "nn_ready L W db p" "nn_inv L db'" "fs L db' = (fs L db)(simplify_path p \<mapsto> i)" "\<not> is_directory i"
  shows "nn_ready L W db' p"
  using assms parent_differs [of p] by (auto simp: nn_ready_def ns_parent_def new_inode_parent)

lemma nn_current:
  assumes "nn_ready L W db p"
  shows "\<not> (valid (ns_current (fs L db) (new_inode p)) \<and> is_directory (ns_current (fs L db) (new_inode p)))"
    "ddl_lock (ns_current (fs L db) (new_inode p)) = (case nn_entry L db p of None \<Rightarrow> 0 | Some i \<Rightarrow> ddl_lock i)"
    "agg_inode_id (ns_current (fs L db) (new_inode p)) = (case nn_entry L db p of None \<Rightarrow> [] | Some i \<Rightarrow> agg_inode_id i)"
    "nn_entry L db p = Some i \<Longrightarrow> ns_current (fs L db) (new_inode p) = i"
  using assms by (auto simp: nn_ready_def nn_entry_def ns_current_def kind_def new_inode_def split: option.splits if_splits)

lemma proposed_put:
  assumes "nn_ready L W db p" "put_pre i (fs L db)" "fullpath i = simplify_path p" "nn_handle L W db req = proposing (Ok [task_data OP_PUT (Inode_value L i)])"
    "req_ok req"
  obtains db' where "nn_rpc L W st req db = (Reply (succ_response new_Response) [], db')" "nn_inv L db'"
    "fs L db' = (fs L db)(simplify_path p \<mapsto> i)"
proof -
  note d = nn_readyD [OF assms(1)]
  have i: "abs_inode i" "inode_ok i" using assms(2) by (simp_all add: put_pre_def abs_inode_def)
  obtain db' where put: "internal_put L db i = Ok db'"
    using db_write_live [OF d(4), of db "''internal put not ok''" "[inode_kv L i]"] d(9) by (auto simp: internal_put_def)
  have exec: "nn_exec L W db req = Ok (db', \<lparr>tasks = [task_data OP_PUT (Inode_value L i)], common = succ_response new_Response, rsp_data = []\<rparr>)"
    using put assms(4) by (simp add: nn_exec_def apply_data_inode [OF d(3) i(2)])
  have "fs L db' = (fs L db)(simplify_path p \<mapsto> i)"
    using db.put_sim [OF d(2) i(1) put] assms(3) by (simp add: ns_put_def)
  with exec exec_inv [OF d(1) assms(5) exec] that show thesis by (simp add: nn_rpc_def)
qed

lemma nn_accept:
  assumes r: "nn_ready L W db p" and l: "\<not> nn_locked L W db p" and s: "StorageType_from_string s = Ok t"
  shows "\<exists>r d db' i. nn_rpc L W Master (Put p s) db = (Reply r d, db') \<and> success r \<and> nn_ready L W db' p \<and> nn_entry L db' p = Some i \<and>
    valid i \<and> \<not> is_directory i \<and> storage_type_ptr i = Some t \<and>
    agg_inode_id i = (case nn_entry L db p of None \<Rightarrow> [] | Some j \<Rightarrow> agg_inode_id j)"
proof -
  note d = nn_readyD [OF r] and c = nn_current [OF r]
  let ?c = "ns_current (fs L db) (new_inode p)"
  let ?i = "?c\<lparr>is_directory := False, valid := True, ddl_lock := now W + LOCK_REFRESH_INTERVAL, storage_type_ptr := Some t\<rparr>"
  have "\<not> now W \<le> ddl_lock ?c" using l c(2) by (simp add: nn_locked_def)
  then have one: "put_one L W db (p, s) = Ok ?i"
    using c(1) s d(8) by (simp add: Let_def put_one_def path_required_def prepare_put_fs [OF d(2,6)] Inode_lock_def)
  have pre: "put_pre ?i (fs L db)" "fullpath ?i = simplify_path p" using put_one_pre [OF d(2) _ one] d(6) by simp_all
  have h: "nn_handle L W db (Put p s) = proposing (Ok [task_data OP_PUT (Inode_value L ?i)])"
    using one d(5) by (simp add: nn_put_def)
  obtain db' where db': "nn_rpc L W Master (Put p s) db = (Reply (succ_response new_Response) [], db')" "nn_inv L db'"
    "fs L db' = (fs L db)(simplify_path p \<mapsto> ?i)"
    using proposed_put [OF r pre h] d(6) by auto
  have "nn_ready L W db' p" by (rule nn_ready_upd [OF r db'(2,3)]) simp
  with db' c(3) show ?thesis by (intro exI [of _ "succ_response new_Response"] exI [of _ "[]"] exI [of _ db'] exI [of _ ?i]) (simp add: nn_entry_def)
qed

lemma nn_refuse:
  assumes r: "nn_ready L W db p" and l: "nn_locked L W db p"
  shows "\<exists>r d. nn_rpc L W Master (Put p s) db = (Reply r d, db) \<and> \<not> success r"
proof -
  note d = nn_readyD [OF r] and c = nn_current [OF r]
  let ?c = "ns_current (fs L db) (new_inode p)"
  have "now W \<le> ddl_lock ?c" using l c(2) by (simp add: nn_locked_def)
  then obtain e where "put_one L W db (p, s) = Throw e"
    using c(1) d(8) by (simp add: Let_def put_one_def path_required_def prepare_put_fs [OF d(2,6)] Inode_lock_def)
  then show ?thesis using d(5) by (simp add: nn_rpc_def nn_exec_def nn_put_def)
qed

lemma nn_relock:
  assumes r: "nn_ready L W db p" and i: "nn_entry L db p = Some i" "valid i"
  shows "\<exists>r d db' t. nn_rpc L W Master (UpdateLock [p]) db = (Reply r d, db') \<and> success r \<and> nn_ready L W db' p \<and>
    nn_entry L db' p = Some (i\<lparr>ddl_lock := t\<rparr>)"
proof -
  note d = nn_readyD [OF r] and c = nn_current [OF r]
  let ?i = "update_ddl_lock (now W) i"
  have ns: "ns_current (fs L db) (new_inode p) = i" by (rule c(4) [OF i(1)])
  have nd: "\<not> is_directory i" using c(1) ns i(2) by simp
  have "db_ls L db (new_inode p) = Ok i"
    using get_inode_new [OF d(2,6)] ns i(2) by (simp add: db_ls_def)
  then have h: "nn_handle L W db (UpdateLock [p]) = proposing (Ok [task_data OP_PUT (Inode_value L ?i)])"
    using d(5) by (simp add: nn_update_lock_def)
  have "relock L W db p = ?i" by (simp add: relock_def ns)
  then have pre: "put_pre ?i (fs L db)" using relock_pre(1) [OF d(2,6), of W] ns i(2) by simp
  have fp: "fullpath ?i = simplify_path p" using ns get_inode_new(3) [OF d(2,6)] by (simp add: update_ddl_lock_def)
  obtain db' where db': "nn_rpc L W Master (UpdateLock [p]) db = (Reply (succ_response new_Response) [], db')" "nn_inv L db'"
    "fs L db' = (fs L db)(simplify_path p \<mapsto> ?i)"
    using proposed_put [OF r pre fp h] d(6) by auto
  have "nn_ready L W db' p" by (rule nn_ready_upd [OF r db'(2,3)]) (simp add: update_ddl_lock_def nd)
  with db' show ?thesis by (intro exI [of _ "succ_response new_Response"] exI [of _ "[]"] exI [of _ db']) (auto simp: nn_entry_def update_ddl_lock_def)
qed

lemma nn_confirm:
  assumes r: "nn_ready L W db p" and i: "nn_entry L db p = Some i" "valid i" "\<not> is_directory i" and a: "list_all ascii subs"
  shows "\<exists>r d db'. nn_rpc L W Master (PutOk (p, subs, sz)) db = (Reply r d, db') \<and> success r \<and> nn_ready L W db' p \<and>
    nn_entry L db' p = Some (i\<lparr>sub := subs, filesize := sz, ddl_lock := 0\<rparr>)"
proof -
  note d = nn_readyD [OF r] and c = nn_current [OF r]
  let ?j = "i\<lparr>sub := subs, filesize := sz\<rparr>"
  have ns: "ns_current (fs L db) (new_inode p) = i" by (rule c(4) [OF i(1)])
  have req: "put_ok_req_ok (p, subs, sz)" using d(6) a by (simp add: put_ok_req_ok_def)
  have one: "put_ok_one L db (p, subs, sz) = Ok ?j"
    using d(8) ns i(2,3) by (simp add: put_ok_one_def path_required_def prepare_put_ok_fs [OF d(2,6)])
  note pre = put_ok_one_pre [OF d(2) req one]
  have abs: "abs_inode ?j" "inode_ok ?j" and fp: "fullpath i = simplify_path p"
    using pre(1,2) by (simp_all add: put_ok_pre_def abs_inode_def)
  have pp: "Inode_parent_path ?j = get_parent_path (simplify_path p)" by (simp add: Inode_parent_path_def fp)
  obtain par where par: "ns_parent (fs L db) ?j = Some par"
    using r by (auto simp: nn_ready_def ns_parent_def pp new_inode_parent split: option.splits if_splits)
  obtain db' where ok: "internal_put_ok L db ?j = Ok db'"
    using db_write_live [OF d(4), of db] unfolding internal_put_ok_write [OF d(2) abs(1)] par by (metis option.case(2))
  have exec: "nn_exec L W db (PutOk (p, subs, sz)) = Ok (db', \<lparr>tasks = [task_data OP_PUTOK (Inode_value L ?j)],
      common = succ_response new_Response, rsp_data = []\<rparr>)"
    using one ok d(5) by (simp add: nn_exec_def nn_put_ok_def apply_data_inode [OF d(3) abs(2)])
  have inv: "nn_inv L db'" using exec_inv [OF d(1) _ exec] req by simp
  have "simplify_path (simplify_path p) = simplify_path p" using abs(2) fp by (simp add: inode_ok_def)
  then have new: "ns_current (fs L db) (new_inode (fullpath ?j)) = i"
    using i(1) fp by (simp add: ns_current_def nn_entry_def)
  have fs': "fs L db' = (fs L db)(get_parent_path (simplify_path p) \<mapsto> push_sub (Inode_filename ?j) par,
      simplify_path p \<mapsto> i\<lparr>sub := subs, filesize := sz, ddl_lock := 0\<rparr>)"
    using db.put_ok_sim [OF d(2) abs(1) ok] par fp new
    by (auto simp: ns_put_ok_def pp put_ok_inode_def Inode_unlock_def dest!: sym [of _ "fs L db'"])
  have "nn_ready L W db' p"
    using r inv i(3) parent_differs [OF d(6,7)] by (simp add: nn_ready_def fs' ns_parent_def new_inode_parent)
  with exec fs' show ?thesis by (simp add: nn_rpc_def nn_entry_def)
qed

lemma nn_lookup:
  assumes r: "nn_ready L W db p" and i: "nn_entry L db p = Some i" "valid i"
  shows "\<exists>r. nn_rpc L W st (Ls p) db = (Reply r (Inode_value L i), db) \<and> success r \<and> Inode_of_text L (Inode_value L i) = Ok i"
proof -
  note d = nn_readyD [OF r]
  have "is_rooted (simplify_path p)" using fs_Some [OF d(2), of "simplify_path p" i] i(1) by (auto simp: nn_entry_def abs_inode_def)
  with db_inv_get [OF d(2), of "simplify_path p"] i(1) have "Inode_of_text L (Inode_value L i) = Ok i" by (simp add: nn_entry_def)
  moreover have "nn_handle L W db (Ls p) = Ok (ls_answer L i)"
    using ls_found [OF d(2,6)] i by (simp add: nn_entry_def)
  ultimately show ?thesis by (simp add: nn_rpc_def nn_exec_def ls_answer_def)
qed

interpretation nn: file_service "nn_rpc L W" "nn_entry L" "nn_ready L W" "nn_locked L W" "Inode_value L" "Inode_of_text L"
  for L :: "('db, 'bk) libs" and W
  by unfold_locales (rule nn_lookup nn_accept nn_refuse nn_relock nn_confirm; assumption)+

section \<open>A whole upload\<close>

text \<open>Everything an upload needs from data nodes and network: every call of the upload succeeds, the erasure code works, the
  digests of the fragments do not collide and have no separators in them.\<close>

definition upload_good :: "'n sdk_env \<Rightarrow> StorageType \<Rightarrow> string \<Rightarrow> string list list \<Rightarrow> bool" where
  "upload_good E st content vecs \<longleftrightarrow>
     encode_content (se_client E) st content = Ok vecs \<and> st_works (se_client E) st \<and> 0 < get_block_size st \<and>
     se_nodes E \<noteq> [] \<and> (\<forall>a\<in>set (se_nodes E). node_text a \<and> ascii a) \<and>
     sha_clean (se_client E) \<and> (\<forall>x. ascii (cl_sha (se_client E) x)) \<and> digest_safe (se_client E) (concat vecs) \<and>
     all_good (se_calls E) (concat vecs) \<and> (\<forall>vec\<in>set vecs. length vec \<le> se_fuel E) \<and> length content < 2 ^ 64"

lemma encode_one_sub_ascii:
  assumes "encode_one_sub hs = Ok one" "\<forall>(n, h)\<in>set hs. frag_ok (n, h) \<and> ascii n \<and> ascii h"
  shows "ascii one"
proof -
  have "hs \<noteq> []" using assms(1) by (auto simp: encode_one_sub_def)
  with encode_one_sub_ok [of hs] assms have "one = join (CHR '','') (map (\<lambda>(n, h). n @ ''|'' @ h) hs)" by force
  moreover have "ascii (join (CHR '','') (map (\<lambda>(n, h). n @ ''|'' @ h) hs))"
    by (rule ascii_join) (use assms(2) in \<open>auto simp: ascii_Cons\<close>)
  ultimately show ?thesis by simp
qed

lemma datanode_put_ascii:
  assumes "datanode_put fuel C st env nodes vecs s = Some (Ok subs, s')" "pl_index s < length nodes"
    "\<forall>a\<in>set nodes. node_text a \<and> ascii a" "sha_clean C" "\<forall>x. ascii (cl_sha C x)"
  shows "list_all ascii subs"
  using assms(1,2)
proof (induction vecs arbitrary: s subs)
  case (Cons vec vecs)
  obtain s1 one subs' where s1: "place fuel C st env nodes vec (s\<lparr>pl_hashs := []\<rparr>) = Some s1" "encode_one_sub (pl_hashs s1) = Ok one"
    "datanode_put fuel C st env nodes vecs s1 = Some (Ok subs', s')" "subs = one # subs'"
    using Cons.prems(1) by (auto simp: outcome_simps split: if_splits option.splits outcome.splits)
  have "placed_ok C nodes vec s1"
    by (rule place_recorded [OF s1(1)]) (use Cons.prems(2) in \<open>simp_all add: placed_ok_def recorded_def\<close>)
  then have p: "recorded C vec 0 (pl_hashs s1)" "fst ` set (pl_hashs s1) \<subseteq> set nodes" "pl_index s1 < length nodes"
    by (simp_all add: placed_ok_def)
  have "frag_ok (n, h) \<and> ascii n \<and> ascii h" if nh: "(n, h) \<in> set (pl_hashs s1)" for n h
  proof -
    obtain k where "k < length (pl_hashs s1)" "pl_hashs s1 ! k = (n, h)" using nh by (metis in_set_conv_nth)
    then have "h = cl_sha C (vec ! k)" using p(1) by (auto simp: recorded_def)
    moreover have "n \<in> set nodes" using p(2) nh by force
    ultimately show ?thesis using assms(3-5) by (auto simp: frag_ok_def node_text_def sha_clean_def)
  qed
  then have "ascii one" using encode_one_sub_ascii [OF s1(2)] by blast
  with Cons.IH [OF s1(3) p(3)] s1(4) show ?case by simp
qed simp

lemma upload_placed:
  assumes "upload_good E st content vecs"
  obtains subs pl where "datanode_put (se_fuel E) (se_client E) st (se_calls E) (se_nodes E) vecs (start_placing cl) = Some (Ok subs, pl)"
    "list_all ascii subs" "list_all2 (written (se_client E)) vecs subs"
    "\<And>env inode. all_good env (concat vecs) \<Longrightarrow> storage_type_ptr inode = Some st \<Longrightarrow> filesize inode = of_nat (length content) \<Longrightarrow>
       agg_inode_id inode = [] \<Longrightarrow> sub inode = subs \<Longrightarrow> sdk_get (se_client E) env (pl_cluster pl) True inode = Some (Ok content)"
proof -
  note g = assms [unfolded upload_good_def]
  let ?put = "datanode_put (se_fuel E) (se_client E) st (se_calls E) (se_nodes E) vecs (start_placing cl)"
  have run: "\<exists>subs pl. ?put = Some (Ok subs, pl) \<and> list_all2 (written (se_client E)) vecs subs \<and>
      sdk_get (se_client E) env (pl_cluster pl) True (inode\<lparr>sub := subs\<rparr>) = Some (Ok content)"
    if "all_good env (concat vecs)" "storage_type_ptr inode = Some st" "filesize inode = of_nat (length content)" "agg_inode_id inode = []"
    for env inode
    using placed_then_read [of "se_client E" st content vecs "se_nodes E" "se_calls E" env "se_fuel E" inode cl] g that by blast
  obtain subs pl where p: "?put = Some (Ok subs, pl)" "list_all2 (written (se_client E)) vecs subs"
    using run [of "se_calls E" "(new_inode [])\<lparr>storage_type_ptr := Some st, filesize := of_nat (length content), agg_inode_id := []\<rparr>"] g by auto
  have "list_all ascii subs"
    by (rule datanode_put_ascii [OF p(1)]) (use g in \<open>simp_all add: start_placing_def\<close>)
  moreover have "sdk_get (se_client E) env (pl_cluster pl) True inode = Some (Ok content)"
    if a: "all_good env (concat vecs)" "storage_type_ptr inode = Some st" "filesize inode = of_nat (length content)" "agg_inode_id inode = []"
      and s: "sub inode = subs" for env inode
  proof -
    have "inode\<lparr>sub := subs\<rparr> = inode" using s by simp
    then show ?thesis using run [OF a] p(1) by auto
  qed
  ultimately show thesis using that [OF p(1) _ p(2)] by blast
qed

lemma Inode_of_text_lib:
  assumes "jparse E = jparse L" "jdump E = jdump L"
  shows "Inode_of_text E = Inode_of_text L"
proof -
  have "json_parse E = json_parse L" using assms by (simp add: fun_eq_iff json_parse_def)
  then have "Inode_from_json E = Inode_from_json L" by (simp add: fun_eq_iff Inode_from_json_def)
  with \<open>json_parse E = json_parse L\<close> show ?thesis by (intro ext) (simp add: Inode_of_text_def)
qed

lemma put_and_download:
  fixes S :: "(('db, 'bk) RocksDB, 'z) sdk_scheme"
  assumes "nn_ready L W (sdk_nn S) p" "\<not> nn_locked L W (sdk_nn S) p"
    "\<And>i. nn_entry L (sdk_nn S) p = Some i \<Longrightarrow> agg_inode_id i = []"
    "open_local (Some content) s = Ok (st, content)" "upload_good E st content vecs" "harmless mark" "se_rpc E = nn_rpc L W"
    "se_rpc E' = nn_rpc L W" "jparse E' = jparse L" "jdump E' = jdump L" "se_client E' = se_client E"
    "all_good (se_calls E') (concat vecs)"
  shows "\<exists>S'. sdk_put E mark (Some content) p s S = Some (Ok (), S') \<and>
    (\<forall>T :: (('db, 'bk) RocksDB, 'y) sdk_scheme. sdk_nn T = sdk_nn S' \<and> sdk_cluster T = sdk_cluster S' \<longrightarrow>
       sdk_download E' True p T = Some (Ok content, T)) \<and>
    (\<exists>i. nn_ready L W (sdk_nn S') p \<and> nn_entry L (sdk_nn S') p = Some i \<and> valid i \<and> \<not> is_directory i \<and> filesize i = of_nat (length content))"
proof -
  have enc: "encode_content (se_client E) st content = Ok vecs" using assms(5) by (simp add: upload_good_def)
  have st: "StorageType_from_string (StorageType_to_string st) = Ok st"
    using assms(4) from_string_ok from_to_string by (auto simp: open_local_def outcome_simps split: if_splits)
  obtain subs pl where u: "datanode_put (se_fuel E) (se_client E) st (se_calls E) (se_nodes E) vecs (start_placing (sdk_cluster S)) = Some (Ok subs, pl)"
    "list_all ascii subs"
    "\<And>env inode. all_good env (concat vecs) \<Longrightarrow> storage_type_ptr inode = Some st \<Longrightarrow> filesize inode = of_nat (length content) \<Longrightarrow>
       agg_inode_id inode = [] \<Longrightarrow> sub inode = subs \<Longrightarrow> sdk_get (se_client E) env (pl_cluster pl) True inode = Some (Ok content)"
    using upload_placed [OF assms(5)] by metis
  obtain n i where n: "namenode_put E st p S = Some (Ok (), S\<lparr>sdk_nn := n\<rparr>)" "nn_ready L W n p" "nn_entry L n p = Some i" "valid i"
    "\<not> is_directory i" "storage_type_ptr i = Some st" "agg_inode_id i = []"
    using nn.namenode_put_run(1) [OF assms(7,1) st assms(2)] assms(3) by (auto split: option.splits)
  let ?i = "i\<lparr>sub := subs, filesize := of_nat (length content), ddl_lock := 0\<rparr>"
  obtain S' where S': "sdk_put E mark (Some content) p s S = Some (Ok (), S')" "nn_ready L W (sdk_nn S') p"
    "sdk_cluster S' = pl_cluster pl" "nn_entry L (sdk_nn S') p = Some ?i"
    using nn.put_rest [OF assms(7,4) enc assms(6) u(1,2) n(1)] n by auto
  have "sdk_download E' True p T = Some (Ok content, T)" if T: "sdk_nn T = sdk_nn S'" "sdk_cluster T = sdk_cluster S'"
    for T :: "(('db, 'bk) RocksDB, 'y) sdk_scheme"
  proof -
    have "sdk_get (se_client E') (se_calls E') (sdk_cluster T) True ?i = Some (Ok content)"
      unfolding T(2) S'(3) assms(11) by (rule u(3) [OF assms(12)]) (simp_all add: n(6,7))
    then show ?thesis using nn.download_entry [OF assms(8) Inode_of_text_lib [OF assms(9,10)], of T p ?i] S'(2,4) n(4) T(1) by simp
  qed
  moreover have "nn_ready L W (sdk_nn S') p \<and> nn_entry L (sdk_nn S') p = Some ?i \<and> valid ?i \<and> \<not> is_directory ?i \<and> filesize ?i = of_nat (length content)"
    using S'(2,4) n(4,5) by simp
  ultimately show ?thesis using S'(1) by blast
qed

section \<open>Properties\<close>

text \<open>C2: What a client uploads, any client downloads. If the name node leads and stores what it is told, the directory of the
  file is there, the file is not locked and was never part of an aggregate, and every call to the data nodes succeeds, then
  \<open>SDK::put\<close> of a local file ends without an error, and \<open>SDK::get\<close> of the path returns the contents of the local file.\<close>

theorem upload_then_download:
  assumes "nn_ready L W (sdk_nn S) p" "\<not> nn_locked L W (sdk_nn S) p"
    "\<And>i. nn_entry L (sdk_nn S) p = Some i \<Longrightarrow> agg_inode_id i = []"
    "open_local (Some content) s = Ok (st, content)" "upload_good E st content vecs" "harmless mark" "se_rpc E = nn_rpc L W"
    "se_rpc E' = nn_rpc L W" "jparse E' = jparse L" "jdump E' = jdump L" "se_client E' = se_client E"
    "all_good (se_calls E') (concat vecs)"
  shows "\<exists>S'. sdk_put E mark (Some content) p s S = Some (Ok (), S') \<and> sdk_download E' True p S' = Some (Ok content, S')"
proof -
  obtain S' where "sdk_put E mark (Some content) p s S = Some (Ok (), S')" "sdk_download E' True p S' = Some (Ok content, S')"
    using put_and_download [OF assms(1-3) assms(4-12)] by blast
  then show ?thesis by blast
qed

text \<open>C37: The lock of a file does not protect it against \<open>SDK::put\<close>. The name node refuses the \<open>put\<close> of a file that another
  client has locked, but \<open>namenode_put\<close> drops the error: the upload goes on, takes the lock over, replaces the blocks and the
  size, and releases the lock. The storage type stays the old one, whatever the new blocks were encoded with.\<close>

theorem locked_file_is_replaced:
  assumes "nn_ready L W (sdk_nn S) p" "nn_locked L W (sdk_nn S) p" "nn_entry L (sdk_nn S) p = Some i" "valid i" "\<not> is_directory i"
    "open_local (Some content) s = Ok (st, content)" "upload_good E st content vecs" "harmless mark" "se_rpc E = nn_rpc L W"
  shows "(\<exists>r d. nn_rpc L W Master (Put p s) (sdk_nn S) = (Reply r d, sdk_nn S) \<and> \<not> success r) \<and>
    (\<exists>S' subs. sdk_put E mark (Some content) p s S = Some (Ok (), S') \<and> list_all2 (written (se_client E)) vecs subs \<and>
      nn_entry L (sdk_nn S') p = Some (i\<lparr>sub := subs, filesize := of_nat (length content), ddl_lock := 0\<rparr>))"
proof -
  have enc: "encode_content (se_client E) st content = Ok vecs" using assms(7) by (simp add: upload_good_def)
  have st: "StorageType_from_string (StorageType_to_string st) = Ok st"
    using assms(6) from_string_ok from_to_string by (auto simp: open_local_def outcome_simps split: if_splits)
  obtain subs pl where u: "datanode_put (se_fuel E) (se_client E) st (se_calls E) (se_nodes E) vecs (start_placing (sdk_cluster S)) = Some (Ok subs, pl)"
    "list_all ascii subs" "list_all2 (written (se_client E)) vecs subs"
    using upload_placed [OF assms(7)] by metis
  have n: "namenode_put E st p S = Some (Ok (), S)" by (rule nn.namenode_put_run(2) [OF assms(9,1) st assms(2)])
  from nn.put_rest [OF assms(9,6) enc assms(8) u(1,2) n refl assms(1,3-5)] u(3) nn.refuse [OF assms(1,2)] show ?thesis by blast
qed

section \<open>Concrete runs\<close>

definition demo_sdk_env :: "(mem_db, mem_db list) RocksDB sdk_env" where
  "demo_sdk_env = \<lparr>jdump = jdump mem_libs, jparse = jparse mem_libs, se_rpc = nn_rpc mem_libs demo_env,
     se_client = demo_client demo_block, se_calls = (\<lambda>n. demo_call (length demo_block)), se_nodes = [''n:1''], se_fuel = 2,
     se_io = (\<lambda>i. True), se_mkdir = True, se_data_dir = ''/tmp'', se_md5 = id\<rparr>"

lemma demo_upload_good: "upload_good demo_sdk_env (REStorageType 2 1) ''abc'' [[demo_block, demo_block]]"
proof -
  have good: "all_good (\<lambda>n. demo_call (length demo_block)) (concat [[demo_block, demo_block]])"
    using demo_call_good(1) demo_call_good(2) [OF order_refl] by (simp add: all_good_def)
  have "0 < get_block_size (REStorageType 2 1)" by (simp add: get_block_size_def to_int32_def)
  moreover have "digest_safe (demo_client demo_block) (concat [[demo_block, demo_block]])"
    by (simp add: digest_safe_def demo_client_def)
  moreover have "\<forall>x. ascii (cl_sha (demo_client demo_block) x)" by (simp add: demo_client_def ascii_Cons)
  ultimately show ?thesis
    using good demo_content demo_client_facts(2,3) demo_node_text by (simp add: upload_good_def demo_sdk_env_def ascii_Cons)
qed

lemma demo_harmless: "harmless (\<lambda>u. retM (Ok ()))"
  by (simp add: harmless_def)

lemma demo_ready:
  "nn_ready mem_libs demo_env demo_dir ''/a/f''" "\<not> nn_locked mem_libs demo_env demo_dir ''/a/f''" "nn_entry mem_libs demo_dir ''/a/f'' = None"
  "nn_ready mem_libs demo_env demo_put ''/a/f''" "nn_locked mem_libs demo_env demo_put ''/a/f''"
proof -
  have l: "check_leader demo_env = Ok ()" by code_simp
  have "\<not> Option.is_none (ns_parent (fs mem_libs demo_dir) (new_inode ''/a/f''))" "kind (fs mem_libs demo_dir) (simplify_path ''/a/f'') = None"
    "\<not> Option.is_none (ns_parent (fs mem_libs demo_put) (new_inode ''/a/f''))" "kind (fs mem_libs demo_put) (simplify_path ''/a/f'') = Some False"
    by code_simp+
  with nn_reach_inv [OF demo_reach(2)] nn_reach_inv [OF demo_reach(3)] mem_libs_ok(2) l demo_paths(2,4)
  show "nn_ready mem_libs demo_env demo_dir ''/a/f''" "nn_ready mem_libs demo_env demo_put ''/a/f''"
    by (auto simp: nn_ready_def Option.is_none_def)
  show "\<not> nn_locked mem_libs demo_env demo_dir ''/a/f''" "nn_locked mem_libs demo_env demo_put ''/a/f''" by code_simp+
  have "Option.is_none (nn_entry mem_libs demo_dir ''/a/f'')" by code_simp
  then show "nn_entry mem_libs demo_dir ''/a/f'' = None" by (simp add: Option.is_none_def)
qed

lemma demo_open: "open_local (Some ''abc'') ''RE<2,1>'' = Ok (REStorageType 2 1, ''abc'')"
  by code_simp

theorem upload_then_download_witness:
  "\<exists>S'. sdk_put demo_sdk_env (\<lambda>u. retM (Ok ())) (Some ''abc'') ''/a/f'' ''RE<2,1>'' (demo_sdk demo_dir) = Some (Ok (), S') \<and>
    sdk_download demo_sdk_env True ''/a/f'' S' = Some (Ok ''abc'', S')"
proof -
  have g: "all_good (se_calls demo_sdk_env) (concat [[demo_block, demo_block]])"
    using demo_upload_good by (simp add: upload_good_def)
  show ?thesis
    by (rule upload_then_download [OF _ _ _ demo_open demo_upload_good demo_harmless _ _ _ _ _ g, of mem_libs demo_env])
      (simp_all add: demo_sdk_def demo_ready demo_sdk_env_def)
qed

theorem locked_file_is_replaced_witness:
  "\<exists>i S' subs. sdk_put demo_sdk_env (\<lambda>u. retM (Ok ())) (Some ''abc'') ''/a/f'' ''RE<2,1>'' (demo_sdk demo_put) = Some (Ok (), S') \<and>
    nn_entry mem_libs (sdk_nn S') ''/a/f'' = Some (i\<lparr>sub := subs, filesize := 3, ddl_lock := 0\<rparr>)"
proof -
  have "kind (fs mem_libs demo_put) (simplify_path ''/a/f'') = Some False" by code_simp
  then obtain i where i: "nn_entry mem_libs demo_put ''/a/f'' = Some i" "valid i" "\<not> is_directory i"
    by (auto simp: kind_def nn_entry_def split: option.splits if_splits)
  have nn: "sdk_nn (demo_sdk demo_put) = demo_put" "se_rpc demo_sdk_env = nn_rpc mem_libs demo_env"
    by (simp_all add: demo_sdk_def demo_sdk_env_def)
  from locked_file_is_replaced [of mem_libs demo_env "demo_sdk demo_put" "''/a/f''" i, unfolded nn(1),
      OF demo_ready(4,5) i demo_open demo_upload_good demo_harmless nn(2)]
  show ?thesis by auto
qed

end
