(* ===== verification/Uploads.thy ===== *)
theory Uploads
  imports Sdk_Session
begin

text \<open>
  The upload daemon of the client: \<^verbatim>\<open>src/client/daemon_upload.cpp\<close>, and \<open>SDK::putAggFile\<close> of \<^verbatim>\<open>src/client/sdk.cpp\<close>, with which
  small files are uploaded as one aggregate.

  The state of the daemon is that of its client library with the two queues and the tasks added. The threads are given turn by
  turn; the mutex of a queue makes a turn atomic with respect to \<open>upload\<close>. The local files are the argument \<open>files\<close>, the
  time is the argument \<open>tnow\<close>, in seconds.
\<close>

section \<open>The daemon\<close>

record DaemonUpload =
  du_stop :: bool
  filesize_boundary :: u64
  small_file_que :: UploadQueue
  big_file_que :: UploadQueue
  du_tasks :: "UploadTask list"
  last_small_file_upload :: int

definition new_DaemonUpload :: "u64 \<Rightarrow> DaemonUpload" where
  "new_DaemonUpload fs_b =
     \<lparr>du_stop = False, filesize_boundary = fs_b, small_file_que = new_UploadQueue (- 1), big_file_que = new_UploadQueue (- 1),
      du_tasks = [], last_small_file_upload = 0\<rparr>"

definition que_of :: "DaemonUpload \<Rightarrow> que_name \<Rightarrow> UploadQueue" where
  "que_of D n = (case n of SmallQue \<Rightarrow> small_file_que D | BigQue \<Rightarrow> big_file_que D)"

definition push_to :: "que_name \<Rightarrow> nat \<Rightarrow> DaemonUpload \<Rightarrow> DaemonUpload outcome" where
  "push_to n t D =
     bindO (push_back n t (du_tasks D) (que_of D n)) (\<lambda>(heap, q).
       Ok (case n of SmallQue \<Rightarrow> D\<lparr>du_tasks := heap, small_file_que := q\<rparr>
                   | BigQue \<Rightarrow> D\<lparr>du_tasks := heap, big_file_que := q\<rparr>))"

text \<open>\<^verbatim>\<open>fs::file_size\<close> throws when the file is not there.\<close>

definition upload :: "(string \<Rightarrow> string option) \<Rightarrow> string \<Rightarrow> path \<Rightarrow> string \<Rightarrow> DaemonUpload \<Rightarrow> DaemonUpload outcome" where
  "upload files local_path remote_path storage_type D =
     (if du_stop D then Throw (RuntimeError ''daemon is going to quit'')
      else case files local_path of
        None \<Rightarrow> Throw (RuntimeError ''filesystem_error'')
      | Some content \<Rightarrow>
          (let sz = of_nat (length content);
               n = (if sz \<le> filesize_boundary D then SmallQue else BigQue);
               t = \<lparr>ut_local = local_path, ut_remote = remote_path, ut_size = sz, ut_storage = storage_type,
                    uploadStatus = WAITING, belong_que = n\<rparr>
           in push_to n (length (du_tasks D)) (D\<lparr>du_tasks := du_tasks D @ [t]\<rparr>)))"

definition du_fsync :: "string \<Rightarrow> path \<Rightarrow> DaemonUpload \<Rightarrow> (bool \<times> DaemonUpload) outcome" where
  "du_fsync local_path remote_path D =
     (case exist_in_que (du_tasks D) local_path remote_path (small_file_que D) of
        (None, q) \<Rightarrow> Ok (False, D)
      | (Some t, q) \<Rightarrow> bindO (push_to BigQue t (D\<lparr>small_file_que := q\<rparr>)) (\<lambda>D'. Ok (True, D')))"

definition du_ls :: "('a json_lib_scheme) \<Rightarrow> Inode \<Rightarrow> DaemonUpload \<Rightarrow> path \<Rightarrow> string" where
  "du_ls L inode D p =
     (let pending = filter (\<lambda>t. uploadStatus (du_tasks D ! t) \<notin> {FINISHED, CANCELED}) (find_dir_in_map (small_file_que D) p)
      in Inode_value L (inode\<lparr>sub := sub inode @ map (\<lambda>t. filename_of (ut_remote (du_tasks D ! t))) pending\<rparr>))"

record 'n daemon = "'n sdk" +
  du :: DaemonUpload

definition upd_du :: "(DaemonUpload \<Rightarrow> DaemonUpload) \<Rightarrow> ('n, 'z) daemon_scheme \<Rightarrow> ('n, 'z) daemon_scheme" where
  "upd_du f S = S\<lparr>du := f (du S)\<rparr>"

definition daemon_ls :: "'n sdk_env \<Rightarrow> path \<Rightarrow> (('n, 'z) daemon_scheme, string) act" where
  "daemon_ls E p = bindM (sdk_ls E p) (\<lambda>inode S. Some (Ok (du_ls E inode (du S) p), S))"

text \<open>Removing a big file waits until it is uploaded: \<open>None\<close> is a call that still waits.\<close>

definition du_rm :: "'n sdk_env \<Rightarrow> path \<Rightarrow> (('n, 'z) daemon_scheme, bool) act" where
  "du_rm E p S =
     (let D = du S; remote = bindM (sdk_rm E p) (\<lambda>_. retM (Ok True))
      in case find_in_map (big_file_que D) p of
        Some t \<Rightarrow> if uploadStatus (du_tasks D ! t) = FINISHED then remote S else None
      | None \<Rightarrow>
          (case find_in_map (small_file_que D) p of
             Some t \<Rightarrow> Some (Ok True, upd_du (\<lambda>D. D\<lparr>du_tasks := uq_rm (small_file_que D) p (du_tasks D)\<rparr>) S)
           | None \<Rightarrow> remote S))"

text \<open>The state of a task is set in the table of its queue, by path.\<close>

definition status_of_path :: "que_name \<Rightarrow> path \<Rightarrow> UploadStatus \<Rightarrow> DaemonUpload \<Rightarrow> DaemonUpload" where
  "status_of_path n p st D = D\<lparr>du_tasks := change_status (que_of D n) p st (du_tasks D)\<rparr>"

text \<open>One turn of the thread for big files; an exception ends the process.\<close>

definition big_file_turn :: "'n sdk_env \<Rightarrow> (string \<Rightarrow> string option) \<Rightarrow> (('n, 'z) daemon_scheme, unit) act" where
  "big_file_turn E files S =
     (case pop_front (big_file_que (du S)) of
        (None, q) \<Rightarrow> Some (Ok (), S)
      | (Some t, q) \<Rightarrow>
          (let task = du_tasks (du S) ! t;
               mark = (\<lambda>u. updM (\<lambda>S. upd_du (status_of_path (belong_que (du_tasks (du S) ! t)) (ut_remote task) u) S))
           in map_option (\<lambda>(r, S'). (thread_result r, S'))
                (sdk_put E mark (files (ut_local task)) (ut_remote task) (ut_storage task)
                   (upd_du (\<lambda>D. D\<lparr>big_file_que := q\<rparr>) S))))"

section \<open>Aggregates\<close>

text \<open>The contents of the files one after the other, and where each lies. The positions are converted to \<^verbatim>\<open>int\<close>. The task
  pointer of a \<^verbatim>\<open>FileInfo\<close> is not given and so is null.\<close>

fun agg_build ::
  "(string \<Rightarrow> string option) \<Rightarrow> UploadTask list \<Rightarrow> nat list \<Rightarrow> nat \<Rightarrow> (FileInfo list \<times> string) outcome" where
  "agg_build files heap [] pos = Ok ([], [])"
| "agg_build files heap (t # ts) pos =
     (case files (ut_local (heap ! t)) of
        None \<Rightarrow> Throw (RuntimeError (''Failed to open file: '' @ ut_local (heap ! t)))
      | Some fileData \<Rightarrow>
          bindO (agg_build files heap ts (pos + length fileData)) (\<lambda>(infos, aggData).
            Ok (\<lparr>fi_path = ut_remote (heap ! t), fi_size = ut_size (heap ! t),
                 fi_pos = (to_int32 (int pos), to_int32 (int (pos + length fileData))), fi_task_ptr = None\<rparr> # infos,
                fileData @ aggData)))"

definition cancelled :: "DaemonUpload \<Rightarrow> FileInfo \<Rightarrow> bool" where
  "cancelled D f \<longleftrightarrow> (case fi_task_ptr f of None \<Rightarrow> False | Some t \<Rightarrow> uploadStatus (du_tasks D ! t) = CANCELED)"

definition file_status :: "UploadStatus \<Rightarrow> FileInfo \<Rightarrow> DaemonUpload \<Rightarrow> DaemonUpload" where
  "file_status st f D =
     (case fi_task_ptr f of
        None \<Rightarrow> D
      | Some t \<Rightarrow> status_of_path (belong_que (du_tasks D ! t)) (fi_path f) st D)"

fun forM :: "'a list \<Rightarrow> ('a \<Rightarrow> ('s, unit) act) \<Rightarrow> ('s, unit) act" where
  "forM [] f = retM (Ok ())"
| "forM (x # xs) f = bindM (f x) (\<lambda>_. forM xs f)"

text \<open>A call that is not tried again; the response is looked at by the caller.\<close>

definition nn_call_once :: "'n sdk_env \<Rightarrow> stub \<Rightarrow> nn_request \<Rightarrow> (('n, 'z) sdk_scheme, string rpc_result) act" where
  "nn_call_once E st req S = (let (r, n) = se_rpc E st req (sdk_nn S) in Some (Ok r, S\<lparr>sdk_nn := n\<rparr>))"

definition put_block :: "'n sdk_env \<Rightarrow> StorageType \<Rightarrow> string \<Rightarrow> (('n, 'z) sdk_scheme, string) act" where
  "put_block E st block S =
     map_option (\<lambda>(r, cl, n). (r, S\<lparr>sdk_cluster := cl\<rparr>))
       (encode_one_block (se_fuel E) (se_client E) st (se_calls E) (se_nodes E) 0 (sdk_cluster S) block)"

definition agg_sub :: "string \<Rightarrow> FileInfo \<Rightarrow> string" where
  "agg_sub res f = res @ '','' @ int_to_string (fst (fi_pos f)) @ ''|'' @ int_to_string (snd (fi_pos f))"

fun collect_oks :: "'n sdk_env \<Rightarrow> string \<Rightarrow> FileInfo list \<Rightarrow> (('n, 'z) daemon_scheme, put_ok_req list) act" where
  "collect_oks E res [] = retM (Ok [])"
| "collect_oks E res (f # rest) =
     (\<lambda>S. if cancelled (du S) f then bindM (sdk_rm E (fi_path f)) (\<lambda>_. collect_oks E res rest) S
          else bindM (updM (upd_du (file_status DATA_UPLOADING f))) (\<lambda>_.
               bindM (collect_oks E res rest) (\<lambda>reqs. retM (Ok ((fi_path f, [agg_sub res f], fi_size f) # reqs)))) S)"

text \<open>\<open>SDK::putAggFile\<close>. The state of the tasks is set to \<open>FINISHED\<close> before the answer of the name node is looked at.\<close>

definition putAggFile :: "'n sdk_env \<Rightarrow> FileInfo list \<Rightarrow> string \<Rightarrow> string \<Rightarrow> (('n, 'z) daemon_scheme, unit) act" where
  "putAggFile E infos data storage_type =
     bindM (retM (StorageType_from_string storage_type)) (\<lambda>st.
     bindM (\<lambda>S. nn_call_once E Master (PutBatch (map (\<lambda>f. (fi_path f, storage_type)) (filter (\<lambda>f. \<not> cancelled (du S) f) infos))) S) (\<lambda>r.
     bindM (retM (check_response r)) (\<lambda>_.
     bindM (forM infos (\<lambda>f. lock_remote_paths E [fi_path f])) (\<lambda>_.
     bindM (put_block E st data) (\<lambda>res.
     bindM (collect_oks E res infos) (\<lambda>reqs.
     bindM (forM infos (\<lambda>f. bindM (updM (upd_du (file_status META_UPLOADING f))) (\<lambda>_. unlock_remote (fi_path f)))) (\<lambda>_.
     bindM (nn_call_once E Master (PutOkBatch reqs)) (\<lambda>r'.
     bindM (forM infos (\<lambda>f. updM (upd_du (file_status FINISHED f)))) (\<lambda>_.
     bindM (retM (check_response r')) (\<lambda>_. retM (Ok ())))))))))))"

definition small_file_aggregate_upload ::
  "'n sdk_env \<Rightarrow> (string \<Rightarrow> string option) \<Rightarrow> string \<Rightarrow> int \<Rightarrow> nat list \<Rightarrow> (('n, 'z) daemon_scheme, unit) act" where
  "small_file_aggregate_upload E files agg_type tnow batch =
     bindM (\<lambda>S. Some (agg_build files (du_tasks (du S)) batch 0, S)) (\<lambda>(infos, aggData).
     bindM (putAggFile E infos aggData agg_type) (\<lambda>_.
     updM (upd_du (\<lambda>D. D\<lparr>last_small_file_upload := tnow\<rparr>))))"

text \<open>One turn of the thread for small files, and one of the timer: which tasks are taken out, if any.\<close>

definition small_file_turn :: "u64 \<Rightarrow> DaemonUpload \<Rightarrow> nat list option \<times> DaemonUpload" where
  "small_file_turn agg_size_boundary D =
     (if uq_que (small_file_que D) \<noteq> [] \<and> current_all_smallfile_size (du_tasks D) (small_file_que D) \<ge> agg_size_boundary
      then (let (batch, q) = get_until_size (du_tasks D) agg_size_boundary (small_file_que D) in (Some batch, D\<lparr>small_file_que := q\<rparr>))
      else (None, D))"

definition timed_turn :: "u64 \<Rightarrow> u64 \<Rightarrow> int \<Rightarrow> DaemonUpload \<Rightarrow> nat list option \<times> DaemonUpload" where
  "timed_turn agg_size_boundary agg_timer_interval tnow D =
     (let dura = (of_int (tnow - last_small_file_upload D) :: 32 word)
      in if (ucast dura :: u64) < agg_timer_interval then (None, D)
         else
           let (batch, q) = get_until_size (du_tasks D) agg_size_boundary (small_file_que D);
               D' = D\<lparr>small_file_que := q\<rparr>
           in (if batch \<noteq> [] then Some batch else None, D'))"

text \<open>The threads: a batch that was taken is uploaded, and an exception ends the process.\<close>

definition upload_batch ::
  "'n sdk_env \<Rightarrow> (string \<Rightarrow> string option) \<Rightarrow> string \<Rightarrow> int \<Rightarrow> (DaemonUpload \<Rightarrow> nat list option \<times> DaemonUpload) \<Rightarrow> (('n, 'z) daemon_scheme, unit) act" where
  "upload_batch E files agg_type tnow turn S =
     (case turn (du S) of
        (None, D) \<Rightarrow> Some (Ok (), S\<lparr>du := D\<rparr>)
      | (Some batch, D) \<Rightarrow>
          map_option (\<lambda>(r, S'). (thread_result r, S')) (small_file_aggregate_upload E files agg_type tnow batch (S\<lparr>du := D\<rparr>)))"

section \<open>The layout of an aggregate\<close>

definition contents :: "(string \<Rightarrow> string option) \<Rightarrow> UploadTask list \<Rightarrow> nat list \<Rightarrow> string list" where
  "contents files heap ts = map (\<lambda>t. the (files (ut_local (heap ! t)))) ts"

lemma agg_build_layout:
  assumes "agg_build files heap ts pos = Ok (infos, data)"
  shows "length infos = length ts \<and> data = concat (contents files heap ts) \<and>
    (\<forall>i<length ts. let c = contents files heap ts ! i; b = pos + length (concat (take i (contents files heap ts))) in
       infos ! i = \<lparr>fi_path = ut_remote (heap ! (ts ! i)), fi_size = ut_size (heap ! (ts ! i)),
         fi_pos = (to_int32 (int b), to_int32 (int (b + length c))), fi_task_ptr = None\<rparr>)"
  using assms
proof (induction ts arbitrary: pos infos data)
  case (Cons t ts)
  obtain c infos' data' where c: "files (ut_local (heap ! t)) = Some c"
    "agg_build files heap ts (pos + length c) = Ok (infos', data')" "data = c @ data'"
    "infos = \<lparr>fi_path = ut_remote (heap ! t), fi_size = ut_size (heap ! t),
         fi_pos = (to_int32 (int pos), to_int32 (int (pos + length c))), fi_task_ptr = None\<rparr> # infos'"
    using Cons.prems by (auto simp: outcome_simps split: option.splits)
  note ih = Cons.IH [OF c(2)]
  have cont: "contents files heap (t # ts) = c # contents files heap ts" by (simp add: contents_def c(1))
  show ?case
  proof (intro conjI allI impI)
    fix i assume "i < length (t # ts)"
    with ih show "let ca = contents files heap (t # ts) ! i; b = pos + length (concat (take i (contents files heap (t # ts)))) in
       infos ! i = \<lparr>fi_path = ut_remote (heap ! ((t # ts) ! i)), fi_size = ut_size (heap ! ((t # ts) ! i)),
         fi_pos = (to_int32 (int b), to_int32 (int (b + length ca))), fi_task_ptr = None\<rparr>"
      unfolding cont c(4) by (cases i) (auto simp: Let_def add.assoc)
  qed (use ih c cont in simp_all)
qed (simp add: contents_def)

lemma concat_slice: "i < length xs \<Longrightarrow> take (length (xs ! i)) (drop (length (concat (take i xs))) (concat xs)) = xs ! i \<and>
    length (concat (take i xs)) + length (xs ! i) \<le> length (concat xs)"
proof (induction xs arbitrary: i)
  case (Cons x xs)
  then show ?case by (cases i) auto
qed simp

section \<open>Reading from an aggregate\<close>

lemma extract_int_nat:
  assumes "in_int (int n)" "r = [] \<or> \<not> is_digit (hd r)"
  shows "extract_int (int_to_string (int n) @ r) = Some (int n, r)"
proof -
  obtain c cs where n: "nat_to_string n = c # cs" and c: "is_digit c" using hd_nat_to_string by blast
  have sp: "strip_sign (dropWhile is_space (nat_to_string n @ r)) = (False, nat_to_string n @ r)"
    using n c by (auto simp: digit_not_space strip_sign_def is_digit_def)
  have "dropWhile is_digit (nat_to_string n @ r) = r"
    using assms(2) nat_to_string_digits by (auto simp: dropWhile_append dropWhile_eq_self_iff dropWhile_eq_Nil_conv)
  then show ?thesis
    using assms sp takeWhile_nat_to_string [OF assms(2)] by (simp add: extract_int_def int_to_string_def)
qed

lemma extract_range_pos:
  assumes "in_int (int b)" "in_int (int e)"
  shows "extract_range (int_to_string (int b) @ ''|'' @ int_to_string (int e)) = Some (int b, int e)"
proof -
  have b: "extract_int (int_to_string (int b) @ ''|'' @ int_to_string (int e)) = Some (int b, ''|'' @ int_to_string (int e))"
    by (rule extract_int_nat [OF assms(1)]) (simp add: string_simps)
  have "\<not> is_space (CHR ''|'')" by (simp add: is_space_def)
  with b extract_int_nat [OF assms(2), of "[]"] show ?thesis by (simp add: extract_range_def)
qed

lemma rsplit_comma_last: "CHR '','' \<notin> set pos \<Longrightarrow> rsplit_comma (front @ '','' @ pos) = Some (front, pos)"
proof -
  assume p: "CHR '','' \<notin> set pos"
  have "takeWhile (\<lambda>c. c \<noteq> CHR '','') (rev pos @ CHR '','' # rev front) = rev pos"
    "dropWhile (\<lambda>c. c \<noteq> CHR '','') (rev pos @ CHR '','' # rev front) = CHR '','' # rev front"
    using p by simp_all
  then show ?thesis by (simp add: rsplit_comma_def)
qed

text \<open>A file that lies at \<open>b\<close> to \<open>e\<close> in a block that can be read. The part that is cut out is one byte too long, and
  resizing the local file to the size of the file removes it.\<close>

lemma sdk_get_agg:
  assumes "decode_one_block C st env cl 0 res = Some (Ok block)" "b < e" "e \<le> length block" "in_int (int e)"
    "storage_type_ptr inode = Some st" "agg_inode_id inode \<noteq> []" "fi_pos f = (int b, int e)" "sub inode = [agg_sub res f]"
    "unat (filesize inode) = e - b"
  shows "sdk_get C env cl True inode = Some (Ok (take (e - b) (drop b block)))"
proof -
  have ib: "in_int (int b)" using assms(2,4) by (simp add: in_int_def INT_MIN_def INT_MAX_def)
  let ?pos = "int_to_string (int b) @ ''|'' @ int_to_string (int e)"
  have "CHR '','' \<notin> set ?pos" by (simp add: string_simps)
  from rsplit_comma_last [OF this, of res] have rs: "rsplit_comma (agg_sub res f) = Some (res, ?pos)"
    by (simp add: agg_sub_def assms(7))
  have "\<not> (int b < 0 \<or> (int e < 0 \<or> int e > int (length block)) \<or> int b \<ge> int e)" using assms(2,3) by simp
  then have part: "get_agg_part C st env cl [agg_sub res f] = Some (Ok (take (nat (int e - int b + 1)) (drop (nat (int b)) block)))"
    unfolding get_agg_part_def Let_def list.case rs option.case prod.case extract_range_pos [OF ib assms(4)] option.map assms(1) outcome.case
    by (simp only: if_False)
  have "nat (int e - int b + 1) = Suc (e - b)" using assms(2) by simp
  moreover have "length (take (Suc (e - b)) (drop b block)) \<ge> e - b" using assms(3) by simp
  ultimately have "resize_file (take (nat (int e - int b + 1)) (drop (nat (int b)) block)) (e - b) = take (e - b) (drop b block)"
    using resize_file_exact [of "e - b" "take (Suc (e - b)) (drop b block)"] by (simp add: min_def)
  then show ?thesis unfolding sdk_get_def assms(5,8) option.case part using assms(6,9) by simp
qed

section \<open>What an aggregate upload does\<close>

definition ok_req :: "string \<Rightarrow> FileInfo \<Rightarrow> put_ok_req" where
  "ok_req res f = (fi_path f, [agg_sub res f], fi_size f)"

lemma no_task:
  assumes "fi_task_ptr f = None"
  shows "\<not> cancelled D f" "upd_du (file_status st f) S = S"
  using assms by (simp_all add: cancelled_def file_status_def upd_du_def)

lemma collect_oks_no_task:
  "\<forall>f\<in>set infos. fi_task_ptr f = None \<Longrightarrow> collect_oks E res infos S = Some (Ok (map (ok_req res) infos), S)"
  by (induction infos arbitrary: S) (auto simp: no_task ok_req_def)

lemma forM_skip: "(\<And>x s. x \<in> set xs \<Longrightarrow> f x s = Some (Ok (), s)) \<Longrightarrow> forM xs f s = Some (Ok (), s)"
  by (induction xs) auto

lemma keeps_forM [intro]: "(\<And>x. x \<in> set xs \<Longrightarrow> keeps g (f x)) \<Longrightarrow> keeps g (forM xs f)"
  by (induction xs) (auto intro!: keeps_bindM)

lemma keeps_cluster [simp]: "keeps sdk_cluster (nn_call E st req)" "keeps sdk_cluster (nn_call_once E st req)"
  by (auto simp: keeps_def nn_call_def nn_call_once_def split: prod.splits)

lemma agg_build_no_task: "agg_build files heap ts pos = Ok (infos, data) \<Longrightarrow> \<forall>f\<in>set infos. fi_task_ptr f = None"
  using agg_build_layout [of files heap ts pos infos data] by (auto simp: in_set_conv_nth Let_def)

lemma check_response_Ok: "check_response r = Ok d \<longleftrightarrow> (\<exists>rsp. r = Reply rsp d \<and> success rsp)"
  by (cases r) (auto split: if_splits option.splits)

lemma putAggFile_run:
  fixes S :: "('n, 'z) daemon_scheme"
  assumes run: "putAggFile E infos data storage_type S = Some (Ok (), S')" and no: "\<forall>f\<in>set infos. fi_task_ptr f = None"
  obtains st res n rsp d n' where "StorageType_from_string storage_type = Ok st"
    "encode_one_block (se_fuel E) (se_client E) st (se_calls E) (se_nodes E) 0 (sdk_cluster S) data = Some (Ok res, sdk_cluster S', n)"
    "se_rpc E Master (PutOkBatch (map (ok_req res) infos)) n' = (Reply rsp d, sdk_nn S')" "success rsp"
proof -
  let ?put = "\<lambda>S :: ('n, 'z) daemon_scheme. nn_call_once E Master (PutBatch (map (\<lambda>f. (fi_path f, storage_type)) (filter (\<lambda>f. \<not> cancelled (du S) f) infos))) S"
  let ?lock = "forM infos (\<lambda>f. lock_remote_paths E [fi_path f])"
  let ?unlock = "forM infos (\<lambda>f. bindM (updM (upd_du (file_status META_UPLOADING f))) (\<lambda>_. unlock_remote (fi_path f)))"
  have fin: "forM infos (\<lambda>f. updM (upd_du (file_status FINISHED f))) T = Some (Ok (), T)" for T :: "('n, 'z) daemon_scheme"
    by (rule forM_skip) (use no in \<open>simp add: no_task\<close>)
  obtain st res r0 rsp d S1 S2 S3 S4 where s: "StorageType_from_string storage_type = Ok st" "?put S = Some (Ok r0, S1)" "?lock S1 = Some (Ok (), S2)"
    "put_block E st data S2 = Some (Ok res, S3)" "?unlock S3 = Some (Ok (), S4)"
    "nn_call_once E Master (PutOkBatch (map (ok_req res) infos)) S4 = Some (Ok (Reply rsp d), S')" "success rsp"
  proof -
    obtain st S0 r0 S1 c T u S2 res S3 reqs S3' v S4 r' S5 w S6 d S7 where
      1: "retM (StorageType_from_string storage_type) S = Some (Ok st, S0)" "?put S0 = Some (Ok r0, S1)" "retM (check_response r0) S1 = Some (Ok c, T)"
      and 2: "?lock T = Some (Ok u, S2)" "put_block E st data S2 = Some (Ok res, S3)" "collect_oks E res infos S3 = Some (Ok reqs, S3')"
      and 3: "?unlock S3' = Some (Ok v, S4)" "nn_call_once E Master (PutOkBatch reqs) S4 = Some (Ok r', S5)"
        "forM infos (\<lambda>f. updM (upd_du (file_status FINISHED f))) S5 = Some (Ok w, S6)" "retM (check_response r') S6 = Some (Ok d, S7)"
        "retM (Ok ()) S7 = Some (Ok (), S')"
      using run [unfolded putAggFile_def] by (elim bindM_OkE) (rule that)
    have "reqs = map (ok_req res) infos" "S3' = S3" using 2(3) by (simp_all add: collect_oks_no_task [OF no])
    moreover have "S6 = S5" "S7 = S6" "S' = S7" "S0 = S" "T = S1" "StorageType_from_string storage_type = Ok st"
      using 1 3 fin by simp_all
    moreover obtain rsp where "r' = Reply rsp d" "success rsp" using 3(4) by (auto simp: check_response_Ok)
    ultimately show thesis using 1(2) 2(1,2) 3(1,2) by (intro that [of st r0 S1 S2 res S3 S4 rsp d]) simp_all
  qed
  have k1: "keeps sdk_cluster ?put" by (auto simp: keeps_def nn_call_once_def split: prod.splits)
  have k2: "keeps sdk_cluster ?lock" "keeps sdk_cluster ?unlock"
    unfolding lock_remote_paths_def by (intro keeps_forM keeps_bindM; simp add: unlock_remote_def upd_du_def)+
  have c2: "sdk_cluster S2 = sdk_cluster S" using keepsD [OF k1 s(2)] keepsD [OF k2(1) s(3)] by simp
  have c4: "sdk_cluster S' = sdk_cluster S3" using keepsD [OF k2(2) s(5)] keepsD [OF keeps_cluster(2) s(6)] by simp
  obtain n where "encode_one_block (se_fuel E) (se_client E) st (se_calls E) (se_nodes E) 0 (sdk_cluster S) data = Some (Ok res, sdk_cluster S', n)"
    using s(4) c2 c4 by (auto simp: put_block_def)
  moreover have "se_rpc E Master (PutOkBatch (map (ok_req res) infos)) (sdk_nn S4) = (Reply rsp d, sdk_nn S')"
    using s(6) by (auto simp: nn_call_once_def split: prod.splits)
  ultimately show thesis using that s(1,7) by blast
qed

text \<open>A name node that accepts every request, and the upload through it.\<close>

definition rpc_good :: "'n sdk_env \<Rightarrow> bool" where
  "rpc_good E \<longleftrightarrow> (\<forall>req n. \<exists>rsp d n'. se_rpc E Master req n = (Reply rsp d, n') \<and> success rsp)"

lemma rpc_goodE:
  assumes "rpc_good E"
  obtains rsp d n' where "se_rpc E Master req n = (Reply rsp d, n')" "success rsp"
  using assms unfolding rpc_good_def by blast

lemma lock_all: "rpc_good E \<Longrightarrow> \<exists>n. forM infos (\<lambda>f. lock_remote_paths E [fi_path f]) S = Some (Ok (), S\<lparr>sdk_nn := n\<rparr>)"
proof (induction infos arbitrary: S)
  case Nil
  show ?case by (intro exI [of _ "sdk_nn S"]) simp
next
  case (Cons f infos)
  obtain rsp d n' where "se_rpc E Master (UpdateLock [fi_path f]) (sdk_nn S) = (Reply rsp d, n')" "success rsp" using rpc_goodE [OF Cons.prems] .
  then have "lock_remote_paths E [fi_path f] S = Some (Ok (), S\<lparr>sdk_nn := n'\<rparr>)"
    unfolding lock_remote_paths_def by (intro ignore_reply(1))
  with Cons.IH [OF Cons.prems, of "S\<lparr>sdk_nn := n'\<rparr>"] show ?case by auto
qed

lemma unlock_all:
  "\<forall>f\<in>set infos. fi_task_ptr f = None \<Longrightarrow>
     \<exists>l. forM infos (\<lambda>f. bindM (updM (upd_du (file_status u f))) (\<lambda>_. unlock_remote (fi_path f))) S = Some (Ok (), S\<lparr>remoteLocks := l\<rparr>)"
proof (induction infos arbitrary: S)
  case Nil
  show ?case by (intro exI [of _ "remoteLocks S"]) simp
next
  case (Cons f infos)
  from Cons.IH [of "S\<lparr>remoteLocks := removeAll (fi_path f) (remoteLocks S)\<rparr>"] Cons.prems
  show ?case by (auto simp: no_task unlock_remote_def)
qed

lemma putAggFile_ok:
  assumes rpc: "rpc_good E" and no: "\<forall>f\<in>set infos. fi_task_ptr f = None" and st: "StorageType_from_string storage_type = Ok st"
    and enc: "encode_one_block (se_fuel E) (se_client E) st (se_calls E) (se_nodes E) 0 (sdk_cluster S) data = Some (Ok res, cl, k)"
  shows "\<exists>S'. putAggFile E infos data storage_type S = Some (Ok (), S')"
proof -
  have fin: "forM infos (\<lambda>f. updM (upd_du (file_status FINISHED f))) T = Some (Ok (), T)" for T
    by (rule forM_skip) (use no in \<open>simp add: no_task\<close>)
  let ?req = "PutBatch (map (\<lambda>f. (fi_path f, storage_type)) (filter (\<lambda>f. \<not> cancelled (du S) f) infos))"
  obtain rsp d n1 where "se_rpc E Master ?req (sdk_nn S) = (Reply rsp d, n1)" "success rsp" using rpc_goodE [OF rpc] .
  then have 1: "nn_call_once E Master ?req S = Some (Ok (Reply rsp d), S\<lparr>sdk_nn := n1\<rparr>)" "check_response (Reply rsp d) = Ok d"
    by (simp_all add: nn_call_once_def)
  obtain n2 where 2: "forM infos (\<lambda>f. lock_remote_paths E [fi_path f]) (S\<lparr>sdk_nn := n1\<rparr>) = Some (Ok (), S\<lparr>sdk_nn := n2\<rparr>)"
    using lock_all [OF rpc, of infos "S\<lparr>sdk_nn := n1\<rparr>"] by auto
  let ?S3 = "S\<lparr>sdk_nn := n2, sdk_cluster := cl\<rparr>"
  have 3: "put_block E st data (S\<lparr>sdk_nn := n2\<rparr>) = Some (Ok res, ?S3)" using enc by (simp add: put_block_def)
  obtain l where 4: "forM infos (\<lambda>f. bindM (updM (upd_du (file_status META_UPLOADING f))) (\<lambda>_. unlock_remote (fi_path f))) ?S3 =
      Some (Ok (), ?S3\<lparr>remoteLocks := l\<rparr>)" using unlock_all [OF no, of META_UPLOADING ?S3] by blast
  let ?ok = "PutOkBatch (map (ok_req res) infos)" and ?S4 = "?S3\<lparr>remoteLocks := l\<rparr>"
  obtain rsp' d' n3 where "se_rpc E Master ?ok (sdk_nn ?S4) = (Reply rsp' d', n3)" "success rsp'" using rpc_goodE [OF rpc] .
  then have 5: "nn_call_once E Master ?ok ?S4 = Some (Ok (Reply rsp' d'), ?S4\<lparr>sdk_nn := n3\<rparr>)" "check_response (Reply rsp' d') = Ok d'"
    by (simp_all add: nn_call_once_def)
  show ?thesis
    unfolding putAggFile_def
    by (simp del: check_response.simps add: st 1 2 3 collect_oks_no_task [OF no] 4 5 fin)
qed

lemma agg_build_ok:
  "\<forall>t\<in>set ts. files (ut_local (h ! t)) \<noteq> None \<Longrightarrow> \<exists>infos data. agg_build files h ts pos = Ok (infos, data)"
proof (induction ts arbitrary: pos)
  case (Cons t ts)
  then obtain c where "files (ut_local (h ! t)) = Some c" by auto
  with Cons.IH [of "pos + length c"] Cons.prems show ?case by auto
qed simp

section \<open>Properties\<close>


definition demo_files :: "string \<Rightarrow> string option" where
  "demo_files = [''l1'' \<mapsto> ''ab'', ''l2'' \<mapsto> ''c'']"

definition demo_daemon :: "'n \<Rightarrow> 'n daemon" where
  "demo_daemon n = sdk.extend (demo_sdk n) (daemon.fields
     \<lparr>du_stop = False, filesize_boundary = 100, small_file_que = new_UploadQueue (- 1), big_file_que = new_UploadQueue (- 1),
      du_tasks = [(demo_task ''/a'' 2)\<lparr>ut_local := ''l1''\<rparr>, (demo_task ''/b'' 1)\<lparr>ut_local := ''l2''\<rparr>], last_small_file_upload = 0\<rparr>)"

lemma demo_calls_good: "calls_good (demo_client ''abc'') (REStorageType 2 1) (\<lambda>n. demo_call 9) [''n:1''] 2 [''abc''] [''abc'']"
  using demo_call_good demo_client_facts demo_node_text by (auto simp: calls_good_def all_good_def)


section \<open>Cancelling\<close>

text \<open>Computations that do not look at the daemon and leave it alone, up to a change of it that commutes with theirs.\<close>

definition blind :: "(DaemonUpload \<Rightarrow> DaemonUpload) \<Rightarrow> (('n, 'z) daemon_scheme, 'a) act \<Rightarrow> bool" where
  "blind g m \<longleftrightarrow> (\<forall>S. m (upd_du g S) = map_option (\<lambda>(r, T). (r, upd_du g T)) (m S))"

lemma blind_bindM: "blind g m \<Longrightarrow> (\<And>x. blind g (f x)) \<Longrightarrow> blind g (bindM m f)"
  unfolding blind_def bindM_def by (auto split: option.splits outcome.splits)

lemma blind_retM: "blind g (retM r)" "(\<And>S. h (upd_du g S) = upd_du g (h S)) \<Longrightarrow> blind g (updM h)"
  by (simp_all add: blind_def)

lemma blind_calls: "blind g (nn_call E st req)" "blind g (nn_call_once E st req)" "blind g (put_block E t b)"
  by (auto simp: blind_def nn_call_def nn_call_once_def put_block_def upd_du_def option.map_comp split: prod.splits intro!: option.map_cong)

lemma blind_forM: "(\<And>x. blind g (f x)) \<Longrightarrow> blind g (forM xs f)"
  by (induction xs) (auto simp: blind_retM intro: blind_bindM)

lemma forM_cong: "(\<And>x. x \<in> set xs \<Longrightarrow> f x = h x) \<Longrightarrow> forM xs f = forM xs h"
  by (induction xs) auto

lemma updM_no_task: "fi_task_ptr f = None \<Longrightarrow> updM (upd_du (file_status u f)) = retM (Ok ())"
  by (intro ext) (simp add: no_task)

lemma putAggFile_blind:
  assumes no: "\<forall>f\<in>set infos. fi_task_ptr f = None"
  shows "blind g (putAggFile E infos data storage_type)"
proof -
  have 1: "filter (\<lambda>f. \<not> cancelled (du S) f) infos = infos" for S :: "('n, 'z) daemon_scheme" using no by (simp add: no_task)
  have 2: "collect_oks E res infos = retM (Ok (map (ok_req res) infos))" for res :: string
    by (rule ext) (simp add: collect_oks_no_task [OF no])
  have 3: "forM infos (\<lambda>f. bindM (updM (upd_du (file_status META_UPLOADING f))) (\<lambda>_. unlock_remote (fi_path f))) =
      forM infos (\<lambda>f. bindM (retM (Ok ())) (\<lambda>_. unlock_remote (fi_path f)))"
    "forM infos (\<lambda>f. updM (upd_du (file_status FINISHED f))) = forM infos (\<lambda>f. retM (Ok ()))"
    using no by (auto intro!: forM_cong simp: updM_no_task)
  show ?thesis
    unfolding putAggFile_def 1 2 3 unfolding lock_remote_paths_def unlock_remote_def
    by (intro blind_bindM blind_retM blind_calls blind_forM; simp add: upd_du_def)
qed

lemma agg_build_cong:
  assumes "\<And>t. ut_local (h ! t) = ut_local (h' ! t) \<and> ut_remote (h ! t) = ut_remote (h' ! t) \<and> ut_size (h ! t) = ut_size (h' ! t)"
  shows "agg_build files h ts pos = agg_build files h' ts pos"
  by (induction ts arbitrary: pos) (simp_all add: assms split: option.split)

lemma uq_rm_same:
  "ut_local (uq_rm q p h ! t) = ut_local (h ! t) \<and> ut_remote (uq_rm q p h ! t) = ut_remote (h ! t) \<and> ut_size (uq_rm q p h ! t) = ut_size (h ! t)"
  by (cases "find_in_map q p"; cases "the (find_in_map q p) < length h") (auto simp: uq_rm_def nth_list_update list_update_beyond)

text \<open>C38: Cancelling the upload of a small file has no effect. Whatever state the daemon is in when \<open>rm\<close> marks the task of a path as
  cancelled, the aggregate upload that follows has the same result and does the same to the name nodes and to the data nodes
  as without it: the \<^verbatim>\<open>FileInfo\<close> of a file never points to its task. Only the mark stays.\<close>

theorem cancelling_changes_nothing:
  fixes S S1 :: "('n, 'z) daemon_scheme"
  assumes "du_rm E' p S = Some (r0, S1)" "find_in_map (big_file_que (du S)) p = None" "find_in_map (small_file_que (du S)) p \<noteq> None"
  shows "small_file_aggregate_upload E files agg_type tnow batch S1 =
    map_option (\<lambda>(r, T). (r, upd_du (\<lambda>D. D\<lparr>du_tasks := du_tasks (du S1)\<rparr>) T)) (small_file_aggregate_upload E files agg_type tnow batch S)"
proof -
  let ?H = "uq_rm (small_file_que (du S)) p (du_tasks (du S))"
  let ?g = "\<lambda>D. D\<lparr>du_tasks := ?H\<rparr>"
  have S1: "S1 = upd_du ?g S" using assms by (auto simp: du_rm_def Let_def upd_du_def)
  then have H: "du_tasks (du S1) = ?H" by (simp add: upd_du_def)
  have ab: "agg_build files ?H batch 0 = agg_build files (du_tasks (du S)) batch 0" by (rule agg_build_cong) (rule uq_rm_same)
  show ?thesis
  proof (cases "agg_build files (du_tasks (du S)) batch 0")
    case (Ok x)
    obtain infos data where x: "x = (infos, data)" by (cases x)
    have bl: "blind ?g (bindM (putAggFile E infos data agg_type) (\<lambda>_. updM (upd_du (\<lambda>D. D\<lparr>last_small_file_upload := tnow\<rparr>))) :: (('n, 'z) daemon_scheme, unit) act)"
      using agg_build_no_task [OF Ok [unfolded x]]
      by (intro blind_bindM putAggFile_blind blind_retM) (simp_all add: upd_du_def)
    show ?thesis using bl [unfolded blind_def] Ok x ab H by (simp add: small_file_aggregate_upload_def S1)
  qed (use ab H S1 in \<open>simp_all add: small_file_aggregate_upload_def\<close>)
qed

definition demo_queued :: "'n \<Rightarrow> 'n daemon" where
  "demo_queued n = upd_du (\<lambda>D. D\<lparr>small_file_que := (small_file_que D)\<lparr>uq_que := [0], uq_map := [(''/'', [(''a'', 0)])]\<rparr>\<rparr>) (demo_daemon n)"

theorem cancelling_changes_nothing_witness:
  "\<exists>S1. du_rm demo_session ''/a'' (demo_queued demo_inode) = Some (Ok True, S1) \<and> uploadStatus (du_tasks (du S1) ! 0) = CANCELED \<and>
    small_file_aggregate_upload demo_session demo_files ''RE<2,1>'' 5 [0, 1] S1 =
      map_option (\<lambda>(r, T). (r, upd_du (\<lambda>D. D\<lparr>du_tasks := du_tasks (du S1)\<rparr>) T))
        (small_file_aggregate_upload demo_session demo_files ''RE<2,1>'' 5 [0, 1] (demo_queued demo_inode))"
proof -
  let ?S = "demo_queued demo_inode"
  have p: "parent_path_of ''/a'' = ''/''" "filename_of ''/a'' = ''a''" by code_simp+
  have f: "find_in_map (big_file_que (du ?S)) ''/a'' = None" "find_in_map (small_file_que (du ?S)) ''/a'' = Some 0"
    by (simp_all add: find_in_map_def p demo_queued_def demo_daemon_def upd_du_def sdk.defs daemon.defs demo_sdk_def new_UploadQueue_def)
  let ?S1 = "upd_du (\<lambda>D. D\<lparr>du_tasks := uq_rm (small_file_que D) ''/a'' (du_tasks D)\<rparr>) ?S"
  have r: "du_rm demo_session ''/a'' ?S = Some (Ok True, ?S1)" using f by (simp add: du_rm_def Let_def)
  have "uploadStatus (du_tasks (du ?S1) ! 0) = CANCELED"
    using f(2) by (simp add: upd_du_def uq_rm_def) (simp add: demo_queued_def demo_daemon_def upd_du_def sdk.defs daemon.defs demo_sdk_def demo_task_def)
  with r cancelling_changes_nothing [OF r f(1), of demo_session demo_files "''RE<2,1>''" 5 "[0, 1]"] f(2) show ?thesis by auto
qed

end
