(* ===== verification/Upload_Inv.thy ===== *)
theory Upload_Inv
  imports Uploads
begin

text \<open>
  An invariant of the upload daemon (\<^verbatim>\<open>src/client/daemon_upload.cpp\<close>): \<open>du_wf\<close> holds of a new daemon and every request and
  every turn of a thread keeps it. \<open>daemon_step\<close> is one such request or turn, with any answers of the name nodes and the
  data nodes and whether it succeeds or not, and \<open>daemon_run\<close> is a sequence of them. The locale \<open>upload_fact\<close> is about any fact
  that the uploads themselves cannot destroy; well-formedness is one.
\<close>

section \<open>Well-formed daemons\<close>

text \<open>Queue and table point to tasks; the table has each task under its own path. A table has no key twice.\<close>

definition table_get :: "UploadQueue \<Rightarrow> string \<Rightarrow> string \<Rightarrow> nat option" where
  "table_get q parent name = (case map_of (uq_map q) parent of None \<Rightarrow> None | Some d \<Rightarrow> map_of d name)"

definition keys_ok :: "UploadQueue \<Rightarrow> bool" where
  "keys_ok q \<longleftrightarrow> distinct (map fst (uq_map q)) \<and> (\<forall>d\<in>snd ` set (uq_map q). distinct (map fst d))"

definition table_ok :: "UploadTask list \<Rightarrow> UploadQueue \<Rightarrow> bool" where
  "table_ok h q \<longleftrightarrow> keys_ok q \<and> (\<forall>t\<in>set (uq_que q). t < length h) \<and>
     (\<forall>parent name t. table_get q parent name = Some t \<longrightarrow>
        t < length h \<and> parent_path_of (ut_remote (h ! t)) = parent \<and> filename_of (ut_remote (h ! t)) = name)"

definition du_wf :: "DaemonUpload \<Rightarrow> bool" where
  "du_wf D \<longleftrightarrow> table_ok (du_tasks D) (small_file_que D) \<and> table_ok (du_tasks D) (big_file_que D) \<and>
     distinct (uq_que (small_file_que D) @ uq_que (big_file_que D)) \<and>
     (\<forall>t\<in>set (uq_que (small_file_que D)). belong_que (du_tasks D ! t) = SmallQue) \<and>
     (\<forall>t\<in>set (uq_que (big_file_que D)). belong_que (du_tasks D ! t) = BigQue)"

text \<open>Changes of the tasks that keep paths and queues.\<close>

definition same_tasks :: "UploadTask list \<Rightarrow> UploadTask list \<Rightarrow> bool" where
  "same_tasks h h' \<longleftrightarrow> length h' = length h \<and> (\<forall>t<length h. ut_remote (h' ! t) = ut_remote (h ! t) \<and> belong_que (h' ! t) = belong_que (h ! t))"

lemma same_tasks_upd: "same_tasks h (h[t := (h ! t)\<lparr>uploadStatus := u\<rparr>])" "same_tasks h h"
  by (cases "t < length h"; auto simp: same_tasks_def nth_list_update list_update_beyond)+

lemma same_tasks_marks: "same_tasks h (change_status q p u h)" "same_tasks h (uq_rm q p h)"
  by (simp_all add: change_status_def uq_rm_def same_tasks_upd split: option.split)

lemma table_ok_same: "same_tasks h h' \<Longrightarrow> table_ok h q \<Longrightarrow> table_ok h' q"
  by (auto simp: table_ok_def same_tasks_def)

lemma du_wf_same:
  assumes "du_wf D" "same_tasks (du_tasks D) h"
  shows "du_wf (D\<lparr>du_tasks := h\<rparr>)"
proof -
  have "t < length (du_tasks D)" if "t \<in> set (uq_que (small_file_que D)) \<union> set (uq_que (big_file_que D))" for t
    using assms(1) that by (auto simp: du_wf_def table_ok_def)
  with assms table_ok_same [OF assms(2)] show ?thesis by (auto simp: du_wf_def same_tasks_def)
qed

lemma find_in_map_get: "find_in_map q p = table_get q (parent_path_of p) (filename_of p)"
  by (simp add: find_in_map_def table_get_def)

lemma table_get_put:
  "table_get (q\<lparr>uq_que := ts, uq_map := table_put a b t (uq_map q)\<rparr>) x y = (if x = a \<and> y = b then Some t else table_get q x y)"
  by (cases "map_of (uq_map q) a") (auto simp: table_get_def table_put_def update_conv')

lemma table_get_que: "table_get (q\<lparr>uq_que := ts\<rparr>) = table_get q"
  by (simp add: table_get_def fun_eq_iff)

lemma keys_ok_map: "keys_ok q \<Longrightarrow> uq_map q' = uq_map q \<Longrightarrow> keys_ok q'"
  by (simp add: keys_ok_def)

lemma table_get_map: "uq_map q' = uq_map q \<Longrightarrow> table_get q' = table_get q"
  by (simp add: table_get_def fun_eq_iff)

lemma set_update_subset: "set (AList.update k v al) \<subseteq> insert (k, v) (set al)"
  by (induction al) auto

lemma keys_ok_put:
  assumes "keys_ok q" "uq_map q' = table_put a b t (uq_map q)"
  shows "keys_ok q'"
proof -
  let ?d = "case map_of (uq_map q) a of None \<Rightarrow> [] | Some d \<Rightarrow> d"
  have "distinct (map fst ?d)" using assms(1) by (force simp: keys_ok_def split: option.splits dest: map_of_SomeD)
  then have d: "distinct (map fst (AList.update b t ?d))" by (rule distinct_update)
  have "distinct (map fst (uq_map q'))" using assms by (simp add: keys_ok_def table_put_def distinct_update)
  moreover have "distinct (map fst e)" if "(k, e) \<in> set (uq_map q')" for k e
    using that set_update_subset [of a "AList.update b t ?d" "uq_map q"] assms d by (force simp: keys_ok_def table_put_def)
  ultimately show ?thesis by (auto simp: keys_ok_def)
qed

lemma push_back_ok:
  assumes "push_back n t h q = Ok (h', q')" "t < length h"
  shows "h' = h[t := (h ! t)\<lparr>uploadStatus := WAITING, belong_que := n\<rparr>]" "uq_que q' = uq_que q @ [t]" "table_ok h q \<Longrightarrow> table_ok h' q'"
    "table_ok h p \<Longrightarrow> table_ok h' p"
proof -
  let ?p = "ut_remote (h ! t)"
  have e: "h' = h[t := (h ! t)\<lparr>uploadStatus := WAITING, belong_que := n\<rparr>]"
    "q' = q\<lparr>uq_que := uq_que q @ [t], uq_map := table_put (parent_path_of ?p) (filename_of ?p) t (uq_map q)\<rparr>"
    using assms(1) by (auto simp: push_back_def Let_def split: if_splits)
  then show "h' = h[t := (h ! t)\<lparr>uploadStatus := WAITING, belong_que := n\<rparr>]" "uq_que q' = uq_que q @ [t]" by simp_all
  have r: "ut_remote (h' ! k) = ut_remote (h ! k)" "length h' = length h" for k
    using assms(2) by (cases "k = t"; simp add: e(1))+
  show "table_ok h' q'" if "table_ok h q"
    using that assms(2) keys_ok_put [of q q'] by (auto simp: table_ok_def r e(2) table_get_put)
  show "table_ok h' p" if "table_ok h p" using that by (auto simp: table_ok_def r)
qed

lemma table_ok_grow: "table_ok h q \<Longrightarrow> table_ok (h @ [x]) q"
  by (auto simp: table_ok_def nth_append less_SucI)

lemma upload_wf:
  assumes "du_wf D" "upload files l r st D = Ok D'"
  shows "du_wf D'"
proof -
  let ?t = "length (du_tasks D)"
  obtain x n where p: "push_to n ?t (D\<lparr>du_tasks := du_tasks D @ [x]\<rparr>) = Ok D'"
    using assms(2) by (auto simp: upload_def Let_def split: if_splits option.splits)
  obtain h q where b: "push_back n ?t (du_tasks D @ [x]) (que_of D n) = Ok (h, q)"
    "D' = (case n of SmallQue \<Rightarrow> D\<lparr>du_tasks := h, small_file_que := q\<rparr> | BigQue \<Rightarrow> D\<lparr>du_tasks := h, big_file_que := q\<rparr>)"
    using p by (cases n) (auto simp: push_to_def que_of_def outcome_simps)
  have lt: "?t < length (du_tasks D @ [x])" by simp
  note pb = push_back_ok [OF b(1) lt]
  have old: "t < ?t" if "t \<in> set (uq_que (small_file_que D)) \<union> set (uq_que (big_file_que D))" for t
    using assms(1) that by (auto simp: du_wf_def table_ok_def)
  have nth: "belong_que (h ! t) = (if t = ?t then n else belong_que (du_tasks D ! t))" if "t \<le> ?t" for t
    using that by (auto simp: pb(1) nth_append nth_list_update)
  have tab: "table_ok h q" "table_ok h (small_file_que D)" "table_ok h (big_file_que D)"
    using pb(3,4) assms(1) table_ok_grow [of "du_tasks D" _ x] by (auto simp: du_wf_def que_of_def split: que_name.splits)
  show ?thesis
    using assms(1) old tab pb(2) nth
    by (cases n) (fastforce simp: du_wf_def b(2) que_of_def)+
qed

lemma take_out:
  assumes "exist_in_que h l r q = (Some t, q')" "distinct (uq_que q)"
  shows "t \<in> set (uq_que q)" "set (uq_que q') = set (uq_que q) - {t}" "distinct (uq_que q')" "uq_map q' = uq_map q"
proof -
  let ?P = "\<lambda>t. ut_local (h ! t) = l \<and> ut_remote (h ! t) = r"
  have f: "find ?P (uq_que q) = Some t" "uq_que q' = takeWhile (\<lambda>t. \<not> ?P t) (uq_que q) @ tl (dropWhile (\<lambda>t. \<not> ?P t) (uq_que q))" "uq_map q' = uq_map q"
    using assms(1) by (auto simp: exist_in_que_def Let_def)
  have "t \<in> set xs \<and> set (takeWhile (\<lambda>t. \<not> ?P t) xs @ tl (dropWhile (\<lambda>t. \<not> ?P t) xs)) = set xs - {t} \<and>
      distinct (takeWhile (\<lambda>t. \<not> ?P t) xs @ tl (dropWhile (\<lambda>t. \<not> ?P t) xs))" if "find ?P xs = Some t" "distinct xs" for xs
    using that by (induction xs) (auto split: if_splits dest: set_takeWhileD)
  from this [OF f(1) assms(2)] f(2,3) show "t \<in> set (uq_que q)" "set (uq_que q') = set (uq_que q) - {t}" "distinct (uq_que q')" "uq_map q' = uq_map q"
    by simp_all
qed

lemma fsync_wf:
  assumes "du_wf D" "du_fsync l r D = Ok (b, D')"
  shows "du_wf D'"
proof (cases "exist_in_que (du_tasks D) l r (small_file_que D)")
  case (Pair found q)
  show ?thesis
  proof (cases found)
    case None
    with assms Pair show ?thesis by (simp add: du_fsync_def)
  next
    case (Some t)
    have d: "distinct (uq_que (small_file_que D))" using assms(1) by (simp add: du_wf_def)
    note out = take_out [OF Pair [unfolded Some] d]
    have p: "push_to BigQue t (D\<lparr>small_file_que := q\<rparr>) = Ok D'" using assms(2) Pair Some by (simp add: du_fsync_def outcome_simps)
    then obtain h q2 where b: "push_back BigQue t (du_tasks D) (big_file_que D) = Ok (h, q2)" "D' = D\<lparr>small_file_que := q, du_tasks := h, big_file_que := q2\<rparr>"
      by (auto simp: push_to_def que_of_def outcome_simps)
    have lt: "t < length (du_tasks D)" "t \<notin> set (uq_que (big_file_que D))" using assms(1) out(1) by (auto simp: du_wf_def table_ok_def)
    note pb = push_back_ok [OF b(1) lt(1)]
    have "table_ok (du_tasks D) q"
      using assms(1) out(2) keys_ok_map [OF _ out(4)] table_get_map [OF out(4)] by (simp add: du_wf_def table_ok_def)
    then have tab: "table_ok h q" "table_ok h q2" using pb(3,4) assms(1) by (simp_all add: du_wf_def)
    have nth: "belong_que (h ! u) = (if u = t then BigQue else belong_que (du_tasks D ! u))" for u
      using lt(1) by (auto simp: pb(1))
    show ?thesis using assms(1) tab out(2,3) lt(2) pb(2) nth by (auto simp: du_wf_def b(2))
  qed
qed

text \<open>Taking tasks out of a queue.\<close>

lemma shrink_wf:
  assumes "du_wf D"
  shows "uq_que (small_file_que D) = xs @ ts \<Longrightarrow> du_wf (D\<lparr>small_file_que := (small_file_que D)\<lparr>uq_que := ts\<rparr>\<rparr>)"
    "uq_que (big_file_que D) = xs @ ts \<Longrightarrow> du_wf (D\<lparr>big_file_que := (big_file_que D)\<lparr>uq_que := ts\<rparr>\<rparr>)"
  using assms by (auto simp: du_wf_def table_ok_def table_get_que keys_ok_def)

lemma turn_wf:
  assumes "du_wf D" "turn = small_file_turn b \<or> turn = timed_turn b iv tnow"
  shows "du_wf (snd (turn D))"
proof -
  obtain batch q where g: "get_until_size (du_tasks D) b (small_file_que D) = (batch, q)" by fastforce
  have "uq_que (small_file_que D) = batch @ uq_que q" "q = (small_file_que D)\<lparr>uq_que := uq_que q\<rparr>"
    using get_until_size_prefix(1) [OF g] g by (auto simp: get_until_size_def split: prod.splits)
  with shrink_wf(1) [OF assms(1), of batch "uq_que q"] have "du_wf (D\<lparr>small_file_que := q\<rparr>)" by simp
  with assms g show ?thesis by (auto simp: small_file_turn_def timed_turn_def Let_def)
qed

subsection \<open>Computations keep it\<close>

definition preserves :: "('s \<Rightarrow> bool) \<Rightarrow> ('s, 'a) act \<Rightarrow> bool" where
  "preserves P m \<longleftrightarrow> (\<forall>s r s'. P s \<longrightarrow> m s = Some (r, s') \<longrightarrow> P s')"

lemma preservesD: "preserves P m \<Longrightarrow> P s \<Longrightarrow> m s = Some (r, s') \<Longrightarrow> P s'"
  unfolding preserves_def by blast

lemma preserves_bindM:
  assumes m: "preserves P m" and f: "\<And>x. preserves P (f x)"
  shows "preserves P (bindM m f)"
  unfolding preserves_def
proof (intro allI impI)
  fix s r s' assume P: "P s" and b: "bindM m f s = Some (r, s')"
  obtain a s1 where a: "m s = Some (a, s1)" using b by (cases "m s") (auto simp: bindM_def)
  from b show "P s'" using preservesD [OF m P a] preservesD [OF f] a by (cases a) (auto simp: bindM_def)
qed

lemma preserves_retM: "preserves P (retM r)" "(\<And>s. P s \<Longrightarrow> P (h s)) \<Longrightarrow> preserves P (updM h)"
  by (simp_all add: preserves_def)

lemma preserves_catchM:
  assumes m: "preserves P m" and h: "\<And>e. preserves P (h e)"
  shows "preserves P (catchM m h)"
  unfolding preserves_def
proof (intro allI impI)
  fix s r s' assume P: "P s" and b: "catchM m h s = Some (r, s')"
  obtain a s1 where a: "m s = Some (a, s1)" using b by (cases "m s") (auto simp: catchM_def)
  from b show "P s'" using preservesD [OF m P a] preservesD [OF h] a by (cases a) (auto simp: catchM_def)
qed

lemma preserves_forM: "(\<And>x. preserves P (f x)) \<Longrightarrow> preserves P (forM xs f)"
  by (induction xs) (auto simp: preserves_retM intro: preserves_bindM)

text \<open>What the threads do while they upload changes the states of tasks, never to \<open>CANCELED\<close>, and the time of the last upload.
  A fact about the daemon that these two keep holds after any upload, whatever the name nodes and the data nodes answer.\<close>

locale upload_fact =
  fixes Q :: "DaemonUpload \<Rightarrow> bool"
  assumes status: "Q D \<Longrightarrow> u \<noteq> CANCELED \<Longrightarrow> Q (status_of_path n p u D)"
    and timed: "Q D \<Longrightarrow> Q (D\<lparr>last_small_file_upload := tnow\<rparr>)"
begin

abbreviation holds :: "('n, 'z) daemon_scheme \<Rightarrow> bool" where
  "holds S \<equiv> Q (du S)"

lemma preserves_calls:
  "preserves holds (nn_call E st req)" "preserves holds (nn_call_once E st req)" "preserves holds (put_block E t b)"
  "preserves holds (sdk_datanode_put E t vs)" "preserves holds (unlock_remote p)"
  by (auto simp: preserves_def nn_call_def nn_call_once_def put_block_def sdk_datanode_put_def unlock_remote_def split: prod.splits)

lemma preserves_rm: "preserves holds (sdk_rm E p)"
  unfolding sdk_rm_def by (intro preserves_bindM preserves_retM preserves_calls)

lemma preserves_put:
  assumes "preserves holds (mark DATA_UPLOADING)" "preserves holds (mark META_UPLOADING)" "preserves holds (mark FINISHED)"
  shows "preserves holds (sdk_put E mark l p st)"
  unfolding sdk_put_def namenode_put_def namenode_putok_def lock_remote_paths_def case_prod_beta
  by (intro preserves_bindM preserves_retM preserves_catchM preserves_calls assms)

lemma file_status_keeps: "Q D \<Longrightarrow> u \<noteq> CANCELED \<Longrightarrow> Q (file_status u f D)"
  by (simp add: file_status_def status split: option.split)

lemma preserves_mark: "(\<And>D. Q D \<Longrightarrow> Q (g D)) \<Longrightarrow> preserves holds (updM (upd_du g))"
  by (rule preserves_retM) (simp add: upd_du_def)

lemma preserves_collect: "preserves (holds :: ('n, 'z) daemon_scheme \<Rightarrow> bool) (collect_oks E res infos)"
proof (induction infos)
  case (Cons f infos)
  have "preserves (holds :: ('n, 'z) daemon_scheme \<Rightarrow> bool) (bindM (sdk_rm E (fi_path f)) (\<lambda>_. collect_oks E res infos))"
    by (intro preserves_bindM preserves_rm Cons)
  moreover have "preserves (holds :: ('n, 'z) daemon_scheme \<Rightarrow> bool) (bindM (updM (upd_du (file_status DATA_UPLOADING f))) (\<lambda>_.
      bindM (collect_oks E res infos) (\<lambda>reqs. retM (Ok ((fi_path f, [agg_sub res f], fi_size f) # reqs)))))"
    by (intro preserves_bindM preserves_mark file_status_keeps Cons) (simp_all add: preserves_retM)
  ultimately show ?case unfolding preserves_def collect_oks.simps by metis
qed (simp add: preserves_def)

lemma preserves_put_batch: "preserves holds (\<lambda>S. nn_call_once E st (g S) S)"
  using preserves_calls(2) unfolding preserves_def by blast

lemma preserves_aggregate: "preserves holds (small_file_aggregate_upload E files ty tnow batch)"
proof -
  have m: "preserves holds (updM (upd_du (file_status META_UPLOADING f)))" "preserves holds (updM (upd_du (file_status FINISHED f)))" for f
    by (rule preserves_mark; simp add: file_status_keeps)+
  have "preserves holds (putAggFile E infos data ty)" for infos data
    unfolding putAggFile_def lock_remote_paths_def
    by (intro preserves_bindM preserves_retM preserves_calls preserves_put_batch preserves_forM preserves_collect m)
  moreover have "preserves holds (updM (upd_du (\<lambda>D. D\<lparr>last_small_file_upload := tnow\<rparr>)))"
    by (rule preserves_mark) (rule timed)
  moreover have "preserves holds (\<lambda>S. Some (agg_build files (du_tasks (du S)) batch 0, S))" by (simp add: preserves_def)
  ultimately show ?thesis
    unfolding small_file_aggregate_upload_def case_prod_beta by (intro preserves_bindM)
qed

lemma big_turn_keeps:
  assumes "Q (du S)" "big_file_turn E files S = Some (res, S')"
    and pop: "\<And>t ts. uq_que (big_file_que (du S)) = t # ts \<Longrightarrow> Q ((du S)\<lparr>big_file_que := (big_file_que (du S))\<lparr>uq_que := ts\<rparr>\<rparr>)"
  shows "Q (du S')"
proof (cases "uq_que (big_file_que (du S))")
  case (Cons t ts)
  let ?task = "du_tasks (du S) ! t" and ?S1 = "upd_du (\<lambda>D. D\<lparr>big_file_que := (big_file_que (du S))\<lparr>uq_que := ts\<rparr>\<rparr>) S"
  let ?mark = "\<lambda>u. updM (\<lambda>S. upd_du (status_of_path (belong_que (du_tasks (du S) ! t)) (ut_remote ?task) u) S)"
  have S1: "holds ?S1" using pop [OF Cons] by (simp add: upd_du_def)
  obtain r where r: "sdk_put E ?mark (files (ut_local ?task)) (ut_remote ?task) (ut_storage ?task) ?S1 = Some (r, S')"
    using assms(2) by (auto simp: big_file_turn_def pop_front_def Cons Let_def)
  have "preserves holds (?mark u)" if "u \<noteq> CANCELED" for u using that by (intro preserves_retM(2)) (simp add: upd_du_def status)
  from preservesD [OF preserves_put [OF this this this] S1 r] show ?thesis by simp
qed (use assms in \<open>simp add: big_file_turn_def pop_front_def\<close>)

lemma batch_keeps:
  assumes "Q (snd (turn (du S)))" "upload_batch E files ty tnow turn S = Some (res, S')"
  shows "Q (du S')"
proof (cases "turn (du S)")
  case (Pair batch D)
  show ?thesis
  proof (cases batch)
    case None
    with assms Pair show ?thesis by (auto simp: upload_batch_def)
  next
    case (Some ts)
    then obtain r where "small_file_aggregate_upload E files ty tnow ts (S\<lparr>du := D\<rparr>) = Some (r, S')"
      using assms(2) Pair by (auto simp: upload_batch_def)
    from preservesD [OF preserves_aggregate _ this] assms(1) Pair show ?thesis by simp
  qed
qed

end

lemma status_wf: "du_wf D \<Longrightarrow> du_wf (status_of_path n p u D)"
  by (simp add: status_of_path_def du_wf_same same_tasks_marks)

interpretation wf: upload_fact du_wf
  by unfold_locales (simp_all add: status_wf, simp add: du_wf_def)

lemma find_dir_task:
  assumes "table_ok h q" "t \<in> set (find_dir_in_map q p)"
  shows "t < length h \<and> parent_path_of (ut_remote (h ! t)) = p"
proof -
  obtain d name where d: "map_of (uq_map q) p = Some d" "(name, t) \<in> set d"
    using assms(2) by (cases "map_of (uq_map q) p") (auto simp: find_dir_in_map_def)
  have "distinct (map fst d)" using assms(1) map_of_SomeD [OF d(1)] by (force simp: table_ok_def keys_ok_def)
  then have "table_get q p name = Some t" using d by (simp add: table_get_def)
  then show ?thesis using assms(1) by (simp add: table_ok_def)
qed

section \<open>Steps of the daemon\<close>

datatype daemon_event = Uploaded | Synced | Removed path | BigTurn | BatchTurn

inductive daemon_step :: "daemon_event \<Rightarrow> 'n daemon \<Rightarrow> 'n daemon \<Rightarrow> bool" where
  uploaded: "upload files l r st (du S) = Ok D \<Longrightarrow> daemon_step Uploaded S (S\<lparr>du := D\<rparr>)"
| synced: "du_fsync l r (du S) = Ok (b, D) \<Longrightarrow> daemon_step Synced S (S\<lparr>du := D\<rparr>)"
| removed: "du_rm E p S = Some (res, S') \<Longrightarrow> daemon_step (Removed p) S S'"
| big_turn: "big_file_turn E files S = Some (res, S') \<Longrightarrow> daemon_step BigTurn S S'"
| batch_turn: "turn = small_file_turn b \<or> turn = timed_turn b iv tnow \<Longrightarrow>
    upload_batch E files ty tnow turn S = Some (res, S') \<Longrightarrow> daemon_step BatchTurn S S'"

inductive_cases daemon_stepE: "daemon_step ev S S'"

inductive daemon_run :: "daemon_event list \<Rightarrow> 'n daemon \<Rightarrow> 'n daemon \<Rightarrow> bool" where
  run_done: "daemon_run [] S S"
| run_step: "daemon_run evs S S' \<Longrightarrow> daemon_step ev S' S'' \<Longrightarrow> daemon_run (evs @ [ev]) S S''"

lemma daemon_run_keeps:
  assumes "daemon_run evs S S'" "P S" "\<And>ev S S'. ev \<in> set evs \<Longrightarrow> daemon_step ev S S' \<Longrightarrow> P S \<Longrightarrow> P S'"
  shows "P S'"
  using assms by (induction rule: daemon_run.induct) auto

lemma rm_wf:
  assumes "du_wf (du S)" "du_rm E p S = Some (res, S')"
  shows "du_wf (du S')"
proof -
  have rm: "preserves wf.holds (bindM (sdk_rm E p) (\<lambda>_. retM (Ok True)))"
    by (intro preserves_bindM preserves_retM wf.preserves_rm)
  have "du_wf ((du S)\<lparr>du_tasks := uq_rm (small_file_que (du S)) p (du_tasks (du S))\<rparr>)"
    using du_wf_same [OF assms(1)] same_tasks_marks(2) by blast
  with assms preservesD [OF rm assms(1)] show ?thesis
    by (auto simp: du_rm_def Let_def upd_du_def split: option.splits if_splits)
qed

lemma daemon_step_wf: "daemon_step ev S S' \<Longrightarrow> du_wf (du S) \<Longrightarrow> du_wf (du S')"
proof (induction rule: daemon_step.induct)
  case (big_turn E files S res S')
  show ?case by (rule wf.big_turn_keeps [OF big_turn(2,1)]) (rule shrink_wf(2) [OF big_turn(2), of "[_]"], simp)
next
  case (batch_turn turn b iv tnow E files ty S res S')
  show ?case by (rule wf.batch_keeps [OF turn_wf [OF batch_turn(3,1)] batch_turn(2)])
qed (auto intro: upload_wf fsync_wf rm_wf)

lemma daemon_run_wf: "daemon_run evs S0 S \<Longrightarrow> du_wf (du S0) \<Longrightarrow> du_wf (du S)"
  by (erule daemon_run_keeps) (auto intro: daemon_step_wf)

lemma new_daemon_wf: "du_wf (new_DaemonUpload fs_b)"
  by (simp add: du_wf_def table_ok_def keys_ok_def table_get_def new_DaemonUpload_def new_UploadQueue_def)

text \<open>C11: The pointers of the upload daemon are always good. In every state that a new daemon reaches by uploads, syncs, removals and
  turns of its threads, whatever these return, the tasks waiting in the two queues are different tasks that exist and know
  their queue, and what is found in a table under a path is a task for a file of that name in that directory.\<close>

theorem tasks_well_formed:
  assumes "daemon_run evs S0 S" "du S0 = new_DaemonUpload fs_b"
  shows "du_wf (du S) \<and> (\<forall>n p t. find_in_map (que_of (du S) n) p = Some t \<longrightarrow>
    t < length (du_tasks (du S)) \<and> parent_path_of (ut_remote (du_tasks (du S) ! t)) = parent_path_of p \<and>
    filename_of (ut_remote (du_tasks (du S) ! t)) = filename_of p)"
proof -
  have "du_wf (du S)" using daemon_run_wf [OF assms(1)] assms(2) new_daemon_wf by simp
  then show ?thesis by (auto simp: du_wf_def table_ok_def find_in_map_get que_of_def split: que_name.splits)
qed

definition demo_start :: "'n \<Rightarrow> 'n daemon" where
  "demo_start n = (demo_daemon n)\<lparr>du := new_DaemonUpload 100\<rparr>"

theorem tasks_well_formed_witness:
  "\<exists>S. daemon_run [Uploaded] (demo_start demo_inode) S \<and> uq_que (small_file_que (du S)) = [0] \<and> du_wf (du S)"
proof -
  let ?S0 = "demo_start demo_inode"
  have n: "du ?S0 = new_DaemonUpload 100" by (simp add: demo_start_def)
  have w: "(2 :: u64) \<le> 100" "unat (- 1 :: u64) \<noteq> 0" by (simp_all add: word_le_nat_alt unat_eq_0)
  have "case upload demo_files ''l1'' ''/a'' ''RE<2,1>'' (new_DaemonUpload 100) of Ok D \<Rightarrow> uq_que (small_file_que D) = [0] | _ \<Rightarrow> False"
    using w by (simp add: upload_def new_DaemonUpload_def demo_files_def push_to_def push_back_def que_of_def new_UploadQueue_def Let_def outcome_simps)
  then obtain D where D: "upload demo_files ''l1'' ''/a'' ''RE<2,1>'' (du ?S0) = Ok D" "uq_que (small_file_que D) = [0]"
    unfolding n by (auto split: outcome.splits)
  have s: "daemon_run [Uploaded] ?S0 (?S0\<lparr>du := D\<rparr>)" using run_step [OF run_done daemon_step.uploaded [OF D(1)]] by simp
  show ?thesis using s D(2) tasks_well_formed [OF s n] by (intro exI [of _ "?S0\<lparr>du := D\<rparr>"]) simp
qed

end
