(* ===== verification/Downloads.thy ===== *)
theory Downloads
  imports Upload_Inv File_Service
begin

text \<open>
  Downloads and the service of the client daemon: \<^verbatim>\<open>src/client/daemon_download.cpp\<close>, \<^verbatim>\<open>src/client/daemon_service.cpp\<close> and the
  text of an exception (\<^verbatim>\<open>src/common/service.cpp\<close>).

  \<open>service\<close> is the state of the whole daemon: that of the uploads, the two download queues, and the local files, which
  uploads read and downloads write. The two download threads are given turn by turn. Local paths are compared as text.
\<close>

section \<open>The state\<close>

record DaemonDownload =
  local_que :: "(string \<times> string) list"
  remote_que :: "(path \<times> string) list"

definition new_DaemonDownload :: DaemonDownload where
  "new_DaemonDownload = \<lparr>local_que = [], remote_que = []\<rparr>"

record 'n service = "'n daemon" +
  dd :: DaemonDownload
  local_files :: "string \<Rightarrow> string option"

text \<open>What is known of the local file system: which paths can be opened for writing and which are directories.\<close>

record local_fs =
  lf_writable :: "string \<Rightarrow> bool"
  lf_is_dir :: "string \<Rightarrow> bool"

section \<open>Downloads\<close>

text \<open>A file that is known to the upload queues is copied from its local path.\<close>

definition download :: "path \<Rightarrow> string \<Rightarrow> DaemonUpload \<Rightarrow> DaemonDownload \<Rightarrow> DaemonDownload" where
  "download src dst D Q =
     (case uq_ls (du_tasks D) (big_file_que D) src of
        Some t \<Rightarrow> Q\<lparr>local_que := local_que Q @ [(ut_local (du_tasks D ! t), dst)]\<rparr>
      | None \<Rightarrow>
          (case uq_ls (du_tasks D) (small_file_que D) src of
             Some t \<Rightarrow> Q\<lparr>local_que := local_que Q @ [(ut_local (du_tasks D ! t), dst)]\<rparr>
           | None \<Rightarrow> Q\<lparr>remote_que := remote_que Q @ [(src, dst)]\<rparr>))"

text \<open>\<^verbatim>\<open>std::filesystem::copy\<close> of a file with \<^verbatim>\<open>overwrite_existing\<close>: into a directory under its own name. The errors are logged
  only: a source that is not there, a copy onto itself, a target that cannot be written.\<close>

definition copy_target :: "local_fs \<Rightarrow> string \<Rightarrow> string \<Rightarrow> string" where
  "copy_target F src dst =
     (if \<not> lf_is_dir F dst then dst
      else if dst \<noteq> [] \<and> last dst = CHR ''/'' then dst @ filename_of src else dst @ ''/'' @ filename_of src)"

definition copy_file :: "local_fs \<Rightarrow> string \<times> string \<Rightarrow> (string \<Rightarrow> string option) \<Rightarrow> (string \<Rightarrow> string option)" where
  "copy_file F task files =
     (case files (fst task) of
        None \<Rightarrow> files
      | Some content \<Rightarrow>
          (let t = copy_target F (fst task) (snd task)
           in if t = fst task \<or> \<not> lf_writable F t then files else files(t \<mapsto> content)))"

text \<open>One turn of each thread. A download that fails after its file was opened leaves there what was written before.\<close>

definition local_turn :: "local_fs \<Rightarrow> ('n, 'z) service_scheme \<Rightarrow> ('n, 'z) service_scheme" where
  "local_turn F S =
     (case local_que (dd S) of
        [] \<Rightarrow> S
      | task # q \<Rightarrow> S\<lparr>dd := (dd S)\<lparr>local_que := q\<rparr>, local_files := copy_file F task (local_files S)\<rparr>)"

fun blocks_before :: "client \<Rightarrow> StorageType \<Rightarrow> (nat \<Rightarrow> call_env) \<Rightarrow> cluster \<Rightarrow> nat \<Rightarrow> string list \<Rightarrow> string" where
  "blocks_before C st env cl n [] = []"
| "blocks_before C st env cl n (s # ss) =
     (case decode_one_block C st env cl n s of
        Some (Ok b) \<Rightarrow> b @ blocks_before C st env cl (n + length (decode_one_sub s)) ss
      | _ \<Rightarrow> [])"

definition leftover :: "client \<Rightarrow> (nat \<Rightarrow> call_env) \<Rightarrow> cluster \<Rightarrow> Inode \<Rightarrow> string" where
  "leftover C env cl inode =
     (case storage_type_ptr inode of
        None \<Rightarrow> []
      | Some st \<Rightarrow> if agg_inode_id inode \<noteq> [] then [] else blocks_before C st env cl 0 (sub inode))"

definition get_to_file :: "'n sdk_env \<Rightarrow> local_fs \<Rightarrow> path \<Rightarrow> string \<Rightarrow> (('n, 'z) service_scheme, unit) act" where
  "get_to_file E F src dst =
     bindM (get_remote_inode E src) (\<lambda>inode S.
       case sdk_get (se_client E) (se_calls E) (sdk_cluster S) (lf_writable F dst) inode of
         None \<Rightarrow> None
       | Some (Ok content) \<Rightarrow> Some (Ok (), S\<lparr>local_files := (local_files S)(dst \<mapsto> content)\<rparr>)
       | Some (Throw e) \<Rightarrow>
           Some (Throw e, if lf_writable F dst
                          then S\<lparr>local_files := (local_files S)(dst \<mapsto> leftover (se_client E) (se_calls E) (sdk_cluster S) inode)\<rparr> else S)
       | Some (Abort a) \<Rightarrow> Some (Abort a, S))"

definition remote_turn :: "'n sdk_env \<Rightarrow> local_fs \<Rightarrow> (('n, 'z) service_scheme, unit) act" where
  "remote_turn E F S =
     (case remote_que (dd S) of
        [] \<Rightarrow> Some (Ok (), S)
      | (src, dst) # q \<Rightarrow>
          catchM (get_to_file E F src dst) (\<lambda>_. retM (Ok ())) (S\<lparr>dd := (dd S)\<lparr>remote_que := q\<rparr>\<rparr>))"

section \<open>The service\<close>

text \<open>\<^verbatim>\<open>what()\<close>; \<open>pp\<close> is how the debugging library prints an error code.\<close>

fun exn_what :: "(ERROR_CODE \<Rightarrow> string) \<Rightarrow> exn \<Rightarrow> string" where
  "exn_what pp (MessageException code msg) = pp code @ ''|'' @ msg"
| "exn_what pp (RuntimeError msg) = msg"
| "exn_what pp (InvalidArgument msg) = msg"
| "exn_what pp (OutOfRange msg) = msg"
| "exn_what pp (OverflowError msg) = msg"
| "exn_what pp (JsonException msg) = msg"

record daemon_reply =
  dr_common :: Response
  dr_data :: string
  dr_finished :: bool

definition reply :: "bool \<Rightarrow> daemon_reply" where
  "reply b = \<lparr>dr_common = new_Response\<lparr>success := b\<rparr>, dr_data = [], dr_finished = False\<rparr>"

text \<open>Every exception is answered with the same code.\<close>

definition answer :: "(ERROR_CODE \<Rightarrow> string) \<Rightarrow> ('s, daemon_reply) act \<Rightarrow> ('s, daemon_reply) act" where
  "answer pp m =
     catchM m (\<lambda>e. retM (Ok ((reply False)\<lparr>dr_common := \<lparr>success = False, fail_info = Some (COMMON_EXCEPTION, exn_what pp e)\<rparr>\<rparr>)))"

definition service_put :: "(ERROR_CODE \<Rightarrow> string) \<Rightarrow> string \<Rightarrow> path \<Rightarrow> string \<Rightarrow> (('n, 'z) service_scheme, daemon_reply) act" where
  "service_put pp local_path remote_path storage_type =
     answer pp (\<lambda>S. case upload (local_files S) local_path remote_path storage_type (du S) of
       Ok D \<Rightarrow> Some (Ok (reply True), S\<lparr>du := D\<rparr>)
     | Throw e \<Rightarrow> Some (Throw e, S)
     | Abort a \<Rightarrow> Some (Abort a, S))"

definition service_get :: "(ERROR_CODE \<Rightarrow> string) \<Rightarrow> path \<Rightarrow> string \<Rightarrow> (('n, 'z) service_scheme, daemon_reply) act" where
  "service_get pp remote_path local_path =
     answer pp (bindM (updM (\<lambda>S. S\<lparr>dd := download remote_path local_path (du S) (dd S)\<rparr>)) (\<lambda>_. retM (Ok (reply True))))"

text \<open>When the task does not fit into the other queue it is already taken out of the first.\<close>

definition service_sync :: "(ERROR_CODE \<Rightarrow> string) \<Rightarrow> string \<Rightarrow> path \<Rightarrow> (('n, 'z) service_scheme, daemon_reply) act" where
  "service_sync pp local_path remote_path =
     answer pp (\<lambda>S.
       let taken = S\<lparr>du := (du S)\<lparr>small_file_que := snd (exist_in_que (du_tasks (du S)) local_path remote_path (small_file_que (du S)))\<rparr>\<rparr>
       in case du_fsync local_path remote_path (du S) of
            Ok (res, D) \<Rightarrow> Some (Ok ((reply True)\<lparr>dr_finished := res\<rparr>), S\<lparr>du := D\<rparr>)
          | Throw e \<Rightarrow> Some (Throw e, taken)
          | Abort a \<Rightarrow> Some (Abort a, taken))"

definition service_ls :: "(ERROR_CODE \<Rightarrow> string) \<Rightarrow> 'n sdk_env \<Rightarrow> path \<Rightarrow> (('n, 'z) service_scheme, daemon_reply) act" where
  "service_ls pp E p = answer pp (bindM (daemon_ls E p) (\<lambda>text. retM (Ok ((reply True)\<lparr>dr_data := text\<rparr>))))"

definition service_rm :: "(ERROR_CODE \<Rightarrow> string) \<Rightarrow> 'n sdk_env \<Rightarrow> path \<Rightarrow> (('n, 'z) service_scheme, daemon_reply) act" where
  "service_rm pp E p = answer pp (bindM (du_rm E p) (\<lambda>res. retM (Ok (reply res))))"

section \<open>Files that are known to the queues\<close>

definition known :: "UploadTask list \<Rightarrow> UploadQueue \<Rightarrow> path \<Rightarrow> bool" where
  "known h q r = (case find_in_map q r of None \<Rightarrow> False | Some t \<Rightarrow> t < length h \<and> uploadStatus (h ! t) \<noteq> CANCELED)"

definition pending :: "path \<Rightarrow> DaemonUpload \<Rightarrow> bool" where
  "pending r D \<longleftrightarrow> known (du_tasks D) (small_file_que D) r \<or> known (du_tasks D) (big_file_que D) r"

lemma known_status: "known h q r \<Longrightarrow> u \<noteq> CANCELED \<Longrightarrow> known (h[t := (h ! t)\<lparr>uploadStatus := u\<rparr>]) q r"
  by (cases "t < length h") (auto simp: known_def nth_list_update split: option.splits)

lemma known_grow: "known h q r \<Longrightarrow> known (h @ [x]) q r"
  by (auto simp: known_def nth_append less_SucI split: option.splits)

lemma known_que: "known h (q\<lparr>uq_que := ts\<rparr>) r = known h q r"
  by (simp add: known_def find_in_map_get table_get_que)

lemma push_back_known:
  assumes "push_back n t h q = Ok (h', q')" "t < length h"
  shows "known h p r \<Longrightarrow> known h' p r" "known h q r \<Longrightarrow> known h' q' r" "known h' q' (ut_remote (h ! t))"
proof -
  let ?p = "ut_remote (h ! t)"
  have h': "h' = h[t := (h ! t)\<lparr>uploadStatus := WAITING, belong_que := n\<rparr>]"
    and q': "q' = q\<lparr>uq_que := uq_que q @ [t], uq_map := table_put (parent_path_of ?p) (filename_of ?p) t (uq_map q)\<rparr>"
    using assms(1) by (auto simp: push_back_def Let_def split: if_splits)
  show "known h p r \<Longrightarrow> known h' p r" "known h q r \<Longrightarrow> known h' q' r" "known h' q' (ut_remote (h ! t))"
    using assms(2) by (auto simp: known_def h' q' find_in_map_get table_get_put nth_list_update split: option.splits if_splits)
qed

interpretation pend: upload_fact "pending r" for r
  by unfold_locales (auto simp: pending_def status_of_path_def change_status_def known_status que_of_def split: option.splits)

lemma push_to_pending:
  assumes "push_to n t D = Ok D'" "t < length (du_tasks D)"
  shows "pending r D \<Longrightarrow> pending r D'" "pending (ut_remote (du_tasks D ! t)) D'"
proof -
  obtain h q where b: "push_back n t (du_tasks D) (que_of D n) = Ok (h, q)"
    "D' = (case n of SmallQue \<Rightarrow> D\<lparr>du_tasks := h, small_file_que := q\<rparr> | BigQue \<Rightarrow> D\<lparr>du_tasks := h, big_file_que := q\<rparr>)"
    using assms(1) by (cases n) (auto simp: push_to_def outcome_simps)
  show "pending r D \<Longrightarrow> pending r D'" "pending (ut_remote (du_tasks D ! t)) D'"
    using push_back_known [OF b(1) assms(2)] b(2) by (cases n; auto simp: pending_def que_of_def)+
qed

lemma upload_pending:
  assumes "upload files l r st D = Ok D'"
  shows "pending p D \<Longrightarrow> pending p D'" "pending r D'"
proof -
  let ?t = "length (du_tasks D)"
  obtain x n where p: "push_to n ?t (D\<lparr>du_tasks := du_tasks D @ [x]\<rparr>) = Ok D'" "ut_remote x = r"
    using assms by (auto simp: upload_def Let_def split: if_splits option.splits)
  note push = push_to_pending [OF p(1)]
  show "pending r D'" using push(2) p(2) by simp
  show "pending p D'" if "pending p D"
    by (rule push(1)) (use that known_grow in \<open>auto simp: pending_def\<close>)
qed

lemma fsync_pending:
  assumes "du_wf D" "du_fsync l r D = Ok (b, D')" "pending p D"
  shows "pending p D'"
proof (cases "exist_in_que (du_tasks D) l r (small_file_que D)")
  case (Pair found q)
  show ?thesis
  proof (cases found)
    case (Some t)
    have d: "distinct (uq_que (small_file_que D))" using assms(1) by (simp add: du_wf_def)
    note out = take_out [OF Pair [unfolded Some] d]
    have "t < length (du_tasks D)" using out(1) assms(1) by (auto simp: du_wf_def table_ok_def)
    moreover have "push_to BigQue t (D\<lparr>small_file_que := q\<rparr>) = Ok D'" using assms(2) Pair Some by (simp add: du_fsync_def outcome_simps)
    moreover have "pending p (D\<lparr>small_file_que := q\<rparr>)" using assms(3) table_get_map [OF out(4)] by (simp add: pending_def known_def find_in_map_get)
    ultimately show ?thesis using push_to_pending(1) by fastforce
  qed (use assms Pair in \<open>simp add: du_fsync_def\<close>)
qed

lemma turn_pending:
  assumes "turn = small_file_turn b \<or> turn = timed_turn b iv tnow" "pending p D"
  shows "pending p (snd (turn D))"
proof -
  obtain batch q where g: "get_until_size (du_tasks D) b (small_file_que D) = (batch, q)" by fastforce
  then have "q = (small_file_que D)\<lparr>uq_que := uq_que q\<rparr>" by (auto simp: get_until_size_def split: prod.splits)
  then have "known (du_tasks D) q p = known (du_tasks D) (small_file_que D) p" using known_que by metis
  moreover have "snd (turn D) = D \<or> snd (turn D) = D\<lparr>small_file_que := q\<rparr>"
    using assms(1) g by (auto simp: small_file_turn_def timed_turn_def Let_def)
  ultimately show ?thesis using assms(2) by (auto simp: pending_def)
qed

lemma step_pending:
  "daemon_step ev S S' \<Longrightarrow> \<forall>q. ev \<noteq> Removed q \<Longrightarrow> du_wf (du S) \<Longrightarrow> pending p (du S) \<Longrightarrow> pending p (du S')"
proof (induction rule: daemon_step.induct)
  case (big_turn E files S res S')
  show ?case by (rule pend.big_turn_keeps [OF big_turn(4,1)]) (use big_turn(4) in \<open>simp add: pending_def known_que\<close>)
next
  case (batch_turn turn b iv tnow E files ty S res S')
  show ?case by (rule pend.batch_keeps [OF turn_pending [OF batch_turn(1,5)] batch_turn(2)])
qed (auto dest: upload_pending(1) fsync_pending)

lemma run_pending:
  assumes "daemon_run evs S S'" "\<forall>q. Removed q \<notin> set evs" "du_wf (du S)" "pending p (du S)"
  shows "du_wf (du S') \<and> pending p (du S')"
  by (rule daemon_run_keeps [OF assms(1)]) (use assms(2-4) in \<open>auto intro: daemon_step_wf step_pending\<close>)

text \<open>Which task a lookup finds.\<close>

lemma uq_ls_task:
  assumes "table_ok h q" "uq_ls h q p = Some t"
  shows "t < length h \<and> parent_path_of (ut_remote (h ! t)) = parent_path_of p \<and> filename_of (ut_remote (h ! t)) = filename_of p"
proof (cases "find (\<lambda>t. ut_remote (h ! t) = p) (uq_que q)")
  case None
  with assms show ?thesis by (auto simp: uq_ls_def table_ok_def find_in_map_get split: option.splits if_splits)
next
  case (Some k)
  then have "k \<in> set (uq_que q)" "ut_remote (h ! k) = p" by (auto simp: find_Some_iff)
  with Some assms show ?thesis by (auto simp: uq_ls_def table_ok_def)
qed

lemma known_uq_ls: "known h q p \<Longrightarrow> uq_ls h q p \<noteq> None"
  by (auto simp: known_def uq_ls_def split: option.splits)

lemma pending_download:
  assumes "du_wf D" "pending p D"
  obtains t where "t < length (du_tasks D)" "parent_path_of (ut_remote (du_tasks D ! t)) = parent_path_of p"
    "filename_of (ut_remote (du_tasks D ! t)) = filename_of p"
    "\<And>dst Q. download p dst D Q = Q\<lparr>local_que := local_que Q @ [(ut_local (du_tasks D ! t), dst)]\<rparr>"
proof (cases "uq_ls (du_tasks D) (big_file_que D) p")
  case None
  then obtain t where "uq_ls (du_tasks D) (small_file_que D) p = Some t" using assms(2) known_uq_ls by (fastforce simp: pending_def)
  with None assms(1) uq_ls_task [of "du_tasks D" "small_file_que D" p t] show thesis by (intro that) (auto simp: du_wf_def download_def)
next
  case (Some t)
  with assms(1) uq_ls_task [of "du_tasks D" "big_file_que D" p t] show thesis by (intro that) (auto simp: du_wf_def download_def)
qed

lemma find_fresh: "find P xs = None \<Longrightarrow> P x \<Longrightarrow> find P (xs @ [x]) = Some x"
  by (induction xs) auto

lemma find_cong: "(\<And>x. x \<in> set xs \<Longrightarrow> P x = P' x) \<Longrightarrow> find P xs = find P' xs"
  by (induction xs) auto

text \<open>A lookup depends on the tasks of the queue only, and a new task is found when none was before.\<close>

lemma uq_ls_same:
  assumes "table_ok h q" "\<And>t. t < length h \<Longrightarrow> ut_remote (h' ! t) = ut_remote (h ! t) \<and> uploadStatus (h' ! t) = uploadStatus (h ! t)"
  shows "uq_ls h' q r = uq_ls h q r"
proof -
  have "find (\<lambda>t. ut_remote (h' ! t) = r) (uq_que q) = find (\<lambda>t. ut_remote (h ! t) = r) (uq_que q)"
    using assms by (intro find_cong) (auto simp: table_ok_def)
  moreover have "uploadStatus (h' ! t) = uploadStatus (h ! t)" if "find_in_map q r = Some t" for t
    using that assms by (auto simp: table_ok_def find_in_map_get)
  ultimately show ?thesis by (auto simp: uq_ls_def split: option.splits)
qed

lemma uq_ls_new:
  assumes "uq_ls h' q r = None" "ut_remote (h' ! t) = r" "uq_que q' = uq_que q @ [t]"
  shows "uq_ls h' q' r = Some t"
proof -
  have "find (\<lambda>t. ut_remote (h' ! t) = r) (uq_que q) = None" using assms(1) by (auto simp: uq_ls_def split: option.splits)
  from find_fresh [OF this, of t] assms(2,3) show ?thesis by (simp add: uq_ls_def)
qed

lemma upload_download:
  assumes "du_wf D" "upload files l r st D = Ok D'" "uq_ls (du_tasks D) (big_file_que D) r = None"
    "uq_ls (du_tasks D) (small_file_que D) r = None" "local_que Q = []"
  shows "download r dst D' Q = Q\<lparr>local_que := [(l, dst)]\<rparr>"
proof -
  let ?h = "du_tasks D" and ?t = "length (du_tasks D)"
  obtain x n where p: "push_to n ?t (D\<lparr>du_tasks := ?h @ [x]\<rparr>) = Ok D'" "ut_remote x = r" "ut_local x = l"
    using assms(2) by (auto simp: upload_def Let_def split: if_splits option.splits)
  obtain h q where b: "push_back n ?t (?h @ [x]) (que_of D n) = Ok (h, q)"
    "D' = (case n of SmallQue \<Rightarrow> D\<lparr>du_tasks := h, small_file_que := q\<rparr> | BigQue \<Rightarrow> D\<lparr>du_tasks := h, big_file_que := q\<rparr>)"
    using p(1) by (cases n) (auto simp: push_to_def que_of_def outcome_simps)
  note pb = push_back_ok [OF b(1), simplified]
  have h: "ut_remote (h ! ?t) = r" "ut_local (h ! ?t) = l" using pb(1) p(2,3) by (simp_all add: nth_append)
  have same: "uq_ls h q' r = uq_ls ?h q' r" if "table_ok ?h q'" for q'
    by (rule uq_ls_same [OF that]) (simp add: pb(1) nth_append)
  have old: "uq_ls h (small_file_que D) r = None" "uq_ls h (big_file_que D) r = None"
    using same assms(1,3,4) by (simp_all add: du_wf_def)
  have "uq_ls h q r = Some ?t" using uq_ls_new [OF _ h(1) pb(2)] old by (cases n) (simp_all add: que_of_def)
  with old h(2) assms(5) b(2) show ?thesis by (cases n) (simp_all add: download_def)
qed

lemma du_rm_true: "du_rm E p S = Some (Ok b, S') \<Longrightarrow> b = True"
  by (auto simp: du_rm_def Let_def bindM_def split: option.splits outcome.splits if_splits)

definition settled :: "daemon_reply outcome \<Rightarrow> bool" where
  "settled res \<longleftrightarrow> (\<nexists>e. res = Throw e) \<and>
     (\<forall>rsp. res = Ok rsp \<longrightarrow> success (dr_common rsp) \<or> (\<exists>msg. fail_info (dr_common rsp) = Some (COMMON_EXCEPTION, msg)))"

lemma answer_settled:
  assumes "answer pp k S = Some (res, S')" "\<And>rsp T. k S = Some (Ok rsp, T) \<Longrightarrow> success (dr_common rsp)"
  shows "settled res"
proof (cases "k S")
  case (Some x)
  then show ?thesis using assms by (cases x; cases "fst x") (auto simp: answer_def catchM_def settled_def)
qed (use assms in \<open>simp add: answer_def catchM_def\<close>)

lemma reply_success [simp]:
  "success (dr_common (reply b)) = b" "success (dr_common ((reply b)\<lparr>dr_data := d\<rparr>)) = b" "success (dr_common ((reply b)\<lparr>dr_finished := f\<rparr>)) = b"
  by (simp_all add: reply_def)

lemma service_settled:
  "service_put pp l r st S = Some (res, S') \<Longrightarrow> settled res" "service_get pp r l S = Some (res, S') \<Longrightarrow> settled res"
  "service_sync pp l r S = Some (res, S') \<Longrightarrow> settled res" "service_ls pp E r S = Some (res, S') \<Longrightarrow> settled res"
  "service_rm pp E r S = Some (res, S') \<Longrightarrow> settled res"
proof -
  show "service_put pp l r st S = Some (res, S') \<Longrightarrow> settled res" "service_get pp r l S = Some (res, S') \<Longrightarrow> settled res"
    "service_sync pp l r S = Some (res, S') \<Longrightarrow> settled res" "service_ls pp E r S = Some (res, S') \<Longrightarrow> settled res"
    unfolding service_put_def service_get_def service_sync_def service_ls_def
    by (erule answer_settled, auto simp: bindM_def Let_def split: outcome.splits option.splits)+
  have ok: "bindM (du_rm E r) (\<lambda>b. retM (Ok (reply b))) S = Some (Ok rsp, T) \<Longrightarrow> success (dr_common rsp)" for rsp T
    using du_rm_true [of E r S] by (auto simp: bindM_def split: outcome.splits option.splits)
  show "service_rm pp E r S = Some (res, S') \<Longrightarrow> settled res"
    unfolding service_rm_def by (erule answer_settled) (rule ok)
qed

text \<open>The remote thread, when \<open>SDK::get\<close> succeeds.\<close>

lemma remote_turn_ok:
  assumes "remote_que (dd S) = (src, dst) # q" "sdk_download E (lf_writable F dst) src (S\<lparr>dd := (dd S)\<lparr>remote_que := q\<rparr>\<rparr>) = Some (Ok content, S')"
  shows "remote_turn E F S = Some (Ok (), S'\<lparr>local_files := (local_files S')(dst \<mapsto> content)\<rparr>)"
proof -
  let ?S = "S\<lparr>dd := (dd S)\<lparr>remote_que := q\<rparr>\<rparr>"
  obtain inode where "get_remote_inode E src ?S = Some (Ok inode, S')"
    "sdk_get (se_client E) (se_calls E) (sdk_cluster S') (lf_writable F dst) inode = Some (Ok content)"
    using assms(2) unfolding sdk_download_def by (elim bindM_OkE) auto
  then have "get_to_file E F src dst ?S = Some (Ok (), S'\<lparr>local_files := (local_files S')(dst \<mapsto> content)\<rparr>)"
    by (simp add: get_to_file_def)
  with assms(1) show ?thesis by (simp add: remote_turn_def catchM_def)
qed

section \<open>Properties\<close>

text \<open>C4: A big file goes from one daemon to another. When the thread for big files of one daemon takes the task of a local file,
  and the name node and the data nodes work, the turn ends well, and a daemon that finds the same name node and data nodes and
  has the path at the head of its queue for remote downloads writes, in its next turn, the contents of that file at the destination.\<close>

theorem big_file_from_daemon_to_daemon:
  fixes A :: "(('db, 'bk) RocksDB, 'z) daemon_scheme"
  assumes "uq_que (big_file_que (du A)) = t # ts" "du_tasks (du A) ! t = task" "files (ut_local task) = Some content"
    "nn_ready L W (sdk_nn A) (ut_remote task)" "\<not> nn_locked L W (sdk_nn A) (ut_remote task)"
    "\<And>i. nn_entry L (sdk_nn A) (ut_remote task) = Some i \<Longrightarrow> agg_inode_id i = []"
    "open_local (Some content) (ut_storage task) = Ok (st, content)" "upload_good E st content vecs" "se_rpc E = nn_rpc L W"
    "se_rpc E' = nn_rpc L W" "jparse E' = jparse L" "jdump E' = jdump L" "se_client E' = se_client E"
    "all_good (se_calls E') (concat vecs)" "lf_writable F dst"
  shows "\<exists>A'. big_file_turn E files A = Some (Ok (), A') \<and>
    (\<forall>(B :: (('db, 'bk) RocksDB, 'y) service_scheme) q.
      sdk_nn B = sdk_nn A' \<and> sdk_cluster B = sdk_cluster A' \<and> remote_que (dd B) = (ut_remote task, dst) # q \<longrightarrow>
      (\<exists>B'. remote_turn E' F B = Some (Ok (), B') \<and> local_files B' dst = Some content \<and> remote_que (dd B') = q))"
proof -
  let ?A = "upd_du (\<lambda>D. D\<lparr>big_file_que := (big_file_que (du A))\<lparr>uq_que := ts\<rparr>\<rparr>) A"
  let ?mark = "\<lambda>u. updM (\<lambda>S. upd_du (status_of_path (belong_que (du_tasks (du S) ! t)) (ut_remote task) u) S)"
  have A: "sdk_nn ?A = sdk_nn A" by (simp add: upd_du_def)
  have m: "harmless ?mark" by (simp add: harmless_def upd_du_def)
  from put_and_download [of L W ?A "ut_remote task" content "ut_storage task" st E vecs ?mark E', unfolded A, OF assms(4-8) m assms(9-14)]
  obtain A' where p: "sdk_put E ?mark (Some content) (ut_remote task) (ut_storage task) ?A = Some (Ok (), A')"
    and d: "\<forall>T :: (('db, 'bk) RocksDB, 'y) service_scheme. sdk_nn T = sdk_nn A' \<and> sdk_cluster T = sdk_cluster A' \<longrightarrow> sdk_download E' True (ut_remote task) T = Some (Ok content, T)" by blast
  have "big_file_turn E files A = Some (Ok (), A')"
    using p assms(1-3) by (simp add: big_file_turn_def pop_front_def Let_def)
  moreover have "\<exists>B'. remote_turn E' F B = Some (Ok (), B') \<and> local_files B' dst = Some content \<and> remote_que (dd B') = q"
    if B: "sdk_nn B = sdk_nn A'" "sdk_cluster B = sdk_cluster A'" "remote_que (dd B) = (ut_remote task, dst) # q"
    for B :: "(('db, 'bk) RocksDB, 'y) service_scheme" and q
  proof -
    let ?B = "B\<lparr>dd := (dd B)\<lparr>remote_que := q\<rparr>\<rparr>"
    have "sdk_download E' (lf_writable F dst) (ut_remote task) ?B = Some (Ok content, ?B)" using d B(1,2) assms(15) by simp
    from remote_turn_ok [OF B(3) this] show ?thesis by simp
  qed
  ultimately show ?thesis by blast
qed

text \<open>C18: A file that was given to the daemon for uploading can be downloaded at once. When the daemon accepts a \<open>put\<close> of a path that
  its queues do not know, a \<open>get\<close> of the path is accepted, and the next turn of the local thread, if it has nothing else to do, leaves the
  contents of the local file at the destination. Neither the name nodes nor the data nodes are asked.\<close>

theorem pending_file_is_downloaded:
  assumes "service_put pp l r st S = Some (Ok rsp, S1)" "success (dr_common rsp)"
    "uq_ls (du_tasks (du S)) (big_file_que (du S)) r = None" "uq_ls (du_tasks (du S)) (small_file_que (du S)) r = None"
    "du_wf (du S)" "local_que (dd S) = []" "local_files S l = Some content" "lf_writable F dst" "\<not> lf_is_dir F dst" "dst \<noteq> l"
  shows "\<exists>S2. service_get pp r dst S1 = Some (Ok (reply True), S2) \<and> local_files (local_turn F S2) dst = Some content \<and>
    sdk_nn (local_turn F S2) = sdk_nn S \<and> sdk_cluster (local_turn F S2) = sdk_cluster S \<and> remote_que (dd S2) = remote_que (dd S)"
proof -
  obtain D where D: "upload (local_files S) l r st (du S) = Ok D" "S1 = S\<lparr>du := D\<rparr>"
    using assms(1,2) by (auto simp: service_put_def answer_def catchM_def reply_def split: outcome.splits)
  have "download r dst D (dd S) = (dd S)\<lparr>local_que := [(l, dst)]\<rparr>" by (rule upload_download [OF assms(5) D(1) assms(3,4,6)])
  then have g: "service_get pp r dst S1 = Some (Ok (reply True), S1\<lparr>dd := (dd S)\<lparr>local_que := [(l, dst)]\<rparr>\<rparr>)"
    using D(2) by (simp add: service_get_def answer_def catchM_def)
  show ?thesis using g D(2) assms(7-10) by (simp add: local_turn_def copy_file_def copy_target_def)
qed

text \<open>C12: The daemon never forgets an upload. Once it has accepted a file for a path, and as long as nothing is removed through it,
  every later download of the path copies a local file that was uploaded under that name, whatever the daemon has done since
  and whatever other clients have done to the path: the name nodes are never asked for it again.\<close>

theorem uploads_are_never_forgotten:
  assumes "daemon_run evs S0 S" "du S0 = new_DaemonUpload fs_b" "upload files l r st (du S) = Ok D"
    "daemon_run evs' (S\<lparr>du := D\<rparr>) S'" "\<forall>q. Removed q \<notin> set evs'"
  shows "\<exists>t<length (du_tasks (du S')). parent_path_of (ut_remote (du_tasks (du S') ! t)) = parent_path_of r \<and>
    filename_of (ut_remote (du_tasks (du S') ! t)) = filename_of r \<and>
    (\<forall>dst Q. download r dst (du S') Q = Q\<lparr>local_que := local_que Q @ [(ut_local (du_tasks (du S') ! t), dst)]\<rparr>)"
proof -
  have "du_wf (du S)" using daemon_run_wf [OF assms(1)] assms(2) new_daemon_wf by simp
  then have "du_wf (du (S\<lparr>du := D\<rparr>))" "pending r (du (S\<lparr>du := D\<rparr>))" using upload_wf upload_pending(2) assms(3) by simp_all
  from run_pending [OF assms(4,5) this] show ?thesis using pending_download [of "du S'" r] by metis
qed


section \<open>Concrete runs\<close>

definition demo_service :: "'n \<Rightarrow> 'n service" where
  "demo_service n = daemon.extend (demo_start n) (service.fields new_DaemonDownload demo_files)"

definition demo_fs :: local_fs where
  "demo_fs = \<lparr>lf_writable = (\<lambda>p. True), lf_is_dir = (\<lambda>p. False)\<rparr>"

lemma demo_service_simps: "du (demo_service n) = new_DaemonUpload 100" "dd (demo_service n) = new_DaemonDownload" "local_files (demo_service n) = demo_files"
  by (simp_all add: demo_service_def daemon.defs service.defs demo_start_def)

lemma demo_uploaded:
  obtains D where "upload demo_files ''l1'' ''/a'' ''RE<2,1>'' (new_DaemonUpload 100) = Ok D"
proof -
  have w: "(2 :: u64) \<le> 100" "unat (- 1 :: u64) \<noteq> 0" by (simp_all add: word_le_nat_alt unat_eq_0)
  have "case upload demo_files ''l1'' ''/a'' ''RE<2,1>'' (new_DaemonUpload 100) of Ok D \<Rightarrow> True | _ \<Rightarrow> False"
    using w by (simp add: upload_def new_DaemonUpload_def demo_files_def push_to_def push_back_def que_of_def new_UploadQueue_def Let_def outcome_simps)
  then show thesis using that by (auto split: outcome.splits)
qed

theorem pending_file_is_downloaded_witness:
  "\<exists>S1 S2. service_put (\<lambda>c. ''code'') ''l1'' ''/a'' ''RE<2,1>'' (demo_service demo_inode) = Some (Ok (reply True), S1) \<and>
    service_get (\<lambda>c. ''code'') ''/a'' ''out'' S1 = Some (Ok (reply True), S2) \<and> local_files (local_turn demo_fs S2) ''out'' = Some ''ab''"
proof -
  let ?S = "demo_service demo_inode"
  obtain D where "upload demo_files ''l1'' ''/a'' ''RE<2,1>'' (new_DaemonUpload 100) = Ok D" using demo_uploaded .
  then have p: "service_put (\<lambda>c. ''code'') ''l1'' ''/a'' ''RE<2,1>'' ?S = Some (Ok (reply True), ?S\<lparr>du := D\<rparr>)"
    by (simp add: service_put_def answer_def catchM_def demo_service_simps)
  have "uq_ls (du_tasks (du ?S)) (big_file_que (du ?S)) ''/a'' = None" "uq_ls (du_tasks (du ?S)) (small_file_que (du ?S)) ''/a'' = None"
    by (simp_all add: demo_service_simps new_DaemonUpload_def new_UploadQueue_def uq_ls_def find_in_map_def)
  from pending_file_is_downloaded [OF p _ this, of "''ab''" demo_fs "''out''"] p show ?thesis
    by (auto simp: demo_service_simps new_daemon_wf new_DaemonDownload_def demo_files_def demo_fs_def)
qed

theorem uploads_are_never_forgotten_witness:
  "\<exists>S'. daemon_run [Uploaded] (demo_start demo_inode) S' \<and>
    (\<exists>t<length (du_tasks (du S')). \<forall>dst Q. download ''/a'' dst (du S') Q = Q\<lparr>local_que := local_que Q @ [(ut_local (du_tasks (du S') ! t), dst)]\<rparr>)"
proof -
  let ?S0 = "demo_start demo_inode"
  have n: "du ?S0 = new_DaemonUpload 100" by (simp add: demo_start_def)
  obtain D where D: "upload demo_files ''l1'' ''/a'' ''RE<2,1>'' (du ?S0) = Ok D" using demo_uploaded unfolding n .
  have r: "daemon_run [Uploaded] ?S0 (?S0\<lparr>du := D\<rparr>)" using run_step [OF run_done daemon_step.uploaded [OF D]] by simp
  from uploads_are_never_forgotten [OF run_done n D run_done] r show ?thesis by (intro exI [of _ "?S0\<lparr>du := D\<rparr>"]) auto
qed


definition demo_sender :: "'n \<Rightarrow> 'n service" where
  "demo_sender n = daemon.extend ((demo_daemon n)\<lparr>du := (new_DaemonUpload 1)\<lparr>
       big_file_que := (new_UploadQueue (- 1))\<lparr>uq_que := [0], uq_map := [(''/a'', [(''f'', 0)])]\<rparr>,
       du_tasks := [\<lparr>ut_local = ''l'', ut_remote = ''/a/f'', ut_size = 3, ut_storage = ''RE<2,1>'', uploadStatus = WAITING, belong_que = BigQue\<rparr>]\<rparr>\<rparr>)
     (service.fields \<lparr>local_que = [], remote_que = [(''/a/f'', ''out'')]\<rparr> [''l'' \<mapsto> ''abc''])"

lemma demo_sender_simps:
  "uq_que (big_file_que (du (demo_sender n))) = [0]" "sdk_nn (demo_sender n) = n"
  "du_tasks (du (demo_sender n)) ! 0 = \<lparr>ut_local = ''l'', ut_remote = ''/a/f'', ut_size = 3, ut_storage = ''RE<2,1>'', uploadStatus = WAITING, belong_que = BigQue\<rparr>"
  by (simp_all add: demo_sender_def daemon.defs sdk.defs service.defs demo_daemon_def demo_sdk_def)

text \<open>Here the two daemons are one: it uploads the file and then downloads it.\<close>

theorem big_file_from_daemon_to_daemon_witness:
  "\<exists>A'. big_file_turn demo_sdk_env [''l'' \<mapsto> ''abc''] (demo_sender demo_dir) = Some (Ok (), A') \<and>
    (\<exists>B'. remote_turn demo_sdk_env demo_fs (A'\<lparr>dd := \<lparr>local_que = [], remote_que = [(''/a/f'', ''out'')]\<rparr>\<rparr>) = Some (Ok (), B') \<and>
      local_files B' ''out'' = Some ''abc'')"
proof -
  have g: "all_good (se_calls demo_sdk_env) (concat [[demo_block, demo_block]])" using demo_upload_good by (simp add: upload_good_def)
  let ?task = "\<lparr>ut_local = ''l'', ut_remote = ''/a/f'', ut_size = 3, ut_storage = ''RE<2,1>'', uploadStatus = WAITING, belong_que = BigQue\<rparr>"
  let ?S = "demo_sender demo_dir" and ?files = "[''l'' \<mapsto> ''abc'']"
  have nn: "nn_ready mem_libs demo_env (sdk_nn ?S) (ut_remote ?task)" "\<not> nn_locked mem_libs demo_env (sdk_nn ?S) (ut_remote ?task)"
    "\<And>i. nn_entry mem_libs (sdk_nn ?S) (ut_remote ?task) = Some i \<Longrightarrow> agg_inode_id i = []"
    "open_local (Some ''abc'') (ut_storage ?task) = Ok (REStorageType 2 1, ''abc'')" "?files (ut_local ?task) = Some ''abc''"
    by (simp_all add: demo_sender_simps demo_ready demo_open)
  have env: "se_rpc demo_sdk_env = nn_rpc mem_libs demo_env" "jparse demo_sdk_env = jparse mem_libs" "jdump demo_sdk_env = jdump mem_libs"
    "se_client demo_sdk_env = se_client demo_sdk_env" "lf_writable demo_fs ''out''"
    by (simp_all add: demo_sdk_env_def demo_fs_def)
  from big_file_from_daemon_to_daemon [where files = ?files and L = mem_libs and W = demo_env, OF demo_sender_simps(1,3) nn(5,1,2,3,4) demo_upload_good env(1,1-4) g env(5)]
  obtain A' where A': "big_file_turn demo_sdk_env ?files ?S = Some (Ok (), A')"
    "\<forall>(B :: (mem_db, mem_db list) RocksDB service) q. sdk_nn B = sdk_nn A' \<and> sdk_cluster B = sdk_cluster A' \<and>
      remote_que (dd B) = (ut_remote ?task, ''out'') # q \<longrightarrow>
      (\<exists>B'. remote_turn demo_sdk_env demo_fs B = Some (Ok (), B') \<and> local_files B' ''out'' = Some ''abc'' \<and> remote_que (dd B') = q)" by blast
  from A'(2) [rule_format, of "A'\<lparr>dd := \<lparr>local_que = [], remote_que = [(''/a/f'', ''out'')]\<rparr>\<rparr>" "[]"] A'(1) show ?thesis by auto
qed

end
