(* ===== verification/Fuse.thy ===== *)
theory Fuse
  imports File_Service
begin

unbundle bit_operations_syntax

text \<open>
  The file system in user space: \<^verbatim>\<open>src/client/fuse.cpp\<close>.

  \<open>fuse\<close> is the state of a client with the nodes it may connect to and its connection: the master and the slave that the
  constructor of \<open>SDK\<close> chose, or \<open>None\<close> for a null pointer. \<open>fe_session\<close> gives what happens around the operations of a
  client with these name nodes; the other fields of \<open>fuse_env\<close> are what the probes and the constructor meet, by the number of
  the attempt to connect. A handler gives the value that is returned to the kernel, with the data. An exception that leaves a
  handler ends the process, because its caller is C code.
\<close>

section \<open>The connection\<close>

record 'n fuse_env =
  fe_net :: "nat \<Rightarrow> net"
  fe_pick :: "nat \<Rightarrow> nat \<Rightarrow> nat"
  fe_init_ok :: "nat \<Rightarrow> string \<Rightarrow> bool"
  fe_namenodes :: "nat \<Rightarrow> string \<Rightarrow> nat \<Rightarrow> string list rpc_result"
  fe_master_of :: "nat \<Rightarrow> string \<Rightarrow> nat \<Rightarrow> string rpc_result"
  fe_session :: "string \<times> string \<Rightarrow> 'n sdk_env"

record 'n fuse = "'n sdk" +
  fu_nodes :: "Node list"
  fu_sdk :: "(string \<times> string) option"
  fu_attempts :: nat

abbreviation all_offline :: exn where
  "all_offline \<equiv> RuntimeError ''all nodes offline''"

text \<open>The loop over the nodes, in groups of three; \<open>grp\<close> is the vector \<^verbatim>\<open>sub\<close>.\<close>

fun init_loop :: "net \<Rightarrow> Node list \<Rightarrow> Node list \<Rightarrow> Node outcome" where
  "init_loop W [] grp =
     (if grp = [] then Throw all_offline
      else bindO (node_discovery W grp) (\<lambda>probes.
        case find (\<lambda>node. nodeStatus node = ONLINE) probes of Some node \<Rightarrow> Ok node | None \<Rightarrow> Throw all_offline))"
| "init_loop W (node # nodes) grp =
     (if length grp = 3
      then bindO (node_discovery W grp) (\<lambda>probes.
        case find (\<lambda>node. nodeStatus node = ONLINE) probes of
          Some first \<Rightarrow> Ok first
        | None \<Rightarrow> init_loop W nodes [node])
      else init_loop W nodes (grp @ [node]))"

text \<open>A new client has no locks and no inodes; the local files stay.\<close>

definition new_client :: "string \<times> string \<Rightarrow> ('n, 'z) fuse_scheme \<Rightarrow> ('n, 'z) fuse_scheme" where
  "new_client c S = S\<lparr>fu_sdk := Some c, pathlocks := Map.empty, remoteLocks := [], local_inode_cache := Map.empty\<rparr>"

definition init_node :: "'n fuse_env \<Rightarrow> Node \<Rightarrow> (('n, 'z) fuse_scheme, unit) act" where
  "init_node F node S =
     (let k = fu_attempts S; a = Node_to_string node
      in case new_SDK (fe_pick F k) (fe_init_ok F k) (fe_namenodes F k a) (fe_master_of F k) [] of
           Ok c \<Rightarrow> Some (Ok (), new_client c S)
         | Throw e \<Rightarrow> Some (Throw e, S)
         | Abort m \<Rightarrow> Some (Abort m, S))"

definition fuse_init :: "'n fuse_env \<Rightarrow> (('n, 'z) fuse_scheme, unit) act" where
  "fuse_init F S =
     bindM (\<lambda>S. Some (init_loop (fe_net F (fu_attempts S)) (fu_nodes S) [], S)) (init_node F) (S\<lparr>fu_attempts := Suc (fu_attempts S)\<rparr>)"

definition deinit :: "(('n, 'z) fuse_scheme, unit) act" where
  "deinit = updM (\<lambda>S. S\<lparr>fu_sdk := None\<rparr>)"

definition reinit :: "'n fuse_env \<Rightarrow> (('n, 'z) fuse_scheme, unit) act" where
  "reinit F = bindM deinit (\<lambda>_. fuse_init F)"

definition new_FUSE :: "'n fuse_env \<Rightarrow> string \<Rightarrow> (('n, 'z) fuse_scheme, unit) act" where
  "new_FUSE F ips = bindM (retM (parse_nodes ips)) (\<lambda>nodes. bindM (updM (\<lambda>S. S\<lparr>fu_nodes := nodes\<rparr>)) (\<lambda>_. fuse_init F))"

section \<open>Operations\<close>

text \<open>An error that the other side reported is handled; any other exception makes a new connection and tries once more.\<close>

definition on_sdk :: "'n fuse_env \<Rightarrow> ('n sdk_env \<Rightarrow> (('n, 'z) fuse_scheme, 'a) act) \<Rightarrow> (('n, 'z) fuse_scheme, 'a) act" where
  "on_sdk F f S = (case fu_sdk S of None \<Rightarrow> Some (Abort ''null sdk'', S) | Some c \<Rightarrow> f (fe_session F c) S)"

fun is_message :: "exn \<Rightarrow> bool" where
  "is_message (MessageException c m) = True"
| "is_message e = False"

definition with_reinit ::
  "'n fuse_env \<Rightarrow> (exn \<Rightarrow> (('n, 'z) fuse_scheme, 'a) act) \<Rightarrow> ('n sdk_env \<Rightarrow> (('n, 'z) fuse_scheme, 'a) act) \<Rightarrow> (('n, 'z) fuse_scheme, 'a) act" where
  "with_reinit F handle f =
     catchM (on_sdk F f) (\<lambda>e. if is_message e then handle e else bindM (reinit F) (\<lambda>_. on_sdk F f))"

abbreviation dropped :: "exn \<Rightarrow> ('s, unit) act" where
  "dropped \<equiv> \<lambda>e. retM (Ok ())"

abbreviation rethrown :: "exn \<Rightarrow> ('s, 'a) act" where
  "rethrown \<equiv> \<lambda>e. retM (Throw e)"

definition fuse_open :: "'n fuse_env \<Rightarrow> path \<Rightarrow> 32 word \<Rightarrow> (('n, 'z) fuse_scheme, unit) act" where
  "fuse_open F dst flags = with_reinit F dropped (\<lambda>E. sdk_open E dst flags)"

definition fuse_mkdir :: "'n fuse_env \<Rightarrow> path \<Rightarrow> (('n, 'z) fuse_scheme, unit) act" where
  "fuse_mkdir F dst = with_reinit F dropped (\<lambda>E. sdk_mkdir E dst)"

definition fuse_rm :: "'n fuse_env \<Rightarrow> path \<Rightarrow> (('n, 'z) fuse_scheme, unit) act" where
  "fuse_rm F dst = with_reinit F dropped (\<lambda>E. sdk_rm E dst)"

definition fuse_truncate :: "'n fuse_env \<Rightarrow> path \<Rightarrow> u64 \<Rightarrow> (('n, 'z) fuse_scheme, unit) act" where
  "fuse_truncate F dst sz = with_reinit F dropped (\<lambda>E. sdk_truncate E dst sz)"

definition fuse_ls :: "'n fuse_env \<Rightarrow> path \<Rightarrow> (('n, 'z) fuse_scheme, Inode) act" where
  "fuse_ls F dst = with_reinit F rethrown (\<lambda>E. sdk_ls E dst)"

definition fuse_read :: "'n fuse_env \<Rightarrow> path \<Rightarrow> u64 \<Rightarrow> u64 \<Rightarrow> (('n, 'z) fuse_scheme, string) act" where
  "fuse_read F dst offset sz = with_reinit F rethrown (\<lambda>E. sdk_read_data E dst offset sz)"

definition fuse_create :: "'n fuse_env \<Rightarrow> path \<Rightarrow> (('n, 'z) fuse_scheme, unit) act" where
  "fuse_create F dst = with_reinit F rethrown (\<lambda>E. sdk_create E dst)"

definition fuse_write :: "'n fuse_env \<Rightarrow> path \<Rightarrow> u64 \<Rightarrow> string \<Rightarrow> (('n, 'z) fuse_scheme, unit) act" where
  "fuse_write F dst offset s = with_reinit F rethrown (\<lambda>E. sdk_write_data E dst offset s)"

definition fuse_close :: "'n fuse_env \<Rightarrow> path \<Rightarrow> (('n, 'z) fuse_scheme, unit) act" where
  "fuse_close F dst = with_reinit F rethrown (\<lambda>E. sdk_close E dst)"

definition fuse_fsync :: "'n fuse_env \<Rightarrow> path \<Rightarrow> (('n, 'z) fuse_scheme, unit) act" where
  "fuse_fsync F dst = with_reinit F rethrown (\<lambda>E. sdk_fsync E dst)"

section \<open>Handlers\<close>

definition ENOENT :: int where "ENOENT = 2"
definition EIO :: int where "EIO = 5"
definition EEXIST :: int where "EEXIST = 17"
definition S_IFDIR :: "32 word" where "S_IFDIR = 0x4000"
definition S_IFREG :: "32 word" where "S_IFREG = 0x8000"

record stat =
  st_mode :: "32 word"
  st_nlink :: nat
  st_size :: int

definition escapes :: "('s, 'a) act \<Rightarrow> ('s, 'a) act" where
  "escapes m S = map_option (\<lambda>(r, S'). (thread_result r, S')) (m S)"

text \<open>The modes are 0755 and 0644.\<close>

definition stat_of :: "Inode \<Rightarrow> stat" where
  "stat_of inode =
     (if is_directory inode then \<lparr>st_mode = S_IFDIR OR 0x1ED, st_nlink = 2, st_size = 0\<rparr>
      else \<lparr>st_mode = S_IFREG OR 0x1A4, st_nlink = 1, st_size = sint (filesize inode)\<rparr>)"

definition spkdfs_getattr :: "'n fuse_env \<Rightarrow> path \<Rightarrow> (('n, 'z) fuse_scheme, int \<times> stat option) act" where
  "spkdfs_getattr F p =
     escapes (catchM (bindM (fuse_ls F p) (\<lambda>inode. retM (Ok (0, Some (stat_of inode)))))
       (\<lambda>e. if is_message e then retM (Ok (- ENOENT, None)) else retM (Throw e)))"

definition dir_entry :: "string \<Rightarrow> string outcome" where
  "dir_entry str =
     (if str = [] then Abort ''back() of an empty string'' else Ok (if last str = CHR ''/'' then butlast str else str))"

definition spkdfs_readdir :: "'n fuse_env \<Rightarrow> path \<Rightarrow> (('n, 'z) fuse_scheme, int \<times> string list) act" where
  "spkdfs_readdir F p =
     escapes (bindM (fuse_ls F p) (\<lambda>inode.
       if \<not> is_directory inode then retM (Throw (RuntimeError ''not directory error''))
       else bindM (retM (mapO dir_entry (sub inode))) (\<lambda>names. retM (Ok (0, ''.'' # ''..'' # names)))))"

definition spkdfs_mkdir :: "'n fuse_env \<Rightarrow> path \<Rightarrow> (('n, 'z) fuse_scheme, int) act" where
  "spkdfs_mkdir F p =
     escapes (catchM (bindM (fuse_mkdir F p) (\<lambda>_. retM (Ok 0)))
       (\<lambda>e. case e of
              MessageException PATH_EXISTS_EXCEPTION m \<Rightarrow> retM (Ok EEXIST)
            | MessageException PATH_NOT_EXISTS_EXCEPTION m \<Rightarrow> retM (Ok ENOENT)
            | _ \<Rightarrow> retM (Ok EIO)))"

text \<open>An exception thrown in a \<^verbatim>\<open>catch\<close> clause does not reach the next clause of the same \<^verbatim>\<open>try\<close>.\<close>

definition spkdfs_rm :: "'n fuse_env \<Rightarrow> path \<Rightarrow> (('n, 'z) fuse_scheme, int) act" where
  "spkdfs_rm F p =
     escapes (catchM (bindM (fuse_rm F p) (\<lambda>_. retM (Ok 0)))
       (\<lambda>e. case e of
              MessageException PATH_EXISTS_EXCEPTION m \<Rightarrow> retM (Ok EEXIST)
            | MessageException PATH_NOT_EXISTS_EXCEPTION m \<Rightarrow> retM (Ok ENOENT)
            | MessageException c m \<Rightarrow> retM (Throw e)
            | _ \<Rightarrow> retM (Ok EIO)))"

definition spkdfs_truncate :: "'n fuse_env \<Rightarrow> path \<Rightarrow> u64 \<Rightarrow> (('n, 'z) fuse_scheme, int) act" where
  "spkdfs_truncate F p sz = catchM (bindM (fuse_truncate F p sz) (\<lambda>_. retM (Ok 0))) (\<lambda>e. retM (Ok (- ENOENT)))"

definition spkdfs_open :: "'n fuse_env \<Rightarrow> path \<Rightarrow> 32 word \<Rightarrow> (('n, 'z) fuse_scheme, int) act" where
  "spkdfs_open F p flags = escapes (bindM (fuse_open F p flags) (\<lambda>_. retM (Ok 0)))"

text \<open>\<^verbatim>\<open>memcpy(buff, s.data(), size)\<close>: after its characters a string has one zero that may be read.\<close>

definition copy_out :: "u64 \<Rightarrow> string \<Rightarrow> string outcome" where
  "copy_out sz s = (if unat sz \<le> Suc (length s) then Ok (take (unat sz) (s @ [CHR 0x00])) else Abort ''memcpy past the end'')"

definition spkdfs_read :: "'n fuse_env \<Rightarrow> path \<Rightarrow> u64 \<Rightarrow> u64 \<Rightarrow> (('n, 'z) fuse_scheme, int \<times> string) act" where
  "spkdfs_read F p sz offset =
     catchM (bindM (fuse_read F p offset sz) (\<lambda>s. bindM (retM (copy_out sz s)) (\<lambda>buff. retM (Ok (to_int32 (uint sz), buff)))))
       (\<lambda>e. retM (Ok (- ENOENT, [])))"

definition spkdfs_write :: "'n fuse_env \<Rightarrow> path \<Rightarrow> string \<Rightarrow> u64 \<Rightarrow> (('n, 'z) fuse_scheme, int) act" where
  "spkdfs_write F p data offset =
     catchM (bindM (fuse_write F p offset data) (\<lambda>_. retM (Ok (to_int32 (int (length data)))))) (\<lambda>e. retM (Ok (- EIO)))"

definition spkdfs_close :: "'n fuse_env \<Rightarrow> path \<Rightarrow> (('n, 'z) fuse_scheme, int) act" where
  "spkdfs_close F p = catchM (bindM (fuse_close F p) (\<lambda>_. retM (Ok 0))) (\<lambda>e. retM (Ok (- EIO)))"

definition spkdfs_fsync :: "'n fuse_env \<Rightarrow> path \<Rightarrow> (('n, 'z) fuse_scheme, int) act" where
  "spkdfs_fsync F p = catchM (bindM (fuse_fsync F p) (\<lambda>_. retM (Ok 0))) (\<lambda>e. retM (Ok (- EIO)))"

definition spkdfs_create :: "'n fuse_env \<Rightarrow> path \<Rightarrow> (('n, 'z) fuse_scheme, int) act" where
  "spkdfs_create F p = catchM (bindM (fuse_create F p) (\<lambda>_. retM (Ok 0))) (\<lambda>e. retM (Ok (- EIO)))"

definition spkdfs_utimens :: "path \<Rightarrow> ('s, int) act" where
  "spkdfs_utimens p = retM (Ok 0)"

section \<open>Running handlers\<close>

lemma find_probed: "find (\<lambda>n. nodeStatus n = ONLINE) (map (probed W) ns) = map_option (probed W) (find (answers W) ns)"
  by (induction ns) auto

lemma find_append: "find P (xs @ ys) = (case find P xs of None \<Rightarrow> find P ys | Some x \<Rightarrow> Some x)"
  by (induction xs) auto

lemma init_loop_first:
  assumes "\<forall>a. chan_init W a" "length grp \<le> 3"
  shows "init_loop W nodes grp = (case find (answers W) (grp @ nodes) of Some n \<Rightarrow> Ok (probed W n) | None \<Rightarrow> Throw all_offline)"
  using assms(2)
proof (induction nodes arbitrary: grp)
  case Nil
  then show ?case using assms(1) by (cases "find (answers W) grp") (auto simp: node_discovery_total find_probed)
next
  case (Cons node nodes)
  show ?case
  proof (cases "length grp = 3")
    case True
    then show ?thesis using Cons.IH [of "[node]"] assms(1)
      by (cases "find (answers W) grp") (auto simp: node_discovery_total find_probed find_append split: option.splits)
  qed (use Cons in simp)
qed

lemma on_sdk_simps: "fu_sdk S = Some c \<Longrightarrow> on_sdk F f S = f (fe_session F c) S" "fu_sdk S = None \<Longrightarrow> on_sdk F f S = Some (Abort ''null sdk'', S)"
  by (simp_all add: on_sdk_def)

lemma with_reinit_simps:
  assumes "fu_sdk S = Some c"
  shows "f (fe_session F c) S = Some (Ok x, S') \<Longrightarrow> with_reinit F handle f S = Some (Ok x, S')"
    "f (fe_session F c) S = Some (Throw (MessageException code msg), S') \<Longrightarrow> with_reinit F handle f S = handle (MessageException code msg) S'"
    "f (fe_session F c) S = Some (Throw e, S') \<Longrightarrow> \<not> is_message e \<Longrightarrow> with_reinit F handle f S = bindM (reinit F) (\<lambda>_. on_sdk F f) S'"
  using assms by (simp_all add: with_reinit_def catchM_def on_sdk_simps)

lemma with_reinit_null: "fu_sdk S = None \<Longrightarrow> with_reinit F handle f S = Some (Abort ''null sdk'', S)"
  by (simp add: with_reinit_def catchM_def on_sdk_simps)

lemma nn_call_failed:
  assumes "fst (retry_call 2 (se_rpc E st req) (sdk_nn S)) = RpcFailed txt"
  obtains n where "nn_call E st req S = Some (Throw (RuntimeError (''brpc not success: '' @ txt)), S\<lparr>sdk_nn := n\<rparr>)"
  using assms that by (cases "retry_call 2 (se_rpc E st req) (sdk_nn S)") (auto simp: nn_call_def)

lemma sint_of_nat: "n < 2 ^ 63 \<Longrightarrow> sint (of_nat n :: u64) = int n"
  using signed_take_bit_int_eq_self [of 63 "int n"] by (simp add: sint_uint uint_nat unat_of_nat)

section \<open>Properties\<close>

text \<open>C22: Probing in groups finds the first node of the list that answers: when channels can be made, \<open>init\<close> connects to the first node, in
  the order of the option \<^verbatim>\<open>--ips\<close>, that answers one of three probes, and fails exactly if no node answers.\<close>

theorem init_finds_first_online:
  assumes "\<forall>a. chan_init W a"
  shows "init_loop W nodes [] = (case find (answers W) nodes of Some n \<Rightarrow> Ok (probed W n) | None \<Rightarrow> Throw all_offline)"
  using init_loop_first [OF assms, of "[]"] by simp

text \<open>What the name node refuses is reported as done. Whenever the name node answers a request to make or to remove a path with an error,
  whatever the error, the handler returns 0 to the kernel.\<close>

theorem refused_requests_return_zero:
  assumes "fu_sdk S = Some c" "se_rpc (fe_session F c) Master req (sdk_nn S) = (Reply r d, n)" "\<not> success r"
  shows "(req = Mkdir p \<longrightarrow> spkdfs_mkdir F p S = Some (Ok 0, S\<lparr>sdk_nn := n\<rparr>)) \<and> (req = Rm p \<longrightarrow> spkdfs_rm F p S = Some (Ok 0, S\<lparr>sdk_nn := n\<rparr>))"
proof -
  obtain code msg where i: "ignore (nn_call (fe_session F c) Master req) S = Some (Throw (MessageException code msg), S\<lparr>sdk_nn := n\<rparr>)"
    using ignore_reply(2) [OF assms(2,3)] by blast
  have w: "with_reinit F dropped (\<lambda>E. ignore (nn_call E Master req)) S = Some (Ok (), S\<lparr>sdk_nn := n\<rparr>)"
    using with_reinit_simps(2) [OF assms(1), of "\<lambda>E. ignore (nn_call E Master req)", OF i] by simp
  have "fuse_mkdir F p S = Some (Ok (), S\<lparr>sdk_nn := n\<rparr>)" if "req = Mkdir p" using w that by (simp add: fuse_mkdir_def sdk_mkdir_def)
  moreover have "fuse_rm F p S = Some (Ok (), S\<lparr>sdk_nn := n\<rparr>)" if "req = Rm p" using w that by (simp add: fuse_rm_def sdk_rm_def)
  ultimately show ?thesis by (simp add: spkdfs_mkdir_def spkdfs_rm_def escapes_def)
qed


text \<open>C20: What was uploaded is seen through the kernel. After an upload of a file by \<open>SDK::put\<close>, under the conditions of a download,
  the attributes of its path, asked for by a client that reaches the same name node, are those of a regular file of the length
  of the local file.\<close>

theorem uploaded_file_attributes:
  fixes L :: "('db, 'bk) libs"
  assumes "nn_ready L W (sdk_nn S) p" "\<not> nn_locked L W (sdk_nn S) p"
    "\<And>i. nn_entry L (sdk_nn S) p = Some i \<Longrightarrow> agg_inode_id i = []"
    "open_local (Some content) s = Ok (st, content)" "upload_good E st content vecs" "harmless mark" "se_rpc E = nn_rpc L W"
    "fe_session F c = E'" "se_rpc E' = nn_rpc L W" "jparse E' = jparse L" "jdump E' = jdump L" "length content < 2 ^ 63"
  shows "\<exists>S'. sdk_put E mark (Some content) p s S = Some (Ok (), S') \<and>
    (\<forall>T :: (('db, 'bk) RocksDB, 'y) fuse_scheme. fu_sdk T = Some c \<and> sdk_nn T = sdk_nn S' \<longrightarrow>
      spkdfs_getattr F p T = Some (Ok (0, Some \<lparr>st_mode = S_IFREG OR 0x1A4, st_nlink = 1, st_size = int (length content)\<rparr>), T))"
proof -
  let ?E = "E\<lparr>jparse := jparse L, jdump := jdump L\<rparr>"
  have g: "se_rpc ?E = nn_rpc L W" "jparse ?E = jparse L" "jdump ?E = jdump L" "se_client ?E = se_client E" "all_good (se_calls ?E) (concat vecs)"
    using assms(5,7) by (simp_all add: upload_good_def)
  obtain S' i where S': "sdk_put E mark (Some content) p s S = Some (Ok (), S')" "nn_ready L W (sdk_nn S') p" "nn_entry L (sdk_nn S') p = Some i"
    "valid i" "\<not> is_directory i" "filesize i = of_nat (length content)"
    using put_and_download [OF assms(1-3) assms(4-7) g] by blast
  have "stat_of i = \<lparr>st_mode = S_IFREG OR 0x1A4, st_nlink = 1, st_size = int (length content)\<rparr>"
    using S'(5,6) sint_of_nat [OF assms(12)] by (simp add: stat_of_def)
  moreover have "fuse_ls F p T = Some (Ok i, T)" if "fu_sdk T = Some c" "sdk_nn T = sdk_nn S'"
    for T :: "(('db, 'bk) RocksDB, 'y) fuse_scheme"
    using with_reinit_simps(1) [OF that(1), of "\<lambda>E. sdk_ls E p"] nn.remote_entry [OF assms(9) Inode_of_text_lib [OF assms(10,11)], of T p i] S'(2-4) that(2)
    by (simp add: fuse_ls_def sdk_ls_def assms(8))
  ultimately show ?thesis using S'(1) by (auto simp: spkdfs_getattr_def escapes_def)
qed


section \<open>Concrete runs\<close>

definition demo_fuse_env :: "'n sdk_env \<Rightarrow> net \<Rightarrow> 'n fuse_env" where
  "demo_fuse_env E W = \<lparr>fe_net = (\<lambda>k. W), fe_pick = (\<lambda>k n. 0), fe_init_ok = (\<lambda>k a. True),
     fe_namenodes = (\<lambda>k a n. Reply (succ_response new_Response) [''n:1'', ''n:2'']),
     fe_master_of = (\<lambda>k a n. Reply (succ_response new_Response) ''n:1''), fe_session = (\<lambda>c. E)\<rparr>"

definition demo_fuse :: "'n \<Rightarrow> 'n fuse" where
  "demo_fuse n = sdk.extend (demo_sdk n) (fuse.fields [default_Node] (Some (''n:1'', ''n:2'')) 0)"

definition silent :: net where
  "silent = \<lparr>chan_init = (\<lambda>a. True), echo_failed = (\<lambda>a j. True)\<rparr>"

lemma demo_fuse_simps:
  "fu_sdk (demo_fuse n) = Some (''n:1'', ''n:2'')" "fu_nodes (demo_fuse n) = [default_Node]" "fu_attempts (demo_fuse n) = 0"
  "sdk_nn (demo_fuse n) = n" "fe_session (demo_fuse_env E W) c = E" "fe_net (demo_fuse_env E W) k = W"
  by (simp_all add: demo_fuse_def sdk.defs fuse.defs demo_sdk_def demo_fuse_env_def)

definition demo_node :: "string \<Rightarrow> Node" where
  "demo_node a = \<lparr>ip = a, port = 1, nodeStatus = UNKNOWN\<rparr>"

theorem init_finds_first_online_witness:
  "init_loop \<lparr>chan_init = (\<lambda>a. True), echo_failed = (\<lambda>a j. a \<noteq> ''d:1'')\<rparr>
     (map demo_node [''a'', ''b'', ''c'', ''d'', ''e'']) [] = Ok ((demo_node ''d'')\<lparr>nodeStatus := ONLINE\<rparr>)"
proof -
  let ?W = "\<lparr>chan_init = (\<lambda>a. True), echo_failed = (\<lambda>a j. a \<noteq> ''d:1'')\<rparr>"
  have "Node_to_string (demo_node a) = a @ '':1''" for a
  proof -
    have "int_to_string 1 = ''1''" by code_simp
    then show ?thesis by (simp add: demo_node_def Node_to_string_def)
  qed
  then have "answers ?W (demo_node a) \<longleftrightarrow> a = ''d''" for a by (auto simp: answers_def intro: exI [of _ 0])
  then show ?thesis using init_finds_first_online [of ?W "map demo_node [''a'', ''b'', ''c'', ''d'', ''e'']"] by (simp add: probed_def)
qed

theorem refused_requests_return_zero_witness:
  "\<exists>S'. spkdfs_mkdir (demo_fuse_env (demo_session\<lparr>se_rpc := (\<lambda>st req n. (Reply new_Response [], n))\<rparr>) silent) ''/a'' (demo_fuse demo_inode) = Some (Ok 0, S')"
proof -
  let ?F = "demo_fuse_env (demo_session\<lparr>se_rpc := (\<lambda>st req n. (Reply new_Response [], n))\<rparr>) silent"
  have r: "se_rpc (fe_session ?F (''n:1'', ''n:2'')) Master (Mkdir ''/a'') (sdk_nn (demo_fuse demo_inode)) = (Reply new_Response [], demo_inode)"
    by (simp add: demo_fuse_simps)
  have "\<not> success new_Response" by (simp add: new_Response_def)
  from refused_requests_return_zero [OF demo_fuse_simps(1) r this, of "''/a''"] show ?thesis by simp
qed


text \<open>A file of three bytes, read with a page size.\<close>

definition demo_reading :: "Inode fuse" where
  "demo_reading = (demo_fuse demo_inode)\<lparr>sdk_cluster := (\<lambda>a. [''/data/blk_A'' \<mapsto> ''abc'']),
     local_inode_cache := [''/f'' \<mapsto> demo_inode\<lparr>sub := [''n:1|A''], filesize := 3\<rparr>]\<rparr>"

definition demo_reader :: "Inode fuse_env" where
  "demo_reader = demo_fuse_env (demo_session\<lparr>se_client := demo_client ''abc''\<rparr>) silent"


theorem uploaded_file_attributes_witness:
  "\<exists>S'. sdk_put demo_sdk_env (\<lambda>u. retM (Ok ())) (Some ''abc'') ''/a/f'' ''RE<2,1>'' (demo_sdk demo_dir) = Some (Ok (), S') \<and>
    spkdfs_getattr (demo_fuse_env demo_sdk_env silent) ''/a/f'' (demo_fuse (sdk_nn S')) =
      Some (Ok (0, Some \<lparr>st_mode = S_IFREG OR 0x1A4, st_nlink = 1, st_size = 3\<rparr>), demo_fuse (sdk_nn S'))"
proof -
  have n: "nn_ready mem_libs demo_env (sdk_nn (demo_sdk demo_dir)) ''/a/f''" "\<not> nn_locked mem_libs demo_env (sdk_nn (demo_sdk demo_dir)) ''/a/f''"
    "\<And>i. nn_entry mem_libs (sdk_nn (demo_sdk demo_dir)) ''/a/f'' = Some i \<Longrightarrow> agg_inode_id i = []"
    by (simp_all add: demo_sdk_def demo_ready)
  have e: "se_rpc demo_sdk_env = nn_rpc mem_libs demo_env" "jparse demo_sdk_env = jparse mem_libs" "jdump demo_sdk_env = jdump mem_libs"
    "length ''abc'' < 2 ^ 63"
    by (simp_all add: demo_sdk_env_def)
  from uploaded_file_attributes [where L = mem_libs and W = demo_env, OF n demo_open demo_upload_good demo_harmless e(1) demo_fuse_simps(5) e]
  obtain S' where S': "sdk_put demo_sdk_env (\<lambda>u. retM (Ok ())) (Some ''abc'') ''/a/f'' ''RE<2,1>'' (demo_sdk demo_dir) = Some (Ok (), S')"
    "\<And>T :: (mem_db, mem_db list) RocksDB fuse. fu_sdk T = Some (''n:1'', ''n:2'') \<Longrightarrow> sdk_nn T = sdk_nn S' \<Longrightarrow>
      spkdfs_getattr (demo_fuse_env demo_sdk_env silent) ''/a/f'' T =
        Some (Ok (0, Some \<lparr>st_mode = S_IFREG OR 0x1A4, st_nlink = 1, st_size = int (length ''abc'')\<rparr>), T)" by blast
  from S'(2) [of "demo_fuse (sdk_nn S')"] S'(1) show ?thesis by (simp add: demo_fuse_simps)
qed

end
