(* ===== verification/Command_Line.thy ===== *)
theory Command_Line
  imports Downloads
begin

text \<open>
  The command line of the client, \<^verbatim>\<open>src/client/main.cpp\<close>, and the port of the daemon, \<^verbatim>\<open>src/client/daemon.cpp\<close>.

  A command runs against the daemon of the same machine. What is printed to the standard output is the result, line by line;
  an exception ends the program. How a call reaches the daemon is a \<open>delivery\<close>, given from outside.
\<close>

section \<open>Calls to the daemon\<close>

datatype delivery = Delivered | NotDelivered | ReplyLost

record 'n cli_env =
  ce_channel :: bool
  ce_delivery :: delivery
  ce_pp :: "ERROR_CODE \<Rightarrow> string"
  ce_sdk :: "'n sdk_env"

text \<open>A request whose handler waits is given up by the caller; the daemon is left as it is.\<close>

definition daemon_call :: "'n cli_env \<Rightarrow> (('n, 'z) service_scheme, daemon_reply) act \<Rightarrow> (('n, 'z) service_scheme, daemon_reply rpc_result) act" where
  "daemon_call K m S =
     (if \<not> ce_channel K then Some (Throw (RuntimeError ''channel init failed''), S)
      else case ce_delivery K of
        NotDelivered \<Rightarrow> Some (Ok (RpcFailed ''not delivered''), S)
      | ReplyLost \<Rightarrow> (case m S of None \<Rightarrow> Some (Ok (RpcFailed ''timeout''), S) | Some (r, S') \<Rightarrow> Some (Ok (RpcFailed ''timeout''), S'))
      | Delivered \<Rightarrow>
          (case m S of
             None \<Rightarrow> Some (Ok (RpcFailed ''timeout''), S)
           | Some (Ok rsp, S') \<Rightarrow> Some (Ok (Reply (dr_common rsp) rsp), S')
           | Some (_, S') \<Rightarrow> Some (Ok (RpcFailed ''connection closed''), S')))"

definition daemon_put_async :: "'n cli_env \<Rightarrow> string \<Rightarrow> path \<Rightarrow> string \<Rightarrow> (('n, 'z) service_scheme, unit) act" where
  "daemon_put_async K src dst storage_type = ignore (daemon_call K (service_put (ce_pp K) src dst storage_type))"

definition daemon_get_async :: "'n cli_env \<Rightarrow> path \<Rightarrow> string \<Rightarrow> (('n, 'z) service_scheme, unit) act" where
  "daemon_get_async K src dst = ignore (daemon_call K (service_get (ce_pp K) src dst))"

definition daemon_fsync :: "'n cli_env \<Rightarrow> string \<Rightarrow> path \<Rightarrow> (('n, 'z) service_scheme, unit) act" where
  "daemon_fsync K local_path remote_path = ignore (daemon_call K (service_sync (ce_pp K) local_path remote_path))"

definition daemon_rm :: "'n cli_env \<Rightarrow> path \<Rightarrow> (('n, 'z) service_scheme, unit) act" where
  "daemon_rm K p = ignore (daemon_call K (service_rm (ce_pp K) (ce_sdk K) p))"

text \<open>A call that failed leaves the data of the response empty, and an empty text is parsed.\<close>

definition reply_data :: "daemon_reply rpc_result \<Rightarrow> string" where
  "reply_data r = (case r of RpcFailed m \<Rightarrow> [] | Reply c rsp \<Rightarrow> dr_data rsp)"

definition daemon_ls_rpc :: "'n cli_env \<Rightarrow> path \<Rightarrow> (('n, 'z) service_scheme, Inode) act" where
  "daemon_ls_rpc K p =
     bindM (daemon_call K (service_ls (ce_pp K) (ce_sdk K) p)) (\<lambda>r. retM (Inode_of_text (ce_sdk K) (reply_data r)))"

section \<open>Commands\<close>

text \<open>\<^verbatim>\<open>argv[1] != "/"\<close> compares two pointers, which are different.\<close>

definition ls_lines :: "Inode \<Rightarrow> string list" where
  "ls_lines inode =
     (if is_directory inode then ''.'' # ''..'' # sub inode
      else [fullpath inode @ '' '' @ nat_to_string (unat (filesize inode)) @ '' '' @
            (case storage_type_ptr inode of None \<Rightarrow> ''UNKNOWN'' | Some st \<Rightarrow> StorageType_to_string st)])"

text \<open>The arguments after the name of the program; a missing one is a null pointer.\<close>

definition arg :: "string list \<Rightarrow> nat \<Rightarrow> ('s, string) act" where
  "arg args n = retM (if n < length args then Ok (args ! n) else Abort ''null argument'')"

abbreviation printing :: "('s, unit) act \<Rightarrow> string \<Rightarrow> ('s, string list) act" where
  "printing m line \<equiv> bindM m (\<lambda>_. retM (Ok [line]))"

definition run_command :: "'n cli_env \<Rightarrow> string \<Rightarrow> string \<Rightarrow> string list \<Rightarrow> (('n, 'z) service_scheme, string list) act" where
  "run_command K command storage_type args =
     (if command = ''put'' then bindM (arg args 0) (\<lambda>src. bindM (arg args 1) (\<lambda>dst. printing (daemon_put_async K src dst storage_type) ''success''))
      else if command = ''get'' then bindM (arg args 0) (\<lambda>src. bindM (arg args 1) (\<lambda>dst. printing (daemon_get_async K src dst) ''success''))
      else if command = ''ls'' then bindM (arg args 0) (\<lambda>p. bindM (daemon_ls_rpc K p) (\<lambda>inode. retM (Ok (ls_lines inode))))
      else if command = ''mkdir'' then bindM (arg args 0) (\<lambda>p. printing (sdk_mkdir (ce_sdk K) p) ''success'')
      else if command = ''rm'' then bindM (arg args 0) (\<lambda>p. printing (daemon_rm K p) ''success'')
      else if command = ''sync'' then bindM (arg args 0) (\<lambda>l. bindM (arg args 1) (\<lambda>r. printing (daemon_fsync K l r) ''fsync ''))
      else if ce_channel K then retM (Ok []) else retM (Throw (RuntimeError ''channel init failed'')))"

definition cli_main :: "'n cli_env \<Rightarrow> string \<Rightarrow> string \<Rightarrow> string list \<Rightarrow> (('n, 'z) service_scheme, string list) act" where
  "cli_main K command storage_type args S = map_option (\<lambda>(r, S'). (thread_result r, S')) (run_command K command storage_type args S)"

section \<open>The port of the daemon\<close>

text \<open>\<^verbatim>\<open>std::stoul\<close>: a negative number is taken modulo the word size.\<close>

definition stoul :: "string \<Rightarrow> u64 outcome" where
  "stoul s =
     (let (neg, t) = strip_sign (dropWhile is_space s);
          ds = takeWhile is_digit t
      in if ds = [] then Throw (InvalidArgument ''stoul'')
         else if digits_val ds \<ge> 2 ^ 64 then Throw (OutOfRange ''stoul'')
         else Ok (if neg then - of_nat (digits_val ds) else of_nat (digits_val ds)))"

definition daemon_port :: "string \<Rightarrow> 32 word outcome" where
  "daemon_port addr =
     (case dropWhile (\<lambda>c. c \<noteq> CHR '':'') addr of
        [] \<Rightarrow> Ok 8003
      | c # port_text \<Rightarrow> bindO (stoul port_text) (\<lambda>v. Ok (ucast v)))"

section \<open>Properties\<close>

lemma sdk_ls_keeps: "sdk_ls E p S = Some (r, S') \<Longrightarrow> du S' = du S \<and> dd S' = dd S \<and> local_files S' = local_files S" for S S' :: "('n, 'z) service_scheme"
  by (auto simp: sdk_ls_def get_remote_inode_def nn_call_def bindM_def split: prod.splits outcome.splits)

lemma find_dir_put:
  assumes "push_back n t h q = Ok (h', q')"
  shows "t \<in> set (find_dir_in_map q' (parent_path_of (ut_remote (h ! t))))"
proof -
  let ?p = "ut_remote (h ! t)"
  have m: "uq_map q' = table_put (parent_path_of ?p) (filename_of ?p) t (uq_map q)"
    using assms by (auto simp: push_back_def Let_def split: if_splits)
  obtain d where d: "map_of (uq_map q') (parent_path_of ?p) = Some d" "map_of d (filename_of ?p) = Some t"
    unfolding m by (auto simp: table_put_def update_conv')
  from map_of_SomeD [OF d(2)] show ?thesis by (force simp: find_dir_in_map_def d(1))
qed


text \<open>The command line reports success whatever happens. When a channel to the daemon can be made, \<open>put\<close>, \<open>get\<close> and \<open>rm\<close> print
  ``success'', also when the request did not arrive or the daemon refused it: so does \<open>put\<close> of a local file that is not there, which
  leaves the daemon unchanged.\<close>

theorem command_line_reports_success:
  assumes "ce_channel K"
  shows "(\<forall>cmd a b. cmd \<in> {''put'', ''get'', ''rm''} \<longrightarrow> (\<exists>S'. cli_main K cmd st [a, b] S = Some (Ok [''success''], S'))) \<and>
    (\<forall>a b. local_files S a = None \<longrightarrow> cli_main K ''put'' st [a, b] S = Some (Ok [''success''], S))"
proof -
  have call: "\<exists>r S'. daemon_call K m S = Some (Ok r, S')" for m
    using assms by (auto simp: daemon_call_def split: delivery.splits option.splits outcome.splits)
  have i: "\<exists>S'. ignore (daemon_call K m) S = Some (Ok (), S')" for m using call [of m] by auto
  have "\<exists>S'. cli_main K ''put'' st [a, b] S = Some (Ok [''success''], S')" for a b
  proof -
    obtain S' where "ignore (daemon_call K (service_put (ce_pp K) a b st)) S = Some (Ok (), S')" using i by blast
    then show ?thesis by (simp add: cli_main_def run_command_def arg_def daemon_put_async_def)
  qed
  moreover have "\<exists>S'. cli_main K ''get'' st [a, b] S = Some (Ok [''success''], S')" for a b
  proof -
    obtain S' where "ignore (daemon_call K (service_get (ce_pp K) a b)) S = Some (Ok (), S')" using i by blast
    then show ?thesis by (simp add: cli_main_def run_command_def arg_def daemon_get_async_def)
  qed
  moreover have "\<exists>S'. cli_main K ''rm'' st [a, b] S = Some (Ok [''success''], S')" for a b
  proof -
    obtain S' where "ignore (daemon_call K (service_rm (ce_pp K) (ce_sdk K) a)) S = Some (Ok (), S')" using i by blast
    then show ?thesis by (simp add: cli_main_def run_command_def arg_def daemon_rm_def)
  qed
  moreover have "cli_main K ''put'' st [a, b] S = Some (Ok [''success''], S)" if none: "local_files S a = None" for a b
  proof -
    obtain e where "upload (local_files S) a b st (du S) = Throw e" using none by (cases "du_stop (du S)") (simp_all add: upload_def)
    then obtain r where "service_put (ce_pp K) a b st S = Some (Ok r, S)" by (simp add: service_put_def answer_def catchM_def)
    then have "\<exists>r. daemon_call K (service_put (ce_pp K) a b st) S = Some (Ok r, S)"
      using assms by (cases "ce_delivery K") (auto simp: daemon_call_def)
    then have "ignore (daemon_call K (service_put (ce_pp K) a b st)) S = Some (Ok (), S)" by auto
    then show ?thesis by (simp add: cli_main_def run_command_def arg_def daemon_put_async_def)
  qed
  ultimately show ?thesis by blast
qed

definition demo_cli :: "Inode cli_env" where
  "demo_cli = \<lparr>ce_channel = True, ce_delivery = Delivered, ce_pp = (\<lambda>c. ''code''), ce_sdk = demo_session\<rparr>"

theorem command_line_reports_success_witness:
  "cli_main demo_cli ''put'' ''RE<2,1>'' [''missing'', ''/a''] (demo_service demo_inode) = Some (Ok [''success''], demo_service demo_inode)"
proof -
  have "ce_channel demo_cli" by (simp add: demo_cli_def)
  moreover have "local_files (demo_service demo_inode) ''missing'' = None" by (simp add: demo_service_simps demo_files_def)
  ultimately show ?thesis using command_line_reports_success [of demo_cli "''RE<2,1>''" "demo_service demo_inode"] by blast
qed


end
