(* ===== verification/Connection_Pool.thy ===== *)
theory Connection_Pool
  imports Prelude
begin

text \<open>
  The pool of connections: \<^verbatim>\<open>include/common/connecttion_pool.hpp\<close>.

  An entry of the table is a channel, of which only the result of \<^verbatim>\<open>Channel::Init\<close> is kept, and a stub, which may be missing.
  \<open>init_ok\<close> and \<open>stub_ok\<close> are what initialising a channel and making a stub do at the time of the call. The lock makes a call
  atomic.
\<close>

record pool_entry =
  pe_channel :: bool
  pe_stub :: bool

type_synonym ConnecttionPool = "string \<rightharpoonup> pool_entry"

text \<open>The result is the entry behind the stub. The result of \<^verbatim>\<open>Channel::Init\<close> is not looked at.\<close>

definition get_stub :: "bool \<Rightarrow> string option \<Rightarrow> string \<Rightarrow> ConnecttionPool \<Rightarrow> pool_entry outcome \<times> ConnecttionPool" where
  "get_stub init_ok stub_error node stubs =
     (let made = (case stub_error of
            None \<Rightarrow> (let e = \<lparr>pe_channel = init_ok, pe_stub = True\<rparr> in (Ok e, stubs(node \<mapsto> e)))
          | Some m \<Rightarrow> (Throw (RuntimeError (''node not online: '' @ m)), stubs(node \<mapsto> \<lparr>pe_channel = init_ok, pe_stub = False\<rparr>)))
      in case stubs node of
           Some e \<Rightarrow> if pe_stub e then (Ok e, stubs) else made
         | None \<Rightarrow> made)"

section \<open>Lemmas\<close>

fun get_stubs :: "(bool \<times> string option \<times> string) list \<Rightarrow> ConnecttionPool \<Rightarrow> ConnecttionPool" where
  "get_stubs [] stubs = stubs"
| "get_stubs ((init_ok, err, node) # calls) stubs = get_stubs calls (snd (get_stub init_ok err node stubs))"

text \<open>A stub that was made stays, whatever is asked for later.\<close>

lemma get_stub_keeps: "stubs node = Some e \<Longrightarrow> pe_stub e \<Longrightarrow> snd (get_stub init_ok err other stubs) node = Some e"
  by (cases "other = node") (auto simp: get_stub_def Let_def split: option.splits)

lemma get_stubs_keep: "stubs node = Some e \<Longrightarrow> pe_stub e \<Longrightarrow> get_stubs calls stubs node = Some e"
  by (induction calls stubs rule: get_stubs.induct) (auto simp: get_stub_keeps)

text \<open>So a node whose channel could not be initialised at the first call is never tried again.\<close>

lemma broken_channel_stays:
  assumes "stubs node = None"
  shows "get_stub init_ok err node (get_stubs calls (snd (get_stub False None node stubs))) =
    (Ok \<lparr>pe_channel = False, pe_stub = True\<rparr>, get_stubs calls (snd (get_stub False None node stubs)))"
proof -
  let ?e = "\<lparr>pe_channel = False, pe_stub = True\<rparr>"
  have "snd (get_stub False None node stubs) node = Some ?e" using assms by (simp add: get_stub_def Let_def)
  from get_stubs_keep [of "snd (get_stub False None node stubs)" node ?e calls, OF this] show ?thesis by (simp add: get_stub_def Let_def)
qed

end
